(* ===== verification/Prelude.thy ===== *)
theory Prelude
  imports Main "HOL-Library.Word" "HOL-Library.AList" "HOL-Library.Multiset"
    "HOL-Library.List_Lexorder" "HOL-Library.Char_ord"
begin

text \<open>
  Shared vocabulary of the development: the machine integers of the source, the names
  \<open>Ok\<close> and \<open>Err\<close> for Rust results, the saturating operations of the standard library,
  the hash map interface (a locale and its association-list provider), decimal printing and
  parsing of the standard library, and the generic lemmas the components share.
\<close>

section \<open>Types and results\<close>

type_synonym u8 = "8 word"
type_synonym u16 = "16 word"
type_synonym u32 = "32 word"
type_synonym u64 = "64 word"
type_synonym u128 = "128 word"
type_synonym bytes = "8 word list"

text \<open>Rust's \<open>Result<T, E>\<close> is the sum type; \<open>Ok\<close> is the right injection.\<close>

abbreviation Ok :: "'a \<Rightarrow> 'e + 'a" where
  "Ok \<equiv> Inr"

abbreviation Err :: "'e \<Rightarrow> 'e + 'a" where
  "Err \<equiv> Inl"

abbreviation is_ok :: "'e + 'a \<Rightarrow> bool" where
  "is_ok r \<equiv> \<not> isl r"

text \<open>A method that takes \<open>&mut self\<close> returns the new state with its result.\<close>

type_synonym ('s, 'e, 'a) step = "'s \<Rightarrow> 's \<times> ('e + 'a)"

definition map_err :: "('e \<Rightarrow> 'f) \<Rightarrow> 'e + 'a \<Rightarrow> 'f + 'a" where
  "map_err f r = (case r of Err e \<Rightarrow> Err (f e) | Ok x \<Rightarrow> Ok x)"

definition saturating_sub :: "'a::len word \<Rightarrow> 'a word \<Rightarrow> 'a word" where
  "saturating_sub a b = (if b \<le> a then a - b else 0)"

text \<open>Decimal printing (\<open>format!("{:05}")\<close>) and parsing (\<open>str::parse::<u32>\<close>).\<close>

definition digit_char :: "nat \<Rightarrow> char" where
  "digit_char d = char_of (48 + d)"

fun show_nat :: "nat \<Rightarrow> string" where
  "show_nat n = (if n < 10 then [digit_char n] else show_nat (n div 10) @ [digit_char (n mod 10)])"

definition zero_pad :: "nat \<Rightarrow> string \<Rightarrow> string" where
  "zero_pad w s = replicate (w - length s) (digit_char 0) @ s"

definition is_digit :: "char \<Rightarrow> bool" where
  "is_digit c \<longleftrightarrow> 48 \<le> (of_char c :: nat) \<and> (of_char c :: nat) \<le> 57"

definition digits_val :: "string \<Rightarrow> nat" where
  "digits_val s = foldl (\<lambda>acc c. 10 * acc + (of_char c - 48)) 0 s"

definition parse_u32 :: "string \<Rightarrow> u32 option" where
  "parse_u32 s = (if s \<noteq> [] \<and> list_all is_digit s \<and> digits_val s < 2 ^ 32
    then Some (word_of_nat (digits_val s)) else None)"

text \<open>\<open>str::parse::<u32>\<close> also accepts one leading plus sign.\<close>

definition from_str_u32 :: "string \<Rightarrow> u32 option" where
  "from_str_u32 s = (case s of c # r \<Rightarrow> if c = CHR ''+'' then parse_u32 r else parse_u32 s | [] \<Rightarrow> None)"

text \<open>
  A \<open>HashSet\<close> whose size or elements are used is a list without duplicates, in the order its
  iterator yields; \<open>List.insert\<close> is its \<open>insert\<close>.
\<close>

definition hash_set_from :: "'a list \<Rightarrow> 'a list" where
  "hash_set_from xs = fold List.insert xs []"

text \<open>
  A draw of \<open>random_range(lo..=hi)\<close> of the rand crate: some value of the range, picked by the
  argument \<open>draw\<close>. \<open>Instant\<close> and \<open>Duration\<close> are numbers of milliseconds;
  \<open>Instant::duration_since\<close> saturates at zero, as subtraction of naturals does.
\<close>

definition random_range_incl :: "nat \<Rightarrow> nat \<Rightarrow> nat \<Rightarrow> nat" where
  "random_range_incl lo hi draw = lo + draw mod (hi - lo + 1)"

type_synonym instant = nat
type_synonym duration = nat

named_theorems wsimps \<open>words as naturals\<close>
named_theorems step_simps \<open>equations that evaluate a model step\<close>

declare show_nat.simps [simp del]

section \<open>Machine words\<close>

lemma unat_plus_u32: "unat a + unat b < 2 ^ 32 \<Longrightarrow> unat (a + b :: u32) = unat a + unat b"
  by (simp add: unat_word_ariths)

lemma unat_plus_u64: "unat a + unat b < 2 ^ 64 \<Longrightarrow> unat (a + b :: u64) = unat a + unat b"
  by (simp add: unat_word_ariths)

lemma unat_minus_le: "b \<le> a \<Longrightarrow> unat (a - b) = unat a - unat (b :: 'a::len word)"
  by (rule unat_sub)

lemma saturating_sub_add [simp]: "unat a + unat b < 2 ^ 32 \<Longrightarrow> saturating_sub (a + b :: u32) b = a"
  by (auto simp: saturating_sub_def word_le_nat_alt unat_plus_u32)

lemma sub_add_cancel_word [simp]: "(a - b) + b = (a :: 'a::len word)"
  by simp

lemma unat_less_pow32: "unat (a :: u32) < 2 ^ 32"
  using unsigned_less [of a] by simp

lemma unat_less_pow64: "unat (a :: u64) < 2 ^ 64"
  using unsigned_less [of a] by simp

lemma unat_ucast_u32_u64 [simp]: "unat (ucast (w :: u32) :: u64) = unat w"
  using unat_less_pow32 [of w] by (simp add: unsigned_ucast_eq take_bit_nat_eq_self)

lemma ucast_ucast_u32 [simp]: "(ucast (ucast (w :: u32) :: u64) :: u32) = w"
  by (rule bit_word_eqI) (auto simp: bit_simps)

lemma word_of_unat: "unat w = n \<Longrightarrow> w = (word_of_nat n :: 'a::len word)"
  by auto

lemma word_of_Suc_unat: "word_of_nat (Suc (unat w)) = w + (1 :: 'a::len word)"
  by simp

lemmas word_nat_alt [wsimps] = word_less_nat_alt word_le_nat_alt

lemma random_range_incl_bounds:
  "lo \<le> hi \<Longrightarrow> lo \<le> random_range_incl lo hi draw \<and> random_range_incl lo hi draw \<le> hi"
  using mod_less_divisor [of "hi - lo + 1" draw] unfolding random_range_incl_def by linarith

section \<open>Results\<close>

lemma map_err_simps [simp]:
  "map_err f (Err e) = Err (f e)" "map_err f (Ok x) = Ok x"
  by (simp_all add: map_err_def)

lemma is_ok_map_err [simp]: "isl (map_err f r) = isl r"
  by (cases r) simp_all

section \<open>The hash map interface\<close>

text \<open>
  What the code uses of \<open>std::collections::HashMap\<close>: lookup, insertion, removal and
  \<open>len\<close>, with the laws of a finite map. The clients below rest on these laws only.
\<close>

locale hash_map =
  fixes get :: "'m \<Rightarrow> 'k \<Rightarrow> 'v option"
    and ins :: "'k \<Rightarrow> 'v \<Rightarrow> 'm \<Rightarrow> 'm"
    and del :: "'k \<Rightarrow> 'm \<Rightarrow> 'm"
    and len :: "'m \<Rightarrow> nat"
    and vals :: "'m \<Rightarrow> 'v list"
    and invar :: "'m \<Rightarrow> bool"
  assumes get_ins: "get (ins k v m) = (get m)(k \<mapsto> v)"
    and get_del: "get (del k m) = (get m)(k := None)"
    and len_ins: "invar m \<Longrightarrow> len (ins k v m) = (if get m k = None then Suc (len m) else len m)"
    and len_del: "invar m \<Longrightarrow> len (del k m) = (if get m k = None then len m else len m - 1)"
    and vals_get: "invar m \<Longrightarrow> v \<in> set (vals m) \<longleftrightarrow> (\<exists>k. get m k = Some v)"
    and invar_ins: "invar m \<Longrightarrow> invar (ins k v m)"
    and invar_del: "invar m \<Longrightarrow> invar (del k m)"
begin

lemma get_ins_same: "get (ins k v m) k = Some v"
  by (simp add: get_ins)

lemma len_ins_le: "invar m \<Longrightarrow> len (ins k v m) \<le> Suc (len m)"
  by (simp add: len_ins)

lemma len_del_le: "invar m \<Longrightarrow> len (del k m) \<le> len m"
  by (simp add: len_del)

lemma all_ins:
  "invar m \<Longrightarrow> (\<And>k' v'. get m k' = Some v' \<Longrightarrow> P k' v') \<Longrightarrow> P k v \<Longrightarrow>
    get (ins k v m) k' = Some v' \<Longrightarrow> P k' v'"
  by (auto simp: get_ins split: if_splits)

lemma all_del:
  "(\<And>k' v'. get m k' = Some v' \<Longrightarrow> P k' v') \<Longrightarrow> get (del k m) k' = Some v' \<Longrightarrow> P k' v'"
  by (auto simp: get_del split: if_splits)

end

definition keys_distinct :: "('k \<times> 'v) list \<Rightarrow> bool" where
  "keys_distinct m \<longleftrightarrow> distinct (map fst m)"

lemma length_update_alist:
  "distinct (map fst m) \<Longrightarrow>
    length (AList.update k v m) = (if map_of m k = None then Suc (length m) else length m)"
  by (induction m) (auto simp: map_of_eq_None_iff intro: rev_image_eqI)

lemma length_delete_alist:
  "distinct (map fst m) \<Longrightarrow>
    length (AList.delete k m) = (if map_of m k = None then length m else length m - 1)"
proof (induction m)
  case (Cons p m)
  obtain a b where p: "p = (a, b)" by force
  have "map_of m a = None" using Cons.prems p by (simp add: map_of_eq_None_iff)
  then have id: "AList.delete a m = m" by (simp add: delete_id map_of_eq_None_iff)
  have pos: "map_of m k \<noteq> None \<Longrightarrow> 0 < length m" by (cases m) auto
  from Cons p id pos show ?case by auto
qed simp

interpretation hm: hash_map map_of AList.update AList.delete length "map snd" keys_distinct
proof unfold_locales
  fix m :: "('k \<times> 'v) list" and k and v
  show "map_of (AList.update k v m) = (map_of m)(k \<mapsto> v)" by (rule update_conv')
  show "map_of (AList.delete k m) = (map_of m)(k := None)" by (rule delete_conv')
  assume d: "keys_distinct m"
  show "length (AList.update k v m) = (if map_of m k = None then Suc (length m) else length m)"
    using d by (simp add: keys_distinct_def length_update_alist)
  show "length (AList.delete k m) = (if map_of m k = None then length m else length m - 1)"
    using d by (simp add: keys_distinct_def length_delete_alist)
  show "(v \<in> set (map snd m)) = (\<exists>k. map_of m k = Some v)"
    using d by (force simp: keys_distinct_def)
  show "keys_distinct (AList.update k v m)"
    using d by (simp add: keys_distinct_def distinct_update)
  show "keys_distinct (AList.delete k m)"
    using d by (simp add: keys_distinct_def distinct_delete)
qed

section \<open>Hash sets\<close>

lemma hash_set_from_fold: "distinct ys \<Longrightarrow>
    set (fold List.insert xs ys) = set xs \<union> set ys \<and> distinct (fold List.insert xs ys)"
  by (induction xs arbitrary: ys) auto

lemma set_hash_set_from [simp]: "set (hash_set_from xs) = set xs"
  using hash_set_from_fold [of "[]" xs] by (simp add: hash_set_from_def)

lemma distinct_hash_set_from [simp]: "distinct (hash_set_from xs)"
  using hash_set_from_fold [of "[]" xs] by (simp add: hash_set_from_def)

lemma length_set_insert: "distinct xs \<Longrightarrow> length (List.insert x xs) = card (insert x (set xs))"
  by (metis distinct_card distinct_insert List.set_insert)

section \<open>Decimal numerals\<close>

lemma of_char_digit [simp]: "d < 10 \<Longrightarrow> (of_char (digit_char d) :: nat) = 48 + d"
  by (simp add: digit_char_def)

lemma is_digit_digit_char [simp]: "d < 10 \<Longrightarrow> is_digit (digit_char d)"
  by (simp add: is_digit_def)

lemma show_nat_digits: "list_all is_digit (show_nat n)"
proof (induction n rule: show_nat.induct)
  case (1 n)
  then show ?case by (subst show_nat.simps) auto
qed

lemma show_nat_not_Nil [simp]: "show_nat n \<noteq> []"
  by (subst show_nat.simps) simp

lemma digits_val_snoc: "digits_val (s @ [c]) = 10 * digits_val s + (of_char c - 48)"
  by (simp add: digits_val_def)

lemma digits_val_show_nat [simp]: "digits_val (show_nat n) = n"
proof (induction n rule: show_nat.induct)
  case (1 n)
  show ?case
  proof (cases "n < 10")
    case True
    then show ?thesis by (simp add: show_nat.simps [of n] digits_val_def)
  next
    case False
    with 1 show ?thesis by (simp add: show_nat.simps [of n] digits_val_snoc)
  qed
qed

lemma digits_val_pad: "digits_val (replicate k (digit_char 0) @ s) = digits_val s"
  by (induction k) (simp_all add: digits_val_def)

lemma parse_u32_pad: "n < 2 ^ 32 \<Longrightarrow> parse_u32 (zero_pad w (show_nat n)) = Some (word_of_nat n)"
  using show_nat_digits [of n]
  by (auto simp: parse_u32_def zero_pad_def digits_val_pad list_all_iff)

lemma from_str_u32_show: "n < 2 ^ 32 \<Longrightarrow> from_str_u32 (show_nat n) = Some (word_of_nat n)"
proof -
  assume n: "n < 2 ^ 32"
  obtain c r where s: "show_nat n = c # r" by (metis show_nat_not_Nil list.exhaust)
  then have "c \<noteq> CHR ''+''" using show_nat_digits [of n] by (auto simp: is_digit_def)
  with s n show ?thesis
    using show_nat_digits [of n] digits_val_show_nat [of n] by (simp add: from_str_u32_def parse_u32_def)
qed

end
