(* ===== verification/Crypto.thy ===== *)
theory Crypto
  imports Prelude
begin

text \<open>
  \<^verbatim>\<open>src/src/crypto.rs\<close>. Keys and signatures belong to the k256 crate: a
  \<open>Signature\<close>, a \<open>SigningKey\<close> and a \<open>VerifyingKey\<close> are identified with their
  canonical byte encodings, and signing, verification, key derivation, random generation and
  decoding are the fields of a record of externals that every definition using them takes as
  an argument. So are \<open>hex::encode\<close> and the SHA-256 digest.
\<close>

type_synonym Signature = bytes
type_synonym SigningKey = bytes
type_synonym VerifyingKey = bytes

record crypto_ext =
  ec_sign :: "SigningKey \<Rightarrow> bytes \<Rightarrow> Signature"
  ec_verify :: "VerifyingKey \<Rightarrow> bytes \<Rightarrow> Signature \<Rightarrow> bool"
  ec_verifying_key :: "SigningKey \<Rightarrow> VerifyingKey"
  ec_signing_key_valid :: "bytes \<Rightarrow> bool"
  ec_sec1_valid :: "bytes \<Rightarrow> bool"
  hex_encode :: "bytes \<Rightarrow> string"
  sha256 :: "bytes \<Rightarrow> bytes"

datatype signature_error = SignatureVerificationFailed

text \<open>The documented contract of ECDSA: a signature made with a key verifies under it.\<close>

definition ecdsa_correct :: "('a) crypto_ext_scheme \<Rightarrow> bool" where
  "ecdsa_correct X \<longleftrightarrow> (\<forall>k m. ec_verify X (ec_verifying_key X k) m (ec_sign X k m))"

section \<open>KeyManager\<close>

definition KEY_FILE_NAME :: string where
  "KEY_FILE_NAME = ''private_key.bin''"

text \<open>
  The key directory: whether it can be created, whether its key file can be written, and the
  key file's bytes when it can be read.
\<close>

record key_dir =
  dir_creatable :: bool
  key_writable :: bool
  key_file :: "bytes option"

datatype key_panic =
    FailedToCreateDirectory
  | InvalidKeyLength
  | InvalidKeyData
  | FailedToWriteKeyFile

definition get_or_create_key ::
    "('a) crypto_ext_scheme \<Rightarrow> SigningKey \<Rightarrow> (key_dir, key_panic, SigningKey) step" where
  "get_or_create_key X fresh d =
    (if \<not> dir_creatable d then (d, Err FailedToCreateDirectory)
     else (case key_file d of
       Some key_bytes \<Rightarrow>
         if length key_bytes \<noteq> 32 then (d, Err InvalidKeyLength)
         else if \<not> ec_signing_key_valid X key_bytes then (d, Err InvalidKeyData)
         else (d, Ok key_bytes)
     | None \<Rightarrow>
         if \<not> key_writable d then (d, Err FailedToWriteKeyFile)
         else (d\<lparr>key_file := Some fresh\<rparr>, Ok fresh)))"

definition bytes_to_key :: "('a) crypto_ext_scheme \<Rightarrow> bytes \<Rightarrow> signature_error + VerifyingKey" where
  "bytes_to_key X key_bytes =
    (if ec_sec1_valid X key_bytes then Ok key_bytes else Err SignatureVerificationFailed)"

definition to_string_hex :: "('a) crypto_ext_scheme \<Rightarrow> VerifyingKey \<Rightarrow> string" where
  "to_string_hex X verifying_key = hex_encode X verifying_key"

definition sign_message :: "('a) crypto_ext_scheme \<Rightarrow> ('m \<Rightarrow> bytes) \<Rightarrow> SigningKey \<Rightarrow> 'm \<Rightarrow> Signature" where
  "sign_message X to_vec key signable = ec_sign X key (to_vec signable)"

definition verify_message ::
    "('a) crypto_ext_scheme \<Rightarrow> VerifyingKey \<Rightarrow> Signature \<Rightarrow> bytes \<Rightarrow> signature_error + unit" where
  "verify_message X public_key sig message =
    (if ec_verify X public_key message sig then Ok () else Err SignatureVerificationFailed)"

section \<open>A concrete instance of the externals\<close>

text \<open>
  Executable stand-ins for evaluating the model on concrete inputs: the key is prepended to
  the message, so a signature verifies exactly when it was made with the key.
\<close>

definition test_hex :: "bytes \<Rightarrow> string" where
  "test_hex bs = map (\<lambda>b. char_of (unat b)) bs"

definition test_sha256 :: "bytes \<Rightarrow> bytes" where
  "test_sha256 bs = replicate 31 0 @ [fold (\<lambda>b a. 3 * a + b + 1) bs 0]"

definition test_crypto :: crypto_ext where
  "test_crypto = \<lparr>ec_sign = (\<lambda>k m. k @ m), ec_verify = (\<lambda>k m s. s = k @ m),
    ec_verifying_key = (\<lambda>k. k), ec_signing_key_valid = (\<lambda>_. True),
    ec_sec1_valid = (\<lambda>_. True), hex_encode = test_hex,
    sha256 = test_sha256\<rparr>"

section \<open>Lemmas\<close>

lemma verify_message_ok [simp]: "verify_message X pk s m = Ok u \<longleftrightarrow> ec_verify X pk m s"
  by (cases u) (simp add: verify_message_def)

lemma verify_message_isl [simp]: "isl (verify_message X pk s m) \<longleftrightarrow> \<not> ec_verify X pk m s"
  by (simp add: verify_message_def)

lemma sign_then_verify_message:
  "ecdsa_correct X \<Longrightarrow>
    verify_message X (ec_verifying_key X k) (sign_message X to_vec k m) (to_vec m) = Ok ()"
  by (simp add: ecdsa_correct_def sign_message_def)

lemma get_or_create_key_stable_aux:
  assumes "get_or_create_key X fresh d = (d', Ok k)" and "length k = 32" and "ec_signing_key_valid X k"
  shows "get_or_create_key X fresh' d' = (d', Ok k)"
  using assms by (auto simp: get_or_create_key_def split: option.splits if_splits)

lemma ecdsa_correct_test [simp]: "ecdsa_correct test_crypto"
  by (simp add: ecdsa_correct_def test_crypto_def)

end
