(* ===== verification/Transactions.thy ===== *)
theory Transactions
  imports Crypto
begin

text \<open>
  \<^verbatim>\<open>src/src/transactions.rs\<close>: client transactions, their two signatures, and the
  \<open>TransactionProcessor\<close> that keeps account balances. The JSON encodings that serde_json
  produces are externals. Balances are 32-bit words: \<open>+\<close> wraps, as in the release build
  that \<^verbatim>\<open>docker/demo/Dockerfile\<close> ships; the theorems that need it state the
  absence of overflow as a bound on the supply.
\<close>

section \<open>Data\<close>

record Metadata =
  timestamp_nanos :: u128
  sequence_number :: u32

datatype AssetType = BTC | USDT

datatype Operation =
    AddCoin (add_amount: u32) (add_asset: AssetType)
  | Send (send_recipient: string) (send_amount: u32) (send_asset: AssetType)

record Transaction =
  operation :: Operation
  metadata :: Metadata

record SignedTransaction =
  transaction :: Transaction
  signature :: Signature
  public_key :: VerifyingKey

record VerifiedTransaction =
  client_tx :: SignedTransaction
  peer_signature :: Signature
  peer_public_key :: VerifyingKey

record tx_ext = crypto_ext +
  transaction_to_vec :: "Transaction \<Rightarrow> bytes"
  signed_transaction_to_vec :: "SignedTransaction \<Rightarrow> bytes"

datatype tx_error = InvalidClientSignature | InvalidPeerSignature

definition to_sign_bytes :: "('a) tx_ext_scheme \<Rightarrow> Transaction \<Rightarrow> bytes" where
  "to_sign_bytes X t = transaction_to_vec X t"

definition SignedTransaction_new ::
    "('a) tx_ext_scheme \<Rightarrow> Transaction \<Rightarrow> SigningKey \<Rightarrow> SignedTransaction" where
  "SignedTransaction_new X t signing_key =
    \<lparr>transaction = t, signature = ec_sign X signing_key (to_sign_bytes X t),
     public_key = ec_verifying_key X signing_key\<rparr>"

definition SignedTransaction_verify ::
    "('a) tx_ext_scheme \<Rightarrow> SignedTransaction \<Rightarrow> tx_error + unit" where
  "SignedTransaction_verify X stx =
    (if ec_verify X (public_key stx) (to_sign_bytes X (transaction stx)) (signature stx)
     then Ok () else Err InvalidClientSignature)"

definition tx_id :: "('a) tx_ext_scheme \<Rightarrow> SignedTransaction \<Rightarrow> string" where
  "tx_id X stx = hex_encode X (signature stx)"

definition VerifiedTransaction_new ::
    "('a) tx_ext_scheme \<Rightarrow> SignedTransaction \<Rightarrow> SigningKey \<Rightarrow> VerifiedTransaction" where
  "VerifiedTransaction_new X ctx peer_key =
    \<lparr>client_tx = ctx, peer_signature = ec_sign X peer_key (signed_transaction_to_vec X ctx),
     peer_public_key = ec_verifying_key X peer_key\<rparr>"

definition VerifiedTransaction_verify ::
    "('a) tx_ext_scheme \<Rightarrow> VerifiedTransaction \<Rightarrow> tx_error + unit" where
  "VerifiedTransaction_verify X vtx =
    (case SignedTransaction_verify X (client_tx vtx) of
       Err e \<Rightarrow> Err e
     | Ok _ \<Rightarrow>
         if ec_verify X (peer_public_key vtx) (signed_transaction_to_vec X (client_tx vtx))
              (peer_signature vtx)
         then Ok () else Err InvalidPeerSignature)"

section \<open>TransactionProcessor\<close>

record Account =
  asset_type :: AssetType
  balance :: u32

datatype TransactionValidationError =
    AccountNotFound string
  | InsufficientFunds string u32 u32
  | AssetMismatch string AssetType AssetType

definition AssetType_debug :: "AssetType \<Rightarrow> string" where
  "AssetType_debug a = (case a of BTC \<Rightarrow> ''BTC'' | USDT \<Rightarrow> ''USDT'')"

fun TransactionValidationError_fmt :: "TransactionValidationError \<Rightarrow> string" where
  "TransactionValidationError_fmt (AccountNotFound account_id) =
     ''Account '' @ account_id @ '' not found''"
| "TransactionValidationError_fmt (InsufficientFunds account_id bal amount) =
     ''Account '' @ account_id @ '' has insufficient funds: balance '' @ show_nat (unat bal) @
     '', requested '' @ show_nat (unat amount)"
| "TransactionValidationError_fmt (AssetMismatch account_id expected actual) =
     ''Account '' @ account_id @ '' asset mismatch: expected '' @ AssetType_debug expected @
     '', got '' @ AssetType_debug actual"

record TransactionProcessor =
  accounts :: "string \<rightharpoonup> Account"
  applied_transactions :: "string set"

definition TransactionProcessor_default :: TransactionProcessor where
  "TransactionProcessor_default = \<lparr>accounts = Map.empty, applied_transactions = {}\<rparr>"

definition add_coin ::
    "string \<Rightarrow> AssetType \<Rightarrow> u32 \<Rightarrow>
     (TransactionProcessor, TransactionValidationError, unit) step" where
  "add_coin aid at amount p =
    (case accounts p aid of
       Some account \<Rightarrow>
         if asset_type account \<noteq> at then (p, Err (AssetMismatch aid (asset_type account) at))
         else (p\<lparr>accounts := (accounts p)(aid \<mapsto> account\<lparr>balance := balance account + amount\<rparr>)\<rparr>, Ok ())
     | None \<Rightarrow>
         (p\<lparr>accounts := (accounts p)(aid \<mapsto> \<lparr>asset_type = at, balance = amount\<rparr>)\<rparr>, Ok ()))"

definition send_coins ::
    "string \<Rightarrow> string \<Rightarrow> AssetType \<Rightarrow> u32 \<Rightarrow>
     (TransactionProcessor, TransactionValidationError, unit) step" where
  "send_coins aid to at amount p =
    (case accounts p aid of
       None \<Rightarrow> (p, Err (AccountNotFound aid))
     | Some sender_account \<Rightarrow>
         if asset_type sender_account \<noteq> at
         then (p, Err (AssetMismatch aid (asset_type sender_account) at))
         else if balance sender_account < amount
         then (p, Err (InsufficientFunds aid (balance sender_account) amount))
         else
           let debit = p\<lparr>accounts := (accounts p)(aid \<mapsto>
                 sender_account\<lparr>balance := balance sender_account - amount\<rparr>)\<rparr>
           in (case accounts p to of
                 Some recipient_account \<Rightarrow>
                   if asset_type recipient_account \<noteq> at
                   then (p, Err (AssetMismatch to (asset_type recipient_account) at))
                   else add_coin to at amount debit
               | None \<Rightarrow> add_coin to at amount debit))"

definition process_transaction ::
    "('a) tx_ext_scheme \<Rightarrow> SignedTransaction \<Rightarrow>
     (TransactionProcessor, TransactionValidationError, unit) step" where
  "process_transaction X ctx p =
    (if tx_id X ctx \<in> applied_transactions p then (p, Ok ())
     else
       let (p', result) =
         (case operation (transaction ctx) of
            AddCoin amount at \<Rightarrow> add_coin (to_string_hex X (public_key ctx)) at amount p
          | Send recipient amount at \<Rightarrow>
              send_coins (to_string_hex X (public_key ctx)) recipient at amount p)
       in (if is_ok result
           then p'\<lparr>applied_transactions := insert (tx_id X ctx) (applied_transactions p')\<rparr>
           else p', result))"

definition reverse_add_coin :: "string \<Rightarrow> u32 \<Rightarrow> TransactionProcessor \<Rightarrow> TransactionProcessor" where
  "reverse_add_coin aid amount p =
    (case accounts p aid of
       Some account \<Rightarrow> p\<lparr>accounts := (accounts p)(aid \<mapsto>
         account\<lparr>balance := saturating_sub (balance account) amount\<rparr>)\<rparr>
     | None \<Rightarrow> p)"

definition reverse_send_coins ::
    "string \<Rightarrow> string \<Rightarrow> u32 \<Rightarrow> TransactionProcessor \<Rightarrow> TransactionProcessor" where
  "reverse_send_coins aid to amount p =
    (let p1 = (case accounts p to of
                 Some recipient_account \<Rightarrow> p\<lparr>accounts := (accounts p)(to \<mapsto>
                   recipient_account\<lparr>balance := saturating_sub (balance recipient_account) amount\<rparr>)\<rparr>
               | None \<Rightarrow> p)
     in (case accounts p1 aid of
           Some sender_account \<Rightarrow> p1\<lparr>accounts := (accounts p1)(aid \<mapsto>
             sender_account\<lparr>balance := balance sender_account + amount\<rparr>)\<rparr>
         | None \<Rightarrow> p1))"

definition rollback_transaction ::
    "('a) tx_ext_scheme \<Rightarrow> SignedTransaction \<Rightarrow> TransactionProcessor \<Rightarrow> TransactionProcessor" where
  "rollback_transaction X ctx p =
    (if tx_id X ctx \<notin> applied_transactions p then p
     else
       let p1 = p\<lparr>applied_transactions := applied_transactions p - {tx_id X ctx}\<rparr>
       in (case operation (transaction ctx) of
             AddCoin amount _ \<Rightarrow> reverse_add_coin (to_string_hex X (public_key ctx)) amount p1
           | Send recipient amount _ \<Rightarrow>
               reverse_send_coins (to_string_hex X (public_key ctx)) recipient amount p1))"

definition rollback_transactions ::
    "('a) tx_ext_scheme \<Rightarrow> SignedTransaction list \<Rightarrow> TransactionProcessor \<Rightarrow> TransactionProcessor" where
  "rollback_transactions X txs p = fold (rollback_transaction X) (rev txs) p"

definition get_account :: "TransactionProcessor \<Rightarrow> string \<Rightarrow> Account option" where
  "get_account p aid = accounts p aid"

section \<open>Specification vocabulary\<close>

text \<open>The processor after one transaction, whatever the result was.\<close>

definition apply_tx ::
    "('a) tx_ext_scheme \<Rightarrow> SignedTransaction \<Rightarrow> TransactionProcessor \<Rightarrow> TransactionProcessor" where
  "apply_tx X tx p = fst (process_transaction X tx p)"

text \<open>All coins of all accounts, and the coins a transaction creates.\<close>

definition acc_total :: "(string \<rightharpoonup> Account) \<Rightarrow> nat" where
  "acc_total m = (\<Sum>a\<in>dom m. unat (balance (the (m a))))"

abbreviation total_supply :: "TransactionProcessor \<Rightarrow> nat" where
  "total_supply p \<equiv> acc_total (accounts p)"

definition minted :: "SignedTransaction \<Rightarrow> nat" where
  "minted tx = (case operation (transaction tx) of AddCoin amount _ \<Rightarrow> unat amount | Send _ _ _ \<Rightarrow> 0)"

text \<open>
  \<open>restores p q\<close>: \<open>p\<close> holds every account of \<open>q\<close> unchanged and has applied the same
  transactions; an account only \<open>p\<close> has is empty.
\<close>

fun account_restored :: "Account option \<Rightarrow> Account option \<Rightarrow> bool" where
  "account_restored x (Some acc) = (x = Some acc)"
| "account_restored None None = True"
| "account_restored (Some acc) None = (balance acc = 0)"

definition restores :: "TransactionProcessor \<Rightarrow> TransactionProcessor \<Rightarrow> bool" where
  "restores p q \<longleftrightarrow> applied_transactions p = applied_transactions q \<and>
    (\<forall>a. account_restored (accounts p a) (accounts q a))"

definition undoable :: "('a) tx_ext_scheme \<Rightarrow> TransactionProcessor \<Rightarrow> SignedTransaction list \<Rightarrow> bool" where
  "undoable X p txs \<longleftrightarrow> finite (dom (accounts p)) \<and> distinct (map (tx_id X) txs) \<and>
    tx_id X ` set txs \<inter> applied_transactions p = {} \<and>
    total_supply p + sum_list (map minted txs) < 2 ^ 32"

section \<open>Concrete inputs\<close>

definition test_tx_ext :: tx_ext where
  "test_tx_ext = \<lparr>ec_sign = (\<lambda>k m. k @ m), ec_verify = (\<lambda>k m s. s = k @ m),
    ec_verifying_key = (\<lambda>k. k), ec_signing_key_valid = (\<lambda>_. True),
    ec_sec1_valid = (\<lambda>_. True), hex_encode = test_hex,
    sha256 = test_sha256,
    transaction_to_vec = (\<lambda>t. [ucast (sequence_number (metadata t))]),
    signed_transaction_to_vec = signature\<rparr>"

definition test_tx :: "Operation \<Rightarrow> u32 \<Rightarrow> SigningKey \<Rightarrow> SignedTransaction" where
  "test_tx op n k = \<lparr>transaction = \<lparr>operation = op, metadata = \<lparr>timestamp_nanos = 0, sequence_number = n\<rparr>\<rparr>,
    signature = k @ [ucast n], public_key = k\<rparr>"

section \<open>Errors leave the processor unchanged\<close>

lemma add_coin_err: "add_coin a t n p = (p', Err e) \<Longrightarrow> p' = p"
  by (auto simp: add_coin_def split: option.splits if_splits)

lemma add_coin_same_asset:
  "\<lbrakk>accounts p a = Some acc; asset_type acc = t\<rbrakk> \<Longrightarrow>
    add_coin a t n p = (p\<lparr>accounts := (accounts p)(a \<mapsto> acc\<lparr>balance := balance acc + n\<rparr>)\<rparr>, Ok ())"
  by (simp add: add_coin_def)

lemma send_coins_cases:
  obtains (missing) "accounts p s = None" "send_coins s r t n p = (p, Err (AccountNotFound s))"
  | (mismatch) acc where "accounts p s = Some acc" "asset_type acc \<noteq> t"
      "send_coins s r t n p = (p, Err (AssetMismatch s (asset_type acc) t))"
  | (funds) acc where "accounts p s = Some acc" "asset_type acc = t" "balance acc < n"
      "send_coins s r t n p = (p, Err (InsufficientFunds s (balance acc) n))"
  | (recipient) acc rcp where "accounts p s = Some acc" "asset_type acc = t" "n \<le> balance acc"
      "accounts p r = Some rcp" "asset_type rcp \<noteq> t"
      "send_coins s r t n p = (p, Err (AssetMismatch r (asset_type rcp) t))"
  | (self) acc where "accounts p s = Some acc" "asset_type acc = t" "n \<le> balance acc" "r = s"
      "send_coins s r t n p = (p\<lparr>accounts := (accounts p)(s \<mapsto> acc)\<rparr>, Ok ())"
  | (known) acc rcp where "accounts p s = Some acc" "asset_type acc = t" "n \<le> balance acc" "r \<noteq> s"
      "accounts p r = Some rcp" "asset_type rcp = t"
      "send_coins s r t n p = (p\<lparr>accounts := (accounts p)(s \<mapsto> acc\<lparr>balance := balance acc - n\<rparr>,
          r \<mapsto> rcp\<lparr>balance := balance rcp + n\<rparr>)\<rparr>, Ok ())"
  | (fresh) acc where "accounts p s = Some acc" "asset_type acc = t" "n \<le> balance acc" "r \<noteq> s"
      "accounts p r = None"
      "send_coins s r t n p = (p\<lparr>accounts := (accounts p)(s \<mapsto> acc\<lparr>balance := balance acc - n\<rparr>,
          r \<mapsto> \<lparr>asset_type = t, balance = n\<rparr>)\<rparr>, Ok ())"
proof (cases "accounts p s")
  case None
  then show thesis by (intro missing) (simp_all add: send_coins_def)
next
  case (Some acc)
  consider "asset_type acc \<noteq> t" | "asset_type acc = t" "balance acc < n"
    | "asset_type acc = t" "n \<le> balance acc" by fastforce
  then show thesis
  proof cases
    case 1
    with Some show ?thesis by (intro mismatch [of acc]) (simp_all add: send_coins_def)
  next
    case 2
    with Some show ?thesis by (intro funds [of acc]) (simp_all add: send_coins_def)
  next
    case 3
    then have nf: "\<not> balance acc < n" by simp
    show ?thesis
    proof (cases "r = s")
      case True
      with Some 3 nf show ?thesis by (intro self [of acc]) (simp_all add: send_coins_def add_coin_def)
    next
      case False
      show ?thesis
      proof (cases "accounts p r")
        case None
        with Some 3 nf False show ?thesis by (intro fresh [of acc]) (simp_all add: send_coins_def add_coin_def)
      next
        case rcp: (Some rcp)
        show ?thesis
        proof (cases "asset_type rcp = t")
          case True
          with Some 3 nf False rcp show ?thesis
            by (intro known [of acc rcp]) (simp_all add: send_coins_def add_coin_def)
        next
          case mismatch: False
          with Some 3 nf rcp show ?thesis
            by (intro recipient [of acc rcp]) (simp_all add: send_coins_def)
        qed
      qed
    qed
  qed
qed

lemma send_coins_err: "send_coins s r t n p = (p', Err e) \<Longrightarrow> p' = p"
  by (cases rule: send_coins_cases [where p = p and s = s and r = r and t = t and n = n]) simp_all

lemma process_transaction_err:
  "process_transaction X tx p = (p', Err e) \<Longrightarrow> p' = p"
  by (auto simp: process_transaction_def Let_def split: prod.splits Operation.splits if_splits
      dest: add_coin_err send_coins_err)

section \<open>Supply\<close>

lemma acc_total_upd:
  assumes "finite (dom m)"
  shows "acc_total (m(a \<mapsto> acc)) + (case m a of None \<Rightarrow> 0 | Some old \<Rightarrow> unat (balance old)) =
    acc_total m + unat (balance acc)"
proof -
  have upd: "acc_total (m(a \<mapsto> acc)) = unat (balance acc) + (\<Sum>x\<in>dom m - {a}. unat (balance (the (m x))))"
  proof -
    have "acc_total (m(a \<mapsto> acc)) = (\<Sum>x\<in>insert a (dom m - {a}). unat (balance (the ((m(a \<mapsto> acc)) x))))"
      by (simp add: acc_total_def insert_absorb)
    also have "\<dots> = unat (balance acc) + (\<Sum>x\<in>dom m - {a}. unat (balance (the ((m(a \<mapsto> acc)) x))))"
      using assms by (subst sum.insert) auto
    also have "(\<Sum>x\<in>dom m - {a}. unat (balance (the ((m(a \<mapsto> acc)) x)))) =
        (\<Sum>x\<in>dom m - {a}. unat (balance (the (m x))))"
      by (rule sum.cong) auto
    finally show ?thesis .
  qed
  have old: "acc_total m = (case m a of None \<Rightarrow> 0 | Some old \<Rightarrow> unat (balance old)) +
      (\<Sum>x\<in>dom m - {a}. unat (balance (the (m x))))"
    using assms by (cases "m a") (auto simp: acc_total_def domIff sum.remove [of "dom m" a])
  from upd old show ?thesis by simp
qed

lemma balance_le_total:
  "finite (dom m) \<Longrightarrow> m a = Some acc \<Longrightarrow> unat (balance acc) \<le> acc_total m"
  unfolding acc_total_def
  by (rule order_trans [OF _ member_le_sum [of a "dom m" "\<lambda>x. unat (balance (the (m x)))"]]) auto

lemma add_coin_finite:
  "finite (dom (accounts p)) \<Longrightarrow> finite (dom (accounts (fst (add_coin a t n p))))"
  by (auto simp: add_coin_def split: option.splits)

lemma send_coins_finite:
  "finite (dom (accounts p)) \<Longrightarrow> finite (dom (accounts (fst (send_coins s r t n p))))"
  by (cases rule: send_coins_cases [where p = p and s = s and r = r and t = t and n = n]) simp_all

lemma apply_tx_finite:
  "finite (dom (accounts p)) \<Longrightarrow> finite (dom (accounts (apply_tx X tx p)))"
  using add_coin_finite [of p] send_coins_finite [of p]
  by (auto simp: apply_tx_def process_transaction_def Let_def split: prod.splits Operation.splits)
    (metis fst_conv)+

lemma add_coin_supply:
  assumes "finite (dom (accounts p))" and "total_supply p + unat n < 2 ^ 32"
    and "add_coin a t n p = (p', Ok ())"
  shows "total_supply p' = total_supply p + unat n"
proof (cases "accounts p a")
  case None
  with assms show ?thesis
    using acc_total_upd [OF assms(1), of a "\<lparr>asset_type = t, balance = n\<rparr>"]
    by (auto simp: add_coin_def)
next
  case (Some acc)
  have "unat (balance acc) + unat n < 2 ^ 32"
    using balance_le_total [OF assms(1) Some] assms(2) by simp
  with assms Some show ?thesis
    using acc_total_upd [OF assms(1), of a "acc\<lparr>balance := balance acc + n\<rparr>"]
    by (auto simp: add_coin_def unat_plus_u32 split: if_splits)
qed

lemma transfer_supply:
  assumes fin: "finite (dom m)" and s: "m s = Some acc" and "r \<noteq> s" and le: "n \<le> balance acc"
    and bound: "acc_total m < 2 ^ 32"
    and credit: "unat (balance new) = (case m r of None \<Rightarrow> 0 | Some old \<Rightarrow> unat (balance old)) + unat n"
  shows "acc_total (m(s \<mapsto> acc\<lparr>balance := balance acc - n\<rparr>, r \<mapsto> new)) = acc_total m"
proof -
  let ?m = "m(s \<mapsto> acc\<lparr>balance := balance acc - n\<rparr>)"
  have debit: "acc_total ?m + unat (balance acc) = acc_total m + unat (balance acc) - unat n"
    using acc_total_upd [OF fin, of s "acc\<lparr>balance := balance acc - n\<rparr>"] s le
    by (simp add: unat_sub word_le_nat_alt)
  have le': "unat n \<le> unat (balance acc)" using le by (simp add: word_le_nat_alt)
  have "finite (dom ?m)" using fin by simp
  then have "acc_total (?m(r \<mapsto> new)) + (case m r of None \<Rightarrow> 0 | Some old \<Rightarrow> unat (balance old)) =
      acc_total ?m + unat (balance new)"
    using acc_total_upd [of ?m r new] \<open>r \<noteq> s\<close> by simp
  with debit credit le' show ?thesis by simp
qed

lemma two_balances_le_total:
  assumes "finite (dom m)" and "m s = Some acc" and "m r = Some rcp" and "r \<noteq> s"
  shows "unat (balance acc) + unat (balance rcp) \<le> acc_total m"
proof -
  have "(\<Sum>x\<in>{s, r}. unat (balance (the (m x)))) \<le> acc_total m"
    unfolding acc_total_def using assms by (intro sum_mono2) auto
  with assms show ?thesis by simp
qed

lemma send_coins_supply:
  assumes fin: "finite (dom (accounts p))" and bound: "total_supply p < 2 ^ 32"
    and ok: "send_coins s r t n p = (p', Ok ())"
  shows "total_supply p' = total_supply p"
proof (cases rule: send_coins_cases [where p = p and s = s and r = r and t = t and n = n])
  case (self acc)
  with ok have "accounts p' = accounts p" by (auto simp: fun_upd_idem_iff)
  then show ?thesis by simp
next
  case (known acc rcp)
  have "unat (balance rcp) + unat n < 2 ^ 32"
    using two_balances_le_total [OF fin known(1,5,4)] known(3) bound by (simp add: word_le_nat_alt)
  with known ok bound show ?thesis
    using transfer_supply [OF fin known(1,4,3) bound, of "rcp\<lparr>balance := balance rcp + n\<rparr>"]
    by (auto simp: unat_plus_u32)
next
  case (fresh acc)
  with ok show ?thesis
    using transfer_supply [OF fin fresh(1,4,3) bound, of "\<lparr>asset_type = t, balance = n\<rparr>"] by auto
qed (use ok in simp_all)

lemma apply_tx_supply:
  assumes "finite (dom (accounts p))" and "total_supply p + minted tx < 2 ^ 32"
    and "tx_id X tx \<notin> applied_transactions p" and "process_transaction X tx p = (p', Ok ())"
  shows "total_supply p' = total_supply p + minted tx"
  using assms
  by (cases "operation (transaction tx)")
    (auto simp: process_transaction_def minted_def Let_def split: prod.splits if_splits
      dest: add_coin_supply send_coins_supply)

section \<open>Rolling back\<close>

locale journal =
  fixes run :: "'op \<Rightarrow> 's \<Rightarrow> 's"
    and undo :: "'op \<Rightarrow> 's \<Rightarrow> 's"
    and same :: "'s \<Rightarrow> 's \<Rightarrow> bool"
    and pre :: "'s \<Rightarrow> 'op list \<Rightarrow> bool"
  assumes same_refl: "same s s"
    and pre_step: "pre s (op # ops) \<Longrightarrow> pre (run op s) ops"
    and undo_run: "pre s (op # ops) \<Longrightarrow> same t (run op s) \<Longrightarrow> same (undo op t) s"
begin

lemma undo_all_same: "pre s ops \<Longrightarrow> same t (fold run ops s) \<Longrightarrow> same (fold undo (rev ops) t) s"
proof (induction ops arbitrary: s)
  case (Cons op ops)
  have "same (fold undo (rev ops) t) (run op s)"
    using Cons.prems by (intro Cons.IH pre_step) simp_all
  with Cons.prems(1) show ?case by (simp add: undo_run)
qed simp

lemma undo_all: "pre s ops \<Longrightarrow> same (fold undo (rev ops) (fold run ops s)) s"
  by (rule undo_all_same) (auto simp: same_refl)

end

lemma account_restored_refl [simp]: "account_restored x x"
  by (cases x) simp_all

lemma restores_refl: "restores p p"
  by (simp add: restores_def)

lemma restores_applied: "restores p q \<Longrightarrow> applied_transactions p = applied_transactions q"
  by (simp add: restores_def)

lemma restores_SomeD: "restores p q \<Longrightarrow> accounts q a = Some acc \<Longrightarrow> accounts p a = Some acc"
  by (metis restores_def account_restored.simps(1))

text \<open>Frame rule: outside \<open>A\<close> nothing changed on either side.\<close>

lemma restores_frame:
  assumes "restores t q'" and "\<And>b. b \<notin> A \<Longrightarrow> accounts q b = accounts q' b"
    and "\<And>b. b \<notin> A \<Longrightarrow> accounts u b = accounts t b"
    and "\<And>b. b \<in> A \<Longrightarrow> account_restored (accounts u b) (accounts q b)"
    and "applied_transactions u = applied_transactions q"
  shows "restores u q"
  using assms unfolding restores_def by metis

lemma saturating_sub_self [simp]: "saturating_sub a a = 0"
  by (simp add: saturating_sub_def)

lemma undo_add_coin:
  assumes ok: "add_coin a ty n q = (q', Ok ())" and new: "i \<notin> applied_transactions q"
    and room: "\<And>acc. accounts q a = Some acc \<Longrightarrow> unat (balance acc) + unat n < 2 ^ 32"
    and t: "restores t (q'\<lparr>applied_transactions := insert i (applied_transactions q')\<rparr>)"
  shows "restores (reverse_add_coin a n (t\<lparr>applied_transactions := applied_transactions t - {i}\<rparr>)) q"
proof (rule restores_frame [OF t, where A = "{a}"])
  obtain acc where acc: "accounts q' a = Some acc" and applied: "applied_transactions q' = applied_transactions q"
    and q': "\<And>b. b \<noteq> a \<Longrightarrow> accounts q' b = accounts q b"
    and undo: "account_restored (Some (acc\<lparr>balance := saturating_sub (balance acc) n\<rparr>)) (accounts q a)"
    using ok room by (auto simp: add_coin_def split: option.splits if_splits)
  from t acc have ta: "accounts t a = Some acc" by (auto dest: restores_SomeD)
  let ?u = "reverse_add_coin a n (t\<lparr>applied_transactions := applied_transactions t - {i}\<rparr>)"
  show "accounts q b = accounts (q'\<lparr>applied_transactions := insert i (applied_transactions q')\<rparr>) b"
    if "b \<notin> {a}" for b using q' that by simp
  show "accounts ?u b = accounts t b" if "b \<notin> {a}" for b
    using ta that by (simp add: reverse_add_coin_def)
  show "account_restored (accounts ?u b) (accounts q b)" if "b \<in> {a}" for b
    using ta undo that by (simp add: reverse_add_coin_def)
  show "applied_transactions ?u = applied_transactions q"
    using ta new applied restores_applied [OF t] by (simp add: reverse_add_coin_def)
qed

lemma undo_send_coins:
  assumes ok: "send_coins s r ty n q = (q', Ok ())" and new: "i \<notin> applied_transactions q"
    and room: "\<And>rcp. r \<noteq> s \<Longrightarrow> n \<le> balance (the (accounts q s)) \<Longrightarrow>
      accounts q r = Some rcp \<Longrightarrow> unat (balance rcp) + unat n < 2 ^ 32"
    and t: "restores t (q'\<lparr>applied_transactions := insert i (applied_transactions q')\<rparr>)"
  shows "restores (reverse_send_coins s r n (t\<lparr>applied_transactions := applied_transactions t - {i}\<rparr>)) q"
    (is "restores ?u q")
proof (cases rule: send_coins_cases [where p = q and s = s and r = r and t = ty and n = n])
  case (self acc)
  then have ts: "accounts t s = Some acc" using restores_SomeD [OF t, of s acc] ok by auto
  have "saturating_sub (balance acc) n + n = balance acc"
    using self(3) by (simp add: saturating_sub_def)
  with ts self ok new restores_applied [OF t] show ?thesis
    by (intro restores_frame [OF t, where A = "{s}"]) (auto simp: reverse_send_coins_def)
next
  case (known acc rcp)
  then have "accounts t s = Some (acc\<lparr>balance := balance acc - n\<rparr>)"
      "accounts t r = Some (rcp\<lparr>balance := balance rcp + n\<rparr>)"
    using restores_SomeD [OF t, of s] restores_SomeD [OF t, of r] ok by auto
  moreover have "unat (balance rcp) + unat n < 2 ^ 32" using room known by simp
  ultimately show ?thesis using known ok new restores_applied [OF t]
    by (intro restores_frame [OF t, where A = "{s, r}"]) (auto simp: reverse_send_coins_def)
next
  case (fresh acc)
  then have "accounts t s = Some (acc\<lparr>balance := balance acc - n\<rparr>)"
      "accounts t r = Some \<lparr>asset_type = ty, balance = n\<rparr>"
    using restores_SomeD [OF t, of s] restores_SomeD [OF t, of r] ok by auto
  then show ?thesis using fresh ok new restores_applied [OF t]
    by (intro restores_frame [OF t, where A = "{s, r}"]) (auto simp: reverse_send_coins_def)
qed (use ok in simp_all)

lemma undoable_Cons:
  "undoable X p (tx # txs) \<Longrightarrow> undoable X (apply_tx X tx p) txs"
proof -
  assume u: "undoable X p (tx # txs)"
  obtain p' r where step: "process_transaction X tx p = (p', r)" by force
  have u': "finite (dom (accounts p))" "tx_id X tx \<notin> applied_transactions p"
    "total_supply p + minted tx < 2 ^ 32"
    using u by (auto simp: undoable_def)
  show ?thesis
  proof (cases r)
    case (Inl e)
    then have "apply_tx X tx p = p" using step process_transaction_err by (fastforce simp: apply_tx_def)
    with u show ?thesis by (auto simp: undoable_def)
  next
    case (Inr x)
    have "total_supply p' = total_supply p + minted tx"
      using apply_tx_supply [OF u'(1,3,2)] step Inr by simp
    moreover have "applied_transactions p' = insert (tx_id X tx) (applied_transactions p)"
      using step Inr u'(2)
      by (auto simp: process_transaction_def add_coin_def send_coins_def Let_def
          split: Operation.splits option.splits if_splits)
    moreover have "finite (dom (accounts p'))" using apply_tx_finite [OF u'(1)] step by (metis apply_tx_def fst_conv)
    ultimately show ?thesis using u step by (auto simp: undoable_def apply_tx_def)
  qed
qed

lemma rollback_restores:
  assumes u: "undoable X p (tx # txs)" and t: "restores t (apply_tx X tx p)"
  shows "restores (rollback_transaction X tx t) p"
proof -
  have fin: "finite (dom (accounts p))" and new: "tx_id X tx \<notin> applied_transactions p"
    and room: "total_supply p + minted tx < 2 ^ 32"
    using u by (auto simp: undoable_def)
  obtain p' r where step: "process_transaction X tx p = (p', r)" by force
  show ?thesis
  proof (cases r)
    case (Inl e)
    then have "apply_tx X tx p = p" using step process_transaction_err by (fastforce simp: apply_tx_def)
    with t new show ?thesis by (simp add: rollback_transaction_def restores_applied)
  next
    case (Inr x)
    then show ?thesis
    proof (cases "operation (transaction tx)")
      case (AddCoin n ty)
      then obtain q where q: "add_coin (to_string_hex X (public_key tx)) ty n p = (q, Ok ())"
          "p' = q\<lparr>applied_transactions := insert (tx_id X tx) (applied_transactions q)\<rparr>"
        using step Inr new by (auto simp: process_transaction_def Let_def split: prod.splits if_splits)
      have "restores t p'" using t step by (simp add: apply_tx_def)
      with undo_add_coin [OF q(1) new] q(2) AddCoin room balance_le_total [OF fin] show ?thesis
        by (fastforce simp: rollback_transaction_def restores_applied minted_def Let_def)
    next
      case (Send rcp n ty)
      then obtain q where q: "send_coins (to_string_hex X (public_key tx)) rcp ty n p = (q, Ok ())"
          "p' = q\<lparr>applied_transactions := insert (tx_id X tx) (applied_transactions q)\<rparr>"
        using step Inr new by (auto simp: process_transaction_def Let_def split: prod.splits if_splits)
      have "restores t p'" using t step by (simp add: apply_tx_def)
      moreover have "unat (balance acc) + unat n < 2 ^ 32"
        if "rcp \<noteq> to_string_hex X (public_key tx)" "n \<le> balance (the (accounts p (to_string_hex X (public_key tx))))"
          "accounts p rcp = Some acc" for acc
      proof -
        obtain sacc where "accounts p (to_string_hex X (public_key tx)) = Some sacc"
          using q(1) by (auto simp: send_coins_def split: option.splits)
        with two_balances_le_total [OF fin this that(3,1)] that(2) room show ?thesis
          by (simp add: word_le_nat_alt)
      qed
      ultimately show ?thesis using undo_send_coins [OF q(1) new] q(2) Send
        by (simp add: rollback_transaction_def restores_applied Let_def)
    qed
  qed
qed

interpretation tx_journal: journal "apply_tx X" "rollback_transaction X" restores "undoable X"
  for X :: "('a) tx_ext_scheme"
  by unfold_locales (auto intro: restores_refl undoable_Cons rollback_restores)

lemma reverse_keeps_accounts:
  "accounts p b = Some acc \<Longrightarrow>
    \<exists>acc'. accounts (reverse_add_coin a n p) b = Some acc' \<and> asset_type acc' = asset_type acc"
  "accounts p b = Some acc \<Longrightarrow>
    \<exists>acc'. accounts (reverse_send_coins s r n p) b = Some acc' \<and> asset_type acc' = asset_type acc"
  by (auto simp: reverse_add_coin_def reverse_send_coins_def Let_def split: option.splits)

lemma process_keeps_accounts:
  assumes "accounts p b = Some acc"
  shows "\<exists>acc'. accounts (fst (process_transaction X tx p)) b = Some acc' \<and> asset_type acc' = asset_type acc"
  using assms
  by (auto simp: process_transaction_def add_coin_def send_coins_def Let_def
      split: Operation.splits option.splits if_splits)

section \<open>Properties\<close>

text \<open>
  C17. Rolling back a block undoes it: when transactions that were not applied before, with
  distinct ids, are processed in order (failing ones included) and then handed to
  \<open>rollback_transactions\<close>, every account that existed has its old asset and balance, the set
  of applied ids is the old one, and an account the block created is left with balance 0.
  The bound on the supply excludes wrap-around of a balance.
\<close>
theorem rollback_undoes_block:
  assumes "undoable X p txs"
  shows "restores (rollback_transactions X txs (fold (apply_tx X) txs p)) p"
  unfolding rollback_transactions_def using assms by (rule tx_journal.undo_all)

text \<open>
  C26. Conservation of coins: a transaction processed for the first time and accepted adds to
  the sum of all balances exactly what it mints: the amount of an \<open>AddCoin\<close>, nothing for a
  \<open>Send\<close> (also to oneself and to a new account).
\<close>
theorem process_conserves_supply:
  assumes "finite (dom (accounts p))" and "total_supply p + minted tx < 2 ^ 32"
    and "tx_id X tx \<notin> applied_transactions p" and "process_transaction X tx p = (p', Ok ())"
  shows "total_supply p' = total_supply p + minted tx"
  using assms by (rule apply_tx_supply)

text \<open>
  C27. \<open>process_transaction\<close> is atomic and idempotent: an error leaves the whole processor
  unchanged, and after a success the same transaction is a no-op that reports success again.
\<close>
theorem process_atomic_idempotent:
  "case process_transaction X tx p of
     (p', Err e) \<Rightarrow> p' = p
   | (p', Ok _) \<Rightarrow> process_transaction X tx p' = (p', Ok ())"
proof (cases "process_transaction X tx p")
  case (Pair p' r)
  show ?thesis
  proof (cases r)
    case (Inl e)
    with Pair show ?thesis using process_transaction_err by fastforce
  next
    case (Inr x)
    with Pair have "tx_id X tx \<in> applied_transactions p'"
      by (auto simp: process_transaction_def Let_def split: prod.splits if_splits)
    with Pair Inr show ?thesis by (simp add: process_transaction_def)
  qed
qed

text \<open>
  What \<open>send_coins\<close> accepts and how it fails, on every branch: unknown sender, wrong asset
  of the sender, insufficient balance, wrong asset of an existing recipient, in this order;
  otherwise success.
\<close>
theorem send_coins_result:
  "snd (send_coins s r t n p) =
    (case accounts p s of
       None \<Rightarrow> Err (AccountNotFound s)
     | Some acc \<Rightarrow>
         if asset_type acc \<noteq> t then Err (AssetMismatch s (asset_type acc) t)
         else if balance acc < n then Err (InsufficientFunds s (balance acc) n)
         else if \<exists>rcp. accounts p r = Some rcp \<and> asset_type rcp \<noteq> t
           then Err (AssetMismatch r (asset_type (the (accounts p r))) t)
         else Ok ())"
  by (cases rule: send_coins_cases [where p = p and s = s and r = r and t = t and n = n])
    (auto simp: not_less [symmetric])

text \<open>
  C39. Balances wrap: crediting an account beyond \<open>2\<^sup>3\<^sup>2 - 1\<close> is accepted and leaves it with the
  sum minus \<open>2\<^sup>3\<^sup>2\<close>, less than it had before the deposit.
\<close>
theorem add_coin_wraps:
  assumes "accounts p a = Some acc" and "asset_type acc = t"
    and "2 ^ 32 \<le> unat (balance acc) + unat n"
  shows "\<exists>p' acc'. add_coin a t n p = (p', Ok ()) \<and> accounts p' a = Some acc' \<and>
    unat (balance acc') + 2 ^ 32 = unat (balance acc) + unat n \<and> balance acc' < balance acc"
proof -
  have "unat (balance acc) < 2 ^ 32" "unat n < 2 ^ 32" by (rule unat_less_pow32)+
  with assms(3) have "unat (balance acc + n) + 2 ^ 32 = unat (balance acc) + unat n"
    by (simp add: unat_word_ariths le_mod_geq)
  with assms \<open>unat n < 2 ^ 32\<close> show ?thesis
    by (intro exI [of _ "p\<lparr>accounts := (accounts p)(a \<mapsto> acc\<lparr>balance := balance acc + n\<rparr>)\<rparr>"]
        exI [of _ "acc\<lparr>balance := balance acc + n\<rparr>"])
      (simp add: add_coin_def word_less_nat_alt)
qed

text \<open>
  Accounts are never removed and never change their asset, whatever transactions are
  processed and rolled back.
\<close>
theorem accounts_keep_asset:
  assumes "accounts p b = Some acc"
  shows "(\<exists>acc'. accounts (fst (process_transaction X tx p)) b = Some acc' \<and> asset_type acc' = asset_type acc) \<and>
    (\<exists>acc'. accounts (rollback_transaction X tx p) b = Some acc' \<and> asset_type acc' = asset_type acc)"
  using process_keeps_accounts [OF assms] reverse_keeps_accounts [of "p\<lparr>applied_transactions := _\<rparr>" b acc] assms
  by (auto simp: rollback_transaction_def Let_def split: Operation.splits)

section \<open>Witnesses\<close>

definition test_block :: "SignedTransaction list" where
  "test_block = [test_tx (AddCoin 10 BTC) 1 [65], test_tx (Send ''B'' 4 BTC) 2 [65],
     test_tx (Send ''C'' 9 BTC) 3 [65]]"

lemmas test_tx_simps = test_tx_ext_def test_tx_def tx_id_def test_hex_def test_block_def

lemma test_block_undoable: "undoable test_tx_ext TransactionProcessor_default test_block"
  by (simp add: undoable_def test_tx_simps TransactionProcessor_default_def acc_total_def minted_def)

theorem rollback_undoes_block_witness:
  "undoable test_tx_ext TransactionProcessor_default test_block \<and>
   restores (rollback_transactions test_tx_ext test_block
      (fold (apply_tx test_tx_ext) test_block TransactionProcessor_default)) TransactionProcessor_default"
  using rollback_undoes_block [OF test_block_undoable] test_block_undoable by blast

definition test_processor :: TransactionProcessor where
  "test_processor = \<lparr>accounts = [''A'' \<mapsto> \<lparr>asset_type = BTC, balance = 10\<rparr>], applied_transactions = {}\<rparr>"

definition test_send :: SignedTransaction where
  "test_send = test_tx (Send ''B'' 4 BTC) 2 [65]"

lemma char_of_65 [simp]: "char_of (65::nat) = CHR ''A''"
  by (simp add: char_of_def bit_Suc bit_0)

lemma test_send_runs:
  "process_transaction test_tx_ext test_send test_processor =
    (\<lparr>accounts = [''A'' \<mapsto> \<lparr>asset_type = BTC, balance = 6\<rparr>, ''B'' \<mapsto> \<lparr>asset_type = BTC, balance = 4\<rparr>],
      applied_transactions = {''A'' @ [char_of (2::nat)]}\<rparr>, Ok ())"
  by (simp add: process_transaction_def test_send_def test_processor_def test_tx_simps send_coins_def
      add_coin_def to_string_hex_def)

theorem process_conserves_supply_witness:
  "total_supply (fst (process_transaction test_tx_ext test_send test_processor)) = total_supply test_processor"
proof -
  have "finite (dom (accounts test_processor))" "total_supply test_processor + minted test_send < 2 ^ 32"
    "tx_id test_tx_ext test_send \<notin> applied_transactions test_processor" "minted test_send = 0"
    by (simp_all add: test_processor_def test_send_def test_tx_def acc_total_def minted_def)
  with process_conserves_supply [OF _ _ _ test_send_runs] show ?thesis by (simp add: test_send_runs)
qed

theorem add_coin_wraps_witness:
  "\<exists>p' acc'. add_coin ''A'' BTC 4294967295 test_processor = (p', Ok ()) \<and> accounts p' ''A'' = Some acc' \<and>
    unat (balance acc') + 2 ^ 32 = 10 + 4294967295 \<and> balance acc' < 10"
  using add_coin_wraps [of test_processor "''A''" "\<lparr>asset_type = BTC, balance = 10\<rparr>" BTC 4294967295]
  by (simp add: test_processor_def)

theorem accounts_keep_asset_witness:
  "\<exists>acc'. accounts (fst (process_transaction test_tx_ext test_send test_processor)) ''A'' = Some acc' \<and>
    asset_type acc' = BTC"
  using accounts_keep_asset [of test_processor "''A''" "\<lparr>asset_type = BTC, balance = 10\<rparr>" test_tx_ext test_send]
  by (simp add: test_processor_def)

end
