(* ===== verification/Storage.thy ===== *)
theory Storage
  imports Transactions
begin

text \<open>
  \<^verbatim>\<open>src/src/storage.rs\<close>: blocks, their hashes, and the \<open>BlockKeeper\<close> with its mempool,
  pending transactions, uncommitted blocks and block directory; and
  \<open>TransactionProcessor::read_state\<close> of \<^verbatim>\<open>src/src/transactions.rs\<close>, which replays
  the directory. The peer's directory is a list of named files with flags for the I/O errors
  the code handles. JSON encoding, the file name pattern of the regex crate and insertion into
  a \<open>SortedVec\<close> are externals.
\<close>

section \<open>Blocks\<close>

datatype BlockHash = BlockHash (as_bytes: bytes)

definition EMPTY_HASH :: BlockHash where
  "EMPTY_HASH = BlockHash (replicate 32 0)"

record BlockFile =
  bf_index :: u32
  bf_hash :: BlockHash
  bf_previous_hash :: BlockHash
  bf_transactions :: "SignedTransaction list"

record block_ext = tx_ext +
  transactions_to_string :: "SignedTransaction list \<Rightarrow> bytes"
  block_to_vec :: "BlockFile \<Rightarrow> bytes"
  block_from_slice :: "bytes \<Rightarrow> BlockFile option"
  block_captures :: "string \<Rightarrow> string option"
  sorted_vec_push :: "string \<Rightarrow> string list \<Rightarrow> string list"

datatype BlockVerificationError =
    SignatureError signature_error
  | DeserializationError
  | InvalidBlockHash
  | InvalidPreviousHash
  | AlreadyAdded

definition BlockFile_try_from :: "('a) block_ext_scheme \<Rightarrow> bytes \<Rightarrow> BlockVerificationError + BlockFile" where
  "BlockFile_try_from X block_file_vec =
    (case block_from_slice X block_file_vec of None \<Rightarrow> Err DeserializationError | Some b \<Rightarrow> Ok b)"

definition calculate_hash :: "('a) block_ext_scheme \<Rightarrow> SignedTransaction list \<Rightarrow> BlockHash \<Rightarrow> BlockHash" where
  "calculate_hash X txs prev = BlockHash (sha256 X (as_bytes prev @ transactions_to_string X txs))"

definition BlockFile_create ::
    "('a) block_ext_scheme \<Rightarrow> SignedTransaction list \<Rightarrow> BlockHash \<Rightarrow> u32 \<Rightarrow> BlockFile" where
  "BlockFile_create X txs prev ix =
    \<lparr>bf_index = ix, bf_hash = calculate_hash X txs prev, bf_previous_hash = prev, bf_transactions = txs\<rparr>"

definition verify_block :: "('a) block_ext_scheme \<Rightarrow> BlockFile \<Rightarrow> BlockVerificationError + unit" where
  "verify_block X b =
    (if calculate_hash X (bf_transactions b) (bf_previous_hash b) \<noteq> bf_hash b
     then Err InvalidBlockHash else Ok ())"

definition verify_block_vec ::
    "('a) block_ext_scheme \<Rightarrow> BlockHash \<Rightarrow> bytes \<Rightarrow> Signature \<Rightarrow> VerifyingKey \<Rightarrow>
     BlockVerificationError + BlockFile" where
  "verify_block_vec X block_hash block_file_vec sig pk =
    (case map_err SignatureError (verify_message X pk sig block_file_vec) of
       Err e \<Rightarrow> Err e
     | Ok _ \<Rightarrow>
         (case BlockFile_try_from X block_file_vec of
            Err e \<Rightarrow> Err e
          | Ok block_file \<Rightarrow>
              if block_hash \<noteq> bf_hash block_file then Err InvalidBlockHash
              else (case verify_block X block_file of
                      Err e \<Rightarrow> Err e
                    | Ok _ \<Rightarrow> Ok block_file)))"

section \<open>The block directory\<close>

record Disk =
  files :: "(string \<times> bytes) list"
  read_failures :: "string set"
  dir_listable :: bool
  disk_writable :: bool

datatype storage_error =
    BlockFileNotFound string
  | FailedToReadBlockFile string
  | FailedToDeserializeBlockFile string
  | BlockWithHashNotFound BlockHash
  | FailedToWriteBlockFile
  | BlockIndexTooLarge u64

definition block_filename_for_index :: "u32 \<Rightarrow> string" where
  "block_filename_for_index ix = zero_pad 5 (show_nat (unat ix)) @ ''.block''"

definition read_from_disk :: "('a) block_ext_scheme \<Rightarrow> Disk \<Rightarrow> string \<Rightarrow> storage_error + BlockFile" where
  "read_from_disk X d name =
    (case map_of (files d) name of
       None \<Rightarrow> Err (BlockFileNotFound name)
     | Some contents \<Rightarrow>
         if name \<in> read_failures d then Err (FailedToReadBlockFile name)
         else (case block_from_slice X contents of
                 None \<Rightarrow> Err (FailedToDeserializeBlockFile name)
               | Some b \<Rightarrow> Ok b))"

definition read_from_disk_by_index :: "('a) block_ext_scheme \<Rightarrow> Disk \<Rightarrow> u32 \<Rightarrow> storage_error + BlockFile" where
  "read_from_disk_by_index X d ix = read_from_disk X d (block_filename_for_index ix)"

definition fs_write :: "string \<Rightarrow> bytes \<Rightarrow> Disk \<Rightarrow> Disk option" where
  "fs_write name contents d =
    (if disk_writable d then Some (d\<lparr>files := AList.update name contents (files d)\<rparr>) else None)"

definition dir_list_all_blocks :: "('a) block_ext_scheme \<Rightarrow> Disk \<Rightarrow> string list" where
  "dir_list_all_blocks X d =
    (if dir_listable d
     then fold (sorted_vec_push X) (filter (\<lambda>f. block_captures X f \<noteq> None) (map fst (files d))) []
     else [])"

section \<open>BlockKeeper\<close>

record BlockStorageState =
  block_height :: u32
  last_commited_hash :: BlockHash

definition BlockStorageState_from :: "BlockFile \<Rightarrow> BlockStorageState" where
  "BlockStorageState_from b = \<lparr>block_height = bf_index b, last_commited_hash = bf_hash b\<rparr>"

datatype BlockStatus = AddedToMempool | NewBlockCreated (created_hash: BlockHash)

record BlockKeeper =
  path_to_blocks :: Disk
  mempool_size :: nat
  mempool :: "(string \<times> SignedTransaction) list"
  pending_transactions :: "string \<rightharpoonup> SignedTransaction"
  uncommited_blocks :: "(BlockHash \<times> BlockFile) list"
  block_storage_state :: BlockStorageState
  previous_hash :: BlockHash

text \<open>\<open>None\<close> is a panic: the newest file name does not parse as a 32-bit number.\<close>

definition BlockKeeper_new :: "('a) block_ext_scheme \<Rightarrow> Disk \<Rightarrow> nat \<Rightarrow> BlockKeeper option" where
  "BlockKeeper_new X d sz =
    (let mk = (\<lambda>(ix, h). \<lparr>path_to_blocks = d, mempool_size = sz, mempool = [],
        pending_transactions = Map.empty, uncommited_blocks = [],
        block_storage_state = \<lparr>block_height = ix, last_commited_hash = h\<rparr>, previous_hash = h\<rparr>);
         sorted_blocks = dir_list_all_blocks X d
     in (if sorted_blocks = [] then Some (mk (0, EMPTY_HASH))
         else
           let block_file_name = last sorted_blocks
           in (case Option.bind (block_captures X block_file_name) parse_u32 of
                 None \<Rightarrow> None
               | Some block_index \<Rightarrow>
                   (case read_from_disk X d block_file_name of
                      Ok block_file \<Rightarrow> Some (mk (block_index, bf_hash block_file))
                    | Err _ \<Rightarrow> Some (mk (0, EMPTY_HASH))))))"

text \<open>The loops that insert a map into, and remove a block's transactions from, the pending ones.\<close>

fun pending_insert ::
    "(string \<times> SignedTransaction) list \<Rightarrow> (string \<rightharpoonup> SignedTransaction) \<Rightarrow> (string \<rightharpoonup> SignedTransaction)" where
  "pending_insert [] p = p"
| "pending_insert ((i, t) # m) p = pending_insert m (p(i \<mapsto> t))"

fun pending_remove ::
    "('a) block_ext_scheme \<Rightarrow> SignedTransaction list \<Rightarrow> (string \<rightharpoonup> SignedTransaction) \<Rightarrow>
     (string \<rightharpoonup> SignedTransaction)" where
  "pending_remove X [] p = p"
| "pending_remove X (t # ts) p = pending_remove X ts (p(tx_id X t := None))"

definition create_new_block ::
    "('a) block_ext_scheme \<Rightarrow> (string \<times> SignedTransaction) list \<Rightarrow> BlockKeeper \<Rightarrow> BlockKeeper \<times> BlockHash" where
  "create_new_block X transactions_map k =
    (let txs = sort_key (tx_id X) (map snd transactions_map);
         state = block_storage_state k;
         block_file = BlockFile_create X txs (last_commited_hash state) (block_height state + 1);
         block_hash = bf_hash block_file
     in (k\<lparr>previous_hash := block_hash,
           uncommited_blocks := AList.update block_hash block_file (uncommited_blocks k),
           pending_transactions := pending_insert transactions_map (pending_transactions k)\<rparr>,
         block_hash))"

definition add_transaction ::
    "('a) block_ext_scheme \<Rightarrow> SignedTransaction \<Rightarrow> BlockKeeper \<Rightarrow> BlockKeeper \<times> BlockStatus" where
  "add_transaction X tx k =
    (let k1 = k\<lparr>mempool := AList.update (tx_id X tx) tx (mempool k)\<rparr>
     in (if mempool_size k1 \<le> length (mempool k1)
         then let (k2, block_hash) = create_new_block X (mempool k1) (k1\<lparr>mempool := []\<rparr>)
              in (k2, NewBlockCreated block_hash)
         else (k1, AddedToMempool)))"

definition move_to_pending :: "('a) block_ext_scheme \<Rightarrow> SignedTransaction \<Rightarrow> BlockKeeper \<Rightarrow> BlockKeeper" where
  "move_to_pending X tx k =
    (case map_of (mempool k) (tx_id X tx) of
       Some t \<Rightarrow> k\<lparr>mempool := AList.delete (tx_id X tx) (mempool k),
         pending_transactions := (pending_transactions k)(tx_id X t \<mapsto> t)\<rparr>
     | None \<Rightarrow> k)"

definition add_external_block ::
    "('a) block_ext_scheme \<Rightarrow> BlockFile \<Rightarrow> (BlockKeeper, BlockVerificationError, unit) step" where
  "add_external_block X block_file k =
    (case verify_block X block_file of
       Err e \<Rightarrow> (k, Err e)
     | Ok _ \<Rightarrow>
         let k1 = fold (move_to_pending X) (bf_transactions block_file) k
         in (k1\<lparr>uncommited_blocks := AList.update (bf_hash block_file) block_file (uncommited_blocks k1)\<rparr>,
             Ok ()))"

definition commit_block :: "('a) block_ext_scheme \<Rightarrow> BlockHash \<Rightarrow> (BlockKeeper, storage_error, unit) step" where
  "commit_block X block_hash k =
    (case map_of (uncommited_blocks k) block_hash of
       None \<Rightarrow> (k, Err (BlockWithHashNotFound block_hash))
     | Some block_file \<Rightarrow>
         let block_index = block_height (block_storage_state k) + 1
         in (case fs_write (block_filename_for_index block_index) (block_to_vec X block_file)
                    (path_to_blocks k) of
               None \<Rightarrow> (k, Err FailedToWriteBlockFile)
             | Some d \<Rightarrow>
                 (k\<lparr>path_to_blocks := d,
                    block_storage_state := \<lparr>block_height = block_index, last_commited_hash = block_hash\<rparr>,
                    pending_transactions :=
                      pending_remove X (bf_transactions block_file) (pending_transactions k),
                    uncommited_blocks := AList.delete block_hash (uncommited_blocks k)\<rparr>,
                  Ok ())))"

definition readd_pending :: "('a) block_ext_scheme \<Rightarrow> SignedTransaction \<Rightarrow> BlockKeeper \<Rightarrow> BlockKeeper" where
  "readd_pending X tx k =
    (case pending_transactions k (tx_id X tx) of
       Some t \<Rightarrow> fst (add_transaction X t
         (k\<lparr>pending_transactions := (pending_transactions k)(tx_id X tx := None)\<rparr>))
     | None \<Rightarrow> k)"

definition rollback_block :: "('a) block_ext_scheme \<Rightarrow> BlockHash \<Rightarrow> (BlockKeeper, storage_error, unit) step" where
  "rollback_block X block_hash k =
    (case map_of (uncommited_blocks k) block_hash of
       None \<Rightarrow> (k, Err (BlockWithHashNotFound block_hash))
     | Some block_file \<Rightarrow>
         (fold (readd_pending X) (bf_transactions block_file)
            (k\<lparr>uncommited_blocks := AList.delete block_hash (uncommited_blocks k)\<rparr>), Ok ()))"

definition get_uncommited_block :: "BlockKeeper \<Rightarrow> BlockHash \<Rightarrow> BlockFile option" where
  "get_uncommited_block k block_hash = map_of (uncommited_blocks k) block_hash"

definition read_block_by_index :: "('a) block_ext_scheme \<Rightarrow> BlockKeeper \<Rightarrow> u64 \<Rightarrow> storage_error + BlockFile" where
  "read_block_by_index X k ix =
    (if unat ix < 2 ^ 32 then read_from_disk_by_index X (path_to_blocks k) (ucast ix)
     else Err (BlockIndexTooLarge ix))"

definition list_all_blocks :: "('a) block_ext_scheme \<Rightarrow> BlockKeeper \<Rightarrow> string list" where
  "list_all_blocks X k = dir_list_all_blocks X (path_to_blocks k)"

fun find_block_by_hash ::
    "('a) block_ext_scheme \<Rightarrow> Disk \<Rightarrow> BlockHash \<Rightarrow> string list \<Rightarrow> storage_error + BlockFile" where
  "find_block_by_hash X d block_hash [] = Err (BlockWithHashNotFound block_hash)"
| "find_block_by_hash X d block_hash (block_filename # names) =
    (case read_from_disk X d block_filename of
       Err e \<Rightarrow> Err e
     | Ok block_file \<Rightarrow>
         if bf_hash block_file = block_hash then Ok block_file
         else find_block_by_hash X d block_hash names)"

definition read_block_by_hash :: "('a) block_ext_scheme \<Rightarrow> BlockKeeper \<Rightarrow> BlockHash \<Rightarrow> storage_error + BlockFile" where
  "read_block_by_hash X k block_hash =
    find_block_by_hash X (path_to_blocks k) block_hash (list_all_blocks X k)"

definition read_transactions_from_disk ::
    "('a) block_ext_scheme \<Rightarrow> BlockKeeper \<Rightarrow> string \<Rightarrow> storage_error + SignedTransaction list" where
  "read_transactions_from_disk X k block_filename =
    (case read_from_disk X (path_to_blocks k) block_filename of
       Err e \<Rightarrow> Err e
     | Ok b \<Rightarrow> Ok (bf_transactions b))"

definition block_can_be_added :: "BlockKeeper \<Rightarrow> BlockFile \<Rightarrow> bool" where
  "block_can_be_added k block_file =
    (if bf_index block_file = 0 then False
     else if map_of (uncommited_blocks k) (bf_hash block_file) \<noteq> None then False
     else if block_height (block_storage_state k) = bf_index block_file - 1
     then bf_previous_hash block_file = last_commited_hash (block_storage_state k)
     else (case find (\<lambda>b. bf_index b + 1 = bf_index block_file) (map snd (uncommited_blocks k)) of
             None \<Rightarrow> False
           | Some previous_block \<Rightarrow> bf_previous_hash block_file = bf_hash previous_block))"

section \<open>BlockStorageView\<close>

text \<open>
  The view shares the keeper's state behind an \<open>Arc\<close>, so a view read is a read of the keeper
  as it is at that moment.
\<close>

record BlockStorageView =
  storage_state :: BlockStorageState
  view_path :: Disk

definition create_block_storage_view :: "BlockKeeper \<Rightarrow> BlockStorageView" where
  "create_block_storage_view k = \<lparr>storage_state = block_storage_state k, view_path = path_to_blocks k\<rparr>"

definition get_latest_state :: "BlockStorageView \<Rightarrow> BlockStorageState" where
  "get_latest_state v = storage_state v"

definition get_block :: "('a) block_ext_scheme \<Rightarrow> BlockStorageView \<Rightarrow> u32 \<Rightarrow> storage_error + BlockFile" where
  "get_block X v ix = read_from_disk_by_index X (view_path v) ix"

section \<open>Replaying the directory\<close>

datatype replay_error = ReplayStorage storage_error | ReplayValidation TransactionValidationError

fun replay_transactions ::
    "('a) block_ext_scheme \<Rightarrow> SignedTransaction list \<Rightarrow> (TransactionProcessor, replay_error, unit) step" where
  "replay_transactions X [] p = (p, Ok ())"
| "replay_transactions X (t # ts) p =
    (case process_transaction X t p of
       (p', Err e) \<Rightarrow> (p', Err (ReplayValidation e))
     | (p', Ok _) \<Rightarrow> replay_transactions X ts p')"

fun replay_blocks ::
    "('a) block_ext_scheme \<Rightarrow> BlockKeeper \<Rightarrow> string list \<Rightarrow> (TransactionProcessor, replay_error, unit) step" where
  "replay_blocks X k [] p = (p, Ok ())"
| "replay_blocks X k (block_name # names) p =
    (case read_transactions_from_disk X k block_name of
       Err e \<Rightarrow> (p, Err (ReplayStorage e))
     | Ok txs \<Rightarrow>
         (case replay_transactions X txs p of
            (p', Err e) \<Rightarrow> (p', Err e)
          | (p', Ok _) \<Rightarrow> replay_blocks X k names p'))"

definition read_state :: "('a) block_ext_scheme \<Rightarrow> BlockKeeper \<Rightarrow> (TransactionProcessor, replay_error, unit) step" where
  "read_state X k p = replay_blocks X k (list_all_blocks X k) p"

section \<open>Specification vocabulary\<close>

text \<open>
  What the two crates promise: inserting into a sorted vector keeps it sorted and adds the
  element, and the pattern matches a non-empty string of decimal digits followed by \<open>.block\<close>
  and captures the digits.
\<close>

definition sorted_vec_correct :: "('a) block_ext_scheme \<Rightarrow> bool" where
  "sorted_vec_correct X \<longleftrightarrow> (\<forall>x xs. sorted xs \<longrightarrow>
    sorted (sorted_vec_push X x xs) \<and> set (sorted_vec_push X x xs) = insert x (set xs))"

definition block_pattern_correct :: "('a) block_ext_scheme \<Rightarrow> bool" where
  "block_pattern_correct X \<longleftrightarrow> (\<forall>ds. ds \<noteq> [] \<and> list_all is_digit ds \<longrightarrow>
    block_captures X (ds @ ''.block'') = Some ds)"

text \<open>The type invariant of the keeper.\<close>

definition keyed_by :: "('v \<Rightarrow> 'k) \<Rightarrow> ('k \<rightharpoonup> 'v) \<Rightarrow> bool" where
  "keyed_by f m \<longleftrightarrow> (\<forall>i t. m i = Some t \<longrightarrow> f t = i)"

definition blocks_wf :: "('a) block_ext_scheme \<Rightarrow> (BlockHash \<times> BlockFile) list \<Rightarrow> bool" where
  "blocks_wf X bs \<longleftrightarrow> keys_distinct bs \<and> keyed_by bf_hash (map_of bs) \<and>
    (\<forall>h b. map_of bs h = Some b \<longrightarrow> verify_block X b = Ok ())"

definition mempool_wf :: "('a) block_ext_scheme \<Rightarrow> (string \<times> SignedTransaction) list \<Rightarrow> bool" where
  "mempool_wf X m \<longleftrightarrow> keys_distinct m \<and> keyed_by (tx_id X) (map_of m)"

definition keeper_wf :: "('a) block_ext_scheme \<Rightarrow> BlockKeeper \<Rightarrow> bool" where
  "keeper_wf X k \<longleftrightarrow> mempool_wf X (mempool k) \<and> length (mempool k) < max 1 (mempool_size k) \<and>
    keyed_by (tx_id X) (pending_transactions k) \<and> blocks_wf X (uncommited_blocks k)"

section \<open>Concrete inputs\<close>

text \<open>A test instance of the externals; \<open>dec\<close> decodes blocks.\<close>

definition test_captures :: "string \<Rightarrow> string option" where
  "test_captures f = (let ds = take (length f - 6) f in
    if f = ds @ ''.block'' \<and> ds \<noteq> [] \<and> list_all is_digit ds then Some ds else None)"

definition test_block_ext :: "(bytes \<Rightarrow> BlockFile option) \<Rightarrow> block_ext" where
  "test_block_ext dec = \<lparr>ec_sign = (\<lambda>k m. k @ m), ec_verify = (\<lambda>k m s. s = k @ m),
    ec_verifying_key = (\<lambda>k. k), ec_signing_key_valid = (\<lambda>_. True),
    ec_sec1_valid = (\<lambda>_. True), hex_encode = test_hex, sha256 = test_sha256,
    transaction_to_vec = (\<lambda>t. [ucast (sequence_number (metadata t))]),
    signed_transaction_to_vec = signature,
    transactions_to_string = (\<lambda>txs. concat (map signature txs)),
    block_to_vec = (\<lambda>b. ucast (bf_index b) # as_bytes (bf_hash b)),
    block_from_slice = dec, block_captures = test_captures, sorted_vec_push = insort\<rparr>"

definition test_block_file :: "SignedTransaction list \<Rightarrow> BlockHash \<Rightarrow> u32 \<Rightarrow> BlockFile" where
  "test_block_file txs prev ix = BlockFile_create (test_block_ext (\<lambda>_. None)) txs prev ix"

definition test_disk :: Disk where
  "test_disk = \<lparr>files = [], read_failures = {}, dir_listable = True, disk_writable = True\<rparr>"

definition test_keeper :: "nat \<Rightarrow> BlockKeeper" where
  "test_keeper sz = \<lparr>path_to_blocks = test_disk, mempool_size = sz, mempool = [],
    pending_transactions = Map.empty, uncommited_blocks = [],
    block_storage_state = \<lparr>block_height = 0, last_commited_hash = EMPTY_HASH\<rparr>, previous_hash = EMPTY_HASH\<rparr>"

abbreviation test_coin :: "u32 \<Rightarrow> SignedTransaction" where
  "test_coin n \<equiv> test_tx (AddCoin 10 BTC) n [65]"

section \<open>Blocks\<close>

lemma verify_block_iff [simp]:
  "verify_block X b = Ok u \<longleftrightarrow> calculate_hash X (bf_transactions b) (bf_previous_hash b) = bf_hash b"
  by (cases u) (auto simp: verify_block_def)

lemma verify_block_create [simp]: "verify_block X (BlockFile_create X txs prev ix) = Ok ()"
  by (simp add: BlockFile_create_def)

lemma BlockFile_create_sel [simp]:
  "bf_index (BlockFile_create X txs prev ix) = ix"
  "bf_previous_hash (BlockFile_create X txs prev ix) = prev"
  "bf_transactions (BlockFile_create X txs prev ix) = txs"
  "bf_hash (BlockFile_create X txs prev ix) = calculate_hash X txs prev"
  by (simp_all add: BlockFile_create_def)

lemma verify_block_vec_Ok:
  "verify_block_vec X h v sig pk = Ok b \<longleftrightarrow>
    ec_verify X pk v sig \<and> block_from_slice X v = Some b \<and> h = bf_hash b \<and> verify_block X b = Ok ()"
  by (cases "ec_verify X pk v sig"; cases "block_from_slice X v"; cases "verify_block X (the (block_from_slice X v))")
    (auto simp: verify_block_vec_def BlockFile_try_from_def verify_message_def simp del: verify_block_iff)

section \<open>The invariant\<close>

lemma keyed_by_empty [simp]: "keyed_by f Map.empty"
  by (simp add: keyed_by_def)

lemma keyed_by_upd: "keyed_by f m \<Longrightarrow> f v = i \<Longrightarrow> keyed_by f (m(i \<mapsto> v))"
  by (simp add: keyed_by_def)

lemma keyed_by_del: "keyed_by f m \<Longrightarrow> keyed_by f (m(i := None))"
  by (simp add: keyed_by_def)

lemma keyed_byD: "keyed_by f m \<Longrightarrow> m i = Some v \<Longrightarrow> f v = i"
  by (simp add: keyed_by_def)

lemma keyed_by_pending_insert:
  "keyed_by f p \<Longrightarrow> (\<And>i t. (i, t) \<in> set m \<Longrightarrow> f t = i) \<Longrightarrow> keyed_by f (pending_insert m p)"
  by (induction m p rule: pending_insert.induct) (auto simp: keyed_by_upd)

lemma keyed_by_pending_remove: "keyed_by f p \<Longrightarrow> keyed_by f (pending_remove X ts p)"
  by (induction X ts p rule: pending_remove.induct) (auto simp: keyed_by_del)

lemma pending_remove_other: "i \<notin> tx_id X ` set ts \<Longrightarrow> pending_remove X ts p i = p i"
  by (induction X ts p rule: pending_remove.induct) auto

lemma pending_remove_same: "i \<in> tx_id X ` set ts \<Longrightarrow> pending_remove X ts p i = None"
proof (induction X ts p rule: pending_remove.induct)
  case (2 X t ts p)
  show ?case
  proof (cases "i \<in> tx_id X ` set ts")
    case True
    with "2.IH" show ?thesis by (simp del: fun_upd_apply)
  next
    case False
    with "2.prems" show ?thesis by (simp add: pending_remove_other)
  qed
qed simp

lemma pending_insert_other: "i \<notin> fst ` set m \<Longrightarrow> pending_insert m p i = p i"
  by (induction m p rule: pending_insert.induct) auto

lemma pending_insert_mem: "distinct (map fst m) \<Longrightarrow> (i, t) \<in> set m \<Longrightarrow> pending_insert m p i = Some t"
  by (induction m p rule: pending_insert.induct) (auto simp: pending_insert_other)

lemma blocks_wf_upd:
  "blocks_wf X bs \<Longrightarrow> verify_block X b = Ok () \<Longrightarrow> blocks_wf X (AList.update (bf_hash b) b bs)"
  by (auto simp: blocks_wf_def hm.get_ins hm.invar_ins keyed_by_upd)

lemma blocks_wf_del: "blocks_wf X bs \<Longrightarrow> blocks_wf X (AList.delete h bs)"
  by (auto simp: blocks_wf_def hm.get_del hm.invar_del keyed_by_del split: if_splits)

lemma mempool_wf_upd: "mempool_wf X m \<Longrightarrow> mempool_wf X (AList.update (tx_id X t) t m)"
  by (simp add: mempool_wf_def hm.get_ins hm.invar_ins keyed_by_upd)

lemma mempool_wf_del: "mempool_wf X m \<Longrightarrow> mempool_wf X (AList.delete i m)"
  by (simp add: mempool_wf_def hm.get_del hm.invar_del keyed_by_del)

lemma mempool_wf_len_del:
  "mempool_wf X m \<Longrightarrow> length (AList.delete i m) = (if map_of m i = None then length m else length m - 1)"
  by (simp add: mempool_wf_def hm.len_del)

lemma mempool_wf_Nil [simp]: "mempool_wf X []"
  by (simp add: mempool_wf_def keys_distinct_def)

lemma mempool_wf_entry: "mempool_wf X m \<Longrightarrow> (i, t) \<in> set m \<Longrightarrow> tx_id X t = i"
  by (auto simp: mempool_wf_def keys_distinct_def keyed_by_def)

lemma create_new_block_wf:
  assumes "mempool_wf X m" and "keyed_by (tx_id X) (pending_transactions k)"
    and "blocks_wf X (uncommited_blocks k)" and "mempool k = []"
  shows "keeper_wf X (fst (create_new_block X m k))"
proof -
  let ?st = "block_storage_state k"
  let ?b = "BlockFile_create X (sort_key (tx_id X) (map snd m)) (last_commited_hash ?st) (block_height ?st + 1)"
  have "blocks_wf X (AList.update (bf_hash ?b) ?b (uncommited_blocks k))"
    by (rule blocks_wf_upd [OF assms(3) verify_block_create])
  moreover have "keyed_by (tx_id X) (pending_insert m (pending_transactions k))"
    using assms(1,2) by (intro keyed_by_pending_insert) (auto dest: mempool_wf_entry)
  ultimately show ?thesis using assms(4) by (simp add: create_new_block_def keeper_wf_def Let_def)
qed

lemma add_transaction_cases:
  obtains (pool) "length (AList.update (tx_id X tx) tx (mempool k)) < mempool_size k"
      "add_transaction X tx k = (k\<lparr>mempool := AList.update (tx_id X tx) tx (mempool k)\<rparr>, AddedToMempool)"
  | (block) k' h where "mempool_size k \<le> length (AList.update (tx_id X tx) tx (mempool k))"
      "create_new_block X (AList.update (tx_id X tx) tx (mempool k)) (k\<lparr>mempool := []\<rparr>) = (k', h)"
      "add_transaction X tx k = (k', NewBlockCreated h)"
  by (cases "mempool_size k \<le> length (AList.update (tx_id X tx) tx (mempool k))";
      cases "create_new_block X (AList.update (tx_id X tx) tx (mempool k)) (k\<lparr>mempool := []\<rparr>)")
    (auto simp: add_transaction_def)

lemma add_transaction_wf: "keeper_wf X k \<Longrightarrow> keeper_wf X (fst (add_transaction X tx k))"
proof (cases rule: add_transaction_cases [of X tx k])
  case pool
  moreover assume "keeper_wf X k"
  ultimately show ?thesis by (simp add: keeper_wf_def mempool_wf_upd)
next
  case (block k' h)
  moreover assume "keeper_wf X k"
  ultimately show ?thesis
    using create_new_block_wf [of X "AList.update (tx_id X tx) tx (mempool k)" "k\<lparr>mempool := []\<rparr>"]
    by (simp add: keeper_wf_def mempool_wf_upd)
qed

lemma move_to_pending_wf: "keeper_wf X k \<Longrightarrow> keeper_wf X (move_to_pending X tx k)"
  by (auto simp: move_to_pending_def keeper_wf_def mempool_wf_del keyed_by_upd mempool_wf_len_del
      split: option.splits)

lemma fold_wf: "(\<And>x k. keeper_wf X k \<Longrightarrow> keeper_wf X (f x k)) \<Longrightarrow> keeper_wf X k \<Longrightarrow> keeper_wf X (fold f xs k)"
  by (induction xs arbitrary: k) auto

lemma add_external_block_wf: "keeper_wf X k \<Longrightarrow> keeper_wf X (fst (add_external_block X b k))"
  using fold_wf [of X "move_to_pending X" k "bf_transactions b", OF move_to_pending_wf]
  by (auto simp: add_external_block_def Let_def keeper_wf_def blocks_wf_upd split: sum.split)

lemma commit_block_wf: "keeper_wf X k \<Longrightarrow> keeper_wf X (fst (commit_block X h k))"
  by (auto simp: commit_block_def Let_def keeper_wf_def blocks_wf_del keyed_by_pending_remove split: option.split)

lemma readd_pending_wf: "keeper_wf X k \<Longrightarrow> keeper_wf X (readd_pending X tx k)"
  by (auto simp: readd_pending_def split: option.split intro!: add_transaction_wf)
    (simp add: keeper_wf_def keyed_by_del)

lemma rollback_block_wf: "keeper_wf X k \<Longrightarrow> keeper_wf X (fst (rollback_block X h k))"
  by (auto simp: rollback_block_def split: option.split intro!: fold_wf readd_pending_wf)
    (simp add: keeper_wf_def blocks_wf_del)

lemma BlockKeeper_new_wf: "BlockKeeper_new X d sz = Some k \<Longrightarrow> keeper_wf X k"
  by (auto simp: BlockKeeper_new_def Let_def keeper_wf_def blocks_wf_def keys_distinct_def
      split: if_splits option.splits sum.splits)

lemma test_block_ext_sel [simp]:
  "hex_encode (test_block_ext dec) = test_hex" "sha256 (test_block_ext dec) = test_sha256"
  "ec_verify (test_block_ext dec) k m sg = (sg = k @ m)" "ec_sign (test_block_ext dec) k m = k @ m"
  "ec_verifying_key (test_block_ext dec) k = k"
  "transaction_to_vec (test_block_ext dec) t = [ucast (sequence_number (metadata t))]"
  "signed_transaction_to_vec (test_block_ext dec) st = signature st"
  "transactions_to_string (test_block_ext dec) txs = concat (map signature txs)"
  "block_to_vec (test_block_ext dec) b = ucast (bf_index b) # as_bytes (bf_hash b)"
  "block_from_slice (test_block_ext dec) = dec" "block_captures (test_block_ext dec) = test_captures"
  "sorted_vec_push (test_block_ext dec) = insort"
  by (simp_all add: test_block_ext_def)

lemma test_captures_Some:
  "test_captures f = Some ds \<longleftrightarrow> f = ds @ ''.block'' \<and> ds \<noteq> [] \<and> list_all is_digit ds"
  by (auto simp: test_captures_def Let_def)

lemma test_block_ext_correct [simp]:
  "sorted_vec_correct (test_block_ext dec)" "block_pattern_correct (test_block_ext dec)"
  "ecdsa_correct (test_block_ext dec)"
  by (simp_all add: sorted_vec_correct_def sorted_insort set_insort_key block_pattern_correct_def
      test_captures_Some ecdsa_correct_def)

lemma test_tx_sel [simp]:
  "signature (test_tx op n k) = k @ [ucast n]" "public_key (test_tx op n k) = k"
  "operation (transaction (test_tx op n k)) = op"
  "sequence_number (metadata (transaction (test_tx op n k))) = n"
  by (simp_all add: test_tx_def)

lemma test_keeper_sel [simp]:
  "path_to_blocks (test_keeper sz) = test_disk" "mempool_size (test_keeper sz) = sz"
  "mempool (test_keeper sz) = []" "pending_transactions (test_keeper sz) = Map.empty"
  "uncommited_blocks (test_keeper sz) = []"
  "block_storage_state (test_keeper sz) = \<lparr>block_height = 0, last_commited_hash = EMPTY_HASH\<rparr>"
  by (simp_all add: test_keeper_def)

lemma test_keeper_wf [simp]: "keeper_wf X (test_keeper sz)"
  by (simp add: keeper_wf_def blocks_wf_def keys_distinct_def)

section \<open>Properties\<close>

text \<open>
  C28. The keeper's type invariant: mempool and pending transactions are keyed by their own ids,
  uncommitted blocks by their own verified hashes, keys are unique, and the mempool holds fewer
  transactions than its size (at least one free slot). A new keeper has it and every operation
  that changes the keeper keeps it, on success and on error.
\<close>
theorem keeper_wf_invariant:
  "(BlockKeeper_new X d sz = Some k0 \<longrightarrow> keeper_wf X k0) \<and>
   (keeper_wf X k \<longrightarrow> keeper_wf X (fst (add_transaction X tx k)) \<and>
     keeper_wf X (fst (add_external_block X b k)) \<and> keeper_wf X (fst (commit_block X h k)) \<and>
     keeper_wf X (fst (rollback_block X h k)))"
  using BlockKeeper_new_wf add_transaction_wf add_external_block_wf commit_block_wf rollback_block_wf
  by blast

theorem keeper_wf_invariant_witness:
  "keeper_wf (test_block_ext (\<lambda>_. None)) (test_keeper 1) \<and>
   keeper_wf (test_block_ext (\<lambda>_. None))
     (fst (add_transaction (test_block_ext (\<lambda>_. None)) (test_coin 1) (test_keeper 1)))"
  using keeper_wf_invariant [of "test_block_ext (\<lambda>_. None)"] by simp

text \<open>
  A block that \<open>verify_block_vec\<close> accepts is exactly one whose payload is signed by the
  given key, decodes, carries the announced hash and hashes to it; what \<open>BlockFile::create\<close>
  makes verifies, so a created block that is encoded and signed is accepted by a receiver.
\<close>
theorem verify_block_vec_roundtrip:
  assumes "ecdsa_correct X" and "block_from_slice X (block_to_vec X b) = Some b"
    and "b = BlockFile_create X txs prev ix"
  shows "verify_block_vec X (bf_hash b) (block_to_vec X b) (ec_sign X key (block_to_vec X b))
      (ec_verifying_key X key) = Ok b \<and>
    (verify_block_vec X h v sig pk = Ok b' \<longleftrightarrow> ec_verify X pk v sig \<and> block_from_slice X v = Some b' \<and>
      h = bf_hash b' \<and> calculate_hash X (bf_transactions b') (bf_previous_hash b') = bf_hash b')"
  using assms by (auto simp: verify_block_vec_Ok ecdsa_correct_def)

theorem verify_block_vec_roundtrip_witness:
  "let b = test_block_file [test_coin 1] EMPTY_HASH 1; X = test_block_ext (\<lambda>_. Some b) in
    verify_block_vec X (bf_hash b) (block_to_vec X b) (ec_sign X [66] (block_to_vec X b)) [66] = Ok b"
  using verify_block_vec_roundtrip [of "test_block_ext (\<lambda>_. Some (test_block_file [test_coin 1] EMPTY_HASH 1))"
      "test_block_file [test_coin 1] EMPTY_HASH 1" "[test_coin 1]" EMPTY_HASH 1 "[66]"]
  by (simp add: test_block_file_def BlockFile_create_def calculate_hash_def Let_def)

end
