(* ===== verification/Messages.thy ===== *)
theory Messages
  imports Storage
begin

text \<open>
  \<^verbatim>\<open>src/src/peer/messages.rs\<close> and the data that the consensus modules exchange with the
  peer: peer ids, Raft log entries, message bodies, and the effects and state reports of
  \<^verbatim>\<open>src/src/peer/consensus.rs\<close>.
\<close>

section \<open>Peer ids\<close>

datatype PeerId = PeerId (peer_number: u32)

instantiation PeerId :: linorder
begin

definition less_eq_PeerId :: "PeerId \<Rightarrow> PeerId \<Rightarrow> bool" where
  "less_eq_PeerId p q \<longleftrightarrow> peer_number p \<le> peer_number q"

definition less_PeerId :: "PeerId \<Rightarrow> PeerId \<Rightarrow> bool" where
  "less_PeerId p q \<longleftrightarrow> peer_number p < peer_number q"

instance
  by standard (auto simp: less_eq_PeerId_def less_PeerId_def PeerId.expand)

end

datatype peer_id_error = PeerIdParseError | PeerIdTooBig u32

definition PeerId_fmt :: "PeerId \<Rightarrow> string" where
  "PeerId_fmt p = show_nat (unat (peer_number p))"

definition PeerId_from_str :: "string \<Rightarrow> peer_id_error + PeerId" where
  "PeerId_from_str s = (case from_str_u32 s of None \<Rightarrow> Err PeerIdParseError | Some n \<Rightarrow> Ok (PeerId n))"

definition PeerId_try_into :: "PeerId \<Rightarrow> peer_id_error + u16" where
  "PeerId_try_into p = (if unat (peer_number p) < 2 ^ 16 then Ok (ucast (peer_number p))
    else Err (PeerIdTooBig (peer_number p)))"

section \<open>Messages\<close>

record RaftLogEntry =
  le_term :: u64
  le_index :: u64
  le_block_hash :: BlockHash

definition noop :: "u64 \<Rightarrow> u64 \<Rightarrow> RaftLogEntry" where
  "noop t i = \<lparr>le_term = t, le_index = i, le_block_hash = EMPTY_HASH\<rparr>"

definition is_noop :: "RaftLogEntry \<Rightarrow> bool" where
  "is_noop e \<longleftrightarrow> le_block_hash e = EMPTY_HASH"

record RaftReplicatedBlock =
  rb_entry :: RaftLogEntry
  rb_block_file :: bytes
  rb_signature :: Signature
  rb_public_key :: VerifyingKey

datatype MessageBody =
    ClientTransaction SignedTransaction
  | Synchronization VerifiedTransaction
  | BlockProposal BlockHash bytes Signature VerifyingKey
  | BlockReject BlockHash
  | BlockApproved BlockHash
  | RaftRequestVote (rv_term: u64) (candidate_id: PeerId) (rv_last_log_index: u64) (rv_last_log_term: u64)
  | RaftRequestVoteResponse (rvr_term: u64) (vote_granted: bool)
  | RaftAppendEntries (ae_term: u64) (ae_leader_id: PeerId) (ae_prev_log_index: u64) (ae_prev_log_term: u64)
      (ae_entries: "RaftReplicatedBlock list") (ae_leader_commit: u64)
  | RaftAppendEntriesResponse (aer_term: u64) (aer_success: bool) (aer_match_index: u64)

fun MessageBody_fmt :: "MessageBody \<Rightarrow> string" where
  "MessageBody_fmt (ClientTransaction _) = ''ClientTransaction''"
| "MessageBody_fmt (Synchronization _) = ''Synchronization''"
| "MessageBody_fmt (BlockProposal _ _ _ _) = ''BlockProposal''"
| "MessageBody_fmt (BlockReject _) = ''BlockReject''"
| "MessageBody_fmt (BlockApproved _) = ''BlockApproved''"
| "MessageBody_fmt (RaftRequestVote _ _ _ _) = ''RaftRequestVote''"
| "MessageBody_fmt (RaftRequestVoteResponse _ _) = ''RaftRequestVoteResponse''"
| "MessageBody_fmt (RaftAppendEntries _ _ _ _ _ _) = ''RaftAppendEntries''"
| "MessageBody_fmt (RaftAppendEntriesResponse _ _ _) = ''RaftAppendEntriesResponse''"

record Message =
  msg_from :: PeerId
  msg_to :: PeerId
  msg_body :: MessageBody

section \<open>Consensus effects and states\<close>

datatype ConsensusEffect =
    StageClientTransaction SignedTransaction
  | StageRaftEntries "RaftLogEntry list"
  | BroadcastClientTransaction SignedTransaction
  | ProposeBlock BlockHash
  | SendRaftAppendEntries (sae_to: PeerId) (sae_term: u64) (sae_prev_log_index: u64) (sae_prev_log_term: u64)
      (sae_entries: "RaftLogEntry list") (sae_leader_commit: u64)
  | CommitBlock BlockHash
  | RollbackBlock BlockHash
  | Broadcast MessageBody
  | Send PeerId MessageBody

datatype RaftRoleState = FollowerState | CandidateState | LeaderState

datatype ConsensusState =
    VotingState
  | RaftState (cs_role: RaftRoleState) (cs_term: u64) (cs_leader_id: "PeerId option")
      (cs_commit_index: u64) (cs_last_log_index: u64)

section \<open>Lemmas\<close>

lemma is_noop_noop [simp]: "is_noop (noop t i)"
  by (simp add: is_noop_def noop_def)

lemma noop_sel [simp]: "le_term (noop t i) = t" "le_index (noop t i) = i" "le_block_hash (noop t i) = EMPTY_HASH"
  by (simp_all add: noop_def)

section \<open>Properties\<close>

text \<open>
  A peer id that is printed (as in the REST paths and the peer list) parses back to itself,
  and distinct ids print differently; the conversion to a port number succeeds exactly for ids
  below 65536 and then loses nothing.
\<close>
theorem peer_id_roundtrip:
  "PeerId_from_str (PeerId_fmt p) = Ok p \<and>
   (PeerId_fmt p = PeerId_fmt q \<longleftrightarrow> p = q) \<and>
   (case PeerId_try_into p of Ok port \<Rightarrow> ucast port = peer_number p | Err e \<Rightarrow> 2 ^ 16 \<le> unat (peer_number p))"
proof -
  have rt: "PeerId_from_str (PeerId_fmt p) = Ok p" for p
    using unat_less_pow32 [of "peer_number p"] by (simp add: PeerId_from_str_def PeerId_fmt_def from_str_u32_show)
  then have "PeerId_fmt p = PeerId_fmt q \<longleftrightarrow> p = q" by (metis Inr_inject)
  moreover have "ucast (ucast w :: u16) = w" if "unat (w :: u32) < 2 ^ 16" for w
    using that by (simp add: unsigned_ucast_eq word_unat_eq_iff unsigned_take_bit_eq take_bit_nat_eq_self)
  ultimately show ?thesis using rt by (auto simp: PeerId_try_into_def)
qed

end
