(* ===== verification/Raft_Log_Store.thy ===== *)
theory Raft_Log_Store
  imports Messages
begin

text \<open>
  \<^verbatim>\<open>src/src/peer/consensus/raft_log_store.rs\<close>: the file store, the in-memory store and the
  sum of the two. The JSON encoding of the stored state is an external. The file's state is its
  contents (\<open>None\<close> when the path does not exist) with flags for the I/O errors the code handles.
\<close>

record raft_ext = block_ext +
  raft_log_to_string :: "RaftLogEntry list \<times> u64 \<Rightarrow> bytes"
  raft_log_from_slice :: "bytes \<Rightarrow> (RaftLogEntry list \<times> u64) option"

record RaftLogState =
  rls_log :: "RaftLogEntry list"
  rls_commit_index :: "u64 option"

record FileRaftLogStore =
  rl_contents :: "bytes option"
  rl_readable :: bool
  rl_parent_creatable :: bool
  rl_writable :: bool

datatype log_store_error =
    FailedToReadRaftLog
  | FailedToDeserializeRaftLog
  | FailedToCreateRaftLogDir
  | FailedToWriteRaftLog

definition File_load :: "('a) raft_ext_scheme \<Rightarrow> FileRaftLogStore \<Rightarrow> log_store_error + RaftLogState" where
  "File_load X s =
    (case rl_contents s of
       None \<Rightarrow> Ok \<lparr>rls_log = [], rls_commit_index = None\<rparr>
     | Some contents \<Rightarrow>
         if \<not> rl_readable s then Err FailedToReadRaftLog
         else (case raft_log_from_slice X contents of
                 None \<Rightarrow> Err FailedToDeserializeRaftLog
               | Some (l, ci) \<Rightarrow> Ok \<lparr>rls_log = l, rls_commit_index = Some ci\<rparr>))"

definition File_save ::
    "('a) raft_ext_scheme \<Rightarrow> RaftLogEntry list \<Rightarrow> u64 \<Rightarrow> (FileRaftLogStore, log_store_error, unit) step" where
  "File_save X l ci s =
    (if \<not> rl_parent_creatable s then (s, Err FailedToCreateRaftLogDir)
     else if \<not> rl_writable s then (s, Err FailedToWriteRaftLog)
     else (s\<lparr>rl_contents := Some (raft_log_to_string X (l, ci))\<rparr>, Ok ()))"

record InMemoryRaftLogStore =
  im_log :: "RaftLogEntry list"
  im_commit_index :: "u64 option"

definition InMemory_new :: InMemoryRaftLogStore where
  "InMemory_new = \<lparr>im_log = [], im_commit_index = None\<rparr>"

definition InMemory_load :: "InMemoryRaftLogStore \<Rightarrow> log_store_error + RaftLogState" where
  "InMemory_load s = Ok \<lparr>rls_log = im_log s, rls_commit_index = im_commit_index s\<rparr>"

definition InMemory_save ::
    "RaftLogEntry list \<Rightarrow> u64 \<Rightarrow> (InMemoryRaftLogStore, log_store_error, unit) step" where
  "InMemory_save l ci s = (s\<lparr>im_log := l, im_commit_index := Some ci\<rparr>, Ok ())"

datatype AnyRaftLogStore = File FileRaftLogStore | InMemory InMemoryRaftLogStore

fun Any_load :: "('a) raft_ext_scheme \<Rightarrow> AnyRaftLogStore \<Rightarrow> log_store_error + RaftLogState" where
  "Any_load X (File s) = File_load X s"
| "Any_load X (InMemory s) = InMemory_load s"

fun Any_save ::
    "('a) raft_ext_scheme \<Rightarrow> RaftLogEntry list \<Rightarrow> u64 \<Rightarrow> (AnyRaftLogStore, log_store_error, unit) step" where
  "Any_save X l ci (File s) = (case File_save X l ci s of (s', r) \<Rightarrow> (File s', r))"
| "Any_save X l ci (InMemory s) = (case InMemory_save l ci s of (s', r) \<Rightarrow> (InMemory s', r))"

section \<open>The store contract\<close>

text \<open>
  What the consensus relies on: a successful save makes \<open>load\<close> return what was saved, and a
  failed one leaves what \<open>load\<close> returns. \<open>storable\<close> is the JSON round trip at the saved value,
  \<open>available\<close> that the file can be read.
\<close>

locale log_store =
  fixes load :: "'s \<Rightarrow> log_store_error + RaftLogState"
    and save :: "RaftLogEntry list \<Rightarrow> u64 \<Rightarrow> 's \<Rightarrow> 's \<times> (log_store_error + unit)"
    and available :: "'s \<Rightarrow> bool"
    and storable :: "RaftLogEntry list \<Rightarrow> u64 \<Rightarrow> bool"
  assumes load_save_ok: "\<lbrakk>available s; storable l ci; save l ci s = (s', Ok ())\<rbrakk> \<Longrightarrow>
      load s' = Ok \<lparr>rls_log = l, rls_commit_index = Some ci\<rparr>"
    and load_save_err: "save l ci s = (s', Err e) \<Longrightarrow> load s' = load s"
    and available_save: "available s \<Longrightarrow> available (fst (save l ci s))"
begin

lemma load_after_save:
  assumes "available s" and "storable l ci"
  shows "load (fst (save l ci s)) =
    (case snd (save l ci s) of Ok _ \<Rightarrow> Ok \<lparr>rls_log = l, rls_commit_index = Some ci\<rparr> | Err _ \<Rightarrow> load s)"
  using assms load_save_ok [of s l ci] load_save_err [of l ci s]
  by (cases "save l ci s"; cases "snd (save l ci s)") auto

lemma load_save_save:
  assumes "available s" and "storable l ci" and "storable l' ci'"
    and "save l ci s = (s', Ok ())" and "save l' ci' s' = (s'', r)"
  shows "load s'' = Ok (case r of Ok _ \<Rightarrow> \<lparr>rls_log = l', rls_commit_index = Some ci'\<rparr>
    | Err _ \<Rightarrow> \<lparr>rls_log = l, rls_commit_index = Some ci\<rparr>)"
  using load_after_save [of s' l' ci'] load_save_ok [OF assms(1,2,4)] available_save [OF assms(1), of l ci] assms
  by (cases r) auto

end

definition raft_log_json :: "('a) raft_ext_scheme \<Rightarrow> RaftLogEntry list \<Rightarrow> u64 \<Rightarrow> bool" where
  "raft_log_json X l ci \<longleftrightarrow> raft_log_from_slice X (raft_log_to_string X (l, ci)) = Some (l, ci)"

fun store_available :: "AnyRaftLogStore \<Rightarrow> bool" where
  "store_available (File s) = rl_readable s"
| "store_available (InMemory s) = True"

lemma File_load_save:
  "rl_readable s \<Longrightarrow> raft_log_json X l ci \<Longrightarrow> File_save X l ci s = (s', Ok ()) \<Longrightarrow>
    File_load X s' = Ok \<lparr>rls_log = l, rls_commit_index = Some ci\<rparr>"
  by (auto simp: File_save_def File_load_def raft_log_json_def split: if_splits)

lemma File_save_err: "File_save X l ci s = (s', Err e) \<Longrightarrow> s' = s"
  by (auto simp: File_save_def split: if_splits)

interpretation als: log_store "Any_load X" "Any_save X" store_available "raft_log_json X"
  for X :: "('a) raft_ext_scheme"
proof unfold_locales
  fix s s' l ci e
  show "\<lbrakk>store_available s; raft_log_json X l ci; Any_save X l ci s = (s', Ok ())\<rbrakk> \<Longrightarrow>
      Any_load X s' = Ok \<lparr>rls_log = l, rls_commit_index = Some ci\<rparr>"
    by (cases s) (auto simp: File_load_save InMemory_save_def InMemory_load_def split: prod.splits)
  show "Any_save X l ci s = (s', Err e) \<Longrightarrow> Any_load X s' = Any_load X s"
    by (cases s) (auto simp: InMemory_save_def split: prod.splits dest: File_save_err)
  show "store_available s \<Longrightarrow> store_available (fst (Any_save X l ci s))"
    by (cases s) (auto simp: File_save_def InMemory_save_def)
qed

end
