(* ===== verification/Quorums.thy ===== *)
theory Quorums
  imports Main
begin

text \<open>
  The contract that the decisions of both consensus protocols rest on: any two quorums of one
  set of participants share a participant, so two values decided by quorums of voters that
  each vote for one value are the same value.
\<close>

locale quorum_system =
  fixes quorum :: "'p set \<Rightarrow> 'p set \<Rightarrow> bool"
  assumes quorum_sub: "quorum U Q \<Longrightarrow> Q \<subseteq> U"
    and quorum_inter: "quorum U P \<Longrightarrow> quorum U Q \<Longrightarrow> P \<inter> Q \<noteq> {}"
begin

lemma quorum_nonempty: "quorum U Q \<Longrightarrow> Q \<noteq> {}"
  using quorum_inter by blast

lemma decisions_agree:
  assumes "quorum U P" and "quorum U Q"
    and "\<And>p. p \<in> P \<Longrightarrow> vote p = v" and "\<And>p. p \<in> Q \<Longrightarrow> vote p = w"
  shows "v = w"
  using quorum_inter [OF assms(1,2)] assms(3,4) by blast

lemma quorum_meets_complement: "quorum U Q \<Longrightarrow> \<not> quorum U (U - Q)"
  using quorum_inter [of U Q "U - Q"] by blast

end

text \<open>More than half of the participants form a quorum, and so does any size that beats two halves.\<close>

definition sized_quorum :: "(nat \<Rightarrow> nat) \<Rightarrow> 'p set \<Rightarrow> 'p set \<Rightarrow> bool" where
  "sized_quorum size_of U Q \<longleftrightarrow> finite U \<and> Q \<subseteq> U \<and> size_of (card U) \<le> card Q"

lemma sized_quorum_inter:
  assumes "sized_quorum f U P" and "sized_quorum f U Q" and "card U < 2 * f (card U)"
  shows "P \<inter> Q \<noteq> {}"
proof
  assume "P \<inter> Q = {}"
  moreover have "finite P" "finite Q" using assms by (auto simp: sized_quorum_def finite_subset)
  ultimately have "card (P \<union> Q) = card P + card Q" by (simp add: card_Un_disjoint)
  moreover have "card (P \<union> Q) \<le> card U"
    using assms by (intro card_mono) (auto simp: sized_quorum_def)
  ultimately show False using assms by (simp add: sized_quorum_def)
qed

lemma disjoint_sized_sets:
  assumes "finite U" and "2 * q \<le> card U"
  shows "\<exists>P Q. P \<subseteq> U \<and> Q \<subseteq> U \<and> card P = q \<and> card Q = q \<and> P \<inter> Q = {}"
proof -
  obtain P where P: "P \<subseteq> U" "card P = q"
    using assms obtain_subset_with_card_n [of q U] by auto
  then have "card (U - P) = card U - q" using assms by (simp add: card_Diff_subset finite_subset)
  then have "q \<le> card (U - P)" using assms(2) by simp
  then obtain Q where "Q \<subseteq> U - P" "card Q = q" by (rule obtain_subset_with_card_n)
  with P show ?thesis by blast
qed

end
