(* ===== verification/Raft.thy ===== *)
theory Raft
  imports Raft_Log_Store Quorums
begin

text \<open>
  \<^verbatim>\<open>src/src/peer/consensus/raft.rs\<close> with \<^verbatim>\<open>raft/election.rs\<close> and
  \<^verbatim>\<open>raft/replication.rs\<close>: the state of a Raft peer, elections, log replication and the
  handlers that return consensus effects. Every handler takes the whole state and returns it
  with its result, also on an error, because the code changes \<open>self\<close> before it fails.
  A random election timeout is drawn by an argument.
\<close>

section \<open>Data\<close>

definition DEFAULT_HEARTBEAT_INTERVAL :: duration where
  "DEFAULT_HEARTBEAT_INTERVAL = 5000"

definition DEFAULT_ELECTION_TIMEOUT :: duration where
  "DEFAULT_ELECTION_TIMEOUT = 10000"

definition DEFAULT_ELECTION_TIMEOUT_JITTER :: duration where
  "DEFAULT_ELECTION_TIMEOUT_JITTER = 5000"

definition MAX_APPEND_ENTRIES :: nat where
  "MAX_APPEND_ENTRIES = 5"

datatype RaftRole = Follower | Candidate | Leader

datatype VoteResponse = VoteGranted | VoteRejected

record AppendEntriesRequest =
  rq_term :: u64
  rq_leader_id :: PeerId
  rq_prev_log_index :: u64
  rq_prev_log_term :: u64
  rq_entries :: "RaftReplicatedBlock list"
  rq_leader_commit :: u64
  rq_from :: PeerId
  rq_now :: instant

record RaftConsensus =
  r_peer_id :: PeerId
  r_participants :: "PeerId list"
  current_term :: u64
  voted_for :: "PeerId option"
  leader_id :: "PeerId option"
  role :: RaftRole
  votes_received :: "PeerId list"
  heartbeat_interval :: duration
  election_timeout_base :: duration
  election_timeout_jitter :: duration
  current_election_timeout :: duration
  last_heartbeat_received_at :: instant
  last_heartbeat_sent_at :: "instant option"
  log :: "RaftLogEntry list"
  raft_log_store :: AnyRaftLogStore
  commit_index :: u64
  match_indexes :: "PeerId \<rightharpoonup> u64"
  pending_blocks :: "BlockHash \<rightharpoonup> BlockFile"

datatype raft_error =
    RaftLogStoreError log_store_error
  | RaftLeaderUnknown
  | RaftUncommittedBlock
  | RaftNoopWithPayload u64
  | RaftNoopSignature signature_error
  | RaftBlockRejected BlockVerificationError

section \<open>Reading the log\<close>

definition last_log_index :: "RaftConsensus \<Rightarrow> u64" where
  "last_log_index r = (if log r = [] then 0 else le_index (last (log r)))"

definition last_log_term :: "RaftConsensus \<Rightarrow> u64" where
  "last_log_term r = (if log r = [] then 0 else le_term (last (log r)))"

definition log_entry :: "RaftConsensus \<Rightarrow> u64 \<Rightarrow> RaftLogEntry option" where
  "log_entry r ix = find (\<lambda>e. le_index e = ix) (log r)"

definition term_at :: "RaftConsensus \<Rightarrow> u64 \<Rightarrow> u64 option" where
  "term_at r ix = (if ix = 0 then Some 0 else map_option le_term (log_entry r ix))"

definition majority :: "RaftConsensus \<Rightarrow> nat" where
  "majority r = length (r_participants r) div 2 + 1"

section \<open>Elections\<close>

definition random_election_timeout :: "duration \<Rightarrow> duration \<Rightarrow> nat \<Rightarrow> duration" where
  "random_election_timeout base jitter draw =
    (if jitter = 0 then base
     else base + random_range_incl 0 (min jitter (2 ^ 64 - 1)) draw)"

definition update_participants :: "PeerId list \<Rightarrow> RaftConsensus \<Rightarrow> RaftConsensus" where
  "update_participants known_peers r =
    (let ps = List.insert (r_peer_id r) (hash_set_from known_peers)
     in r\<lparr>r_participants := ps,
          votes_received := filter (\<lambda>p. p \<in> set ps) (votes_received r),
          match_indexes := (\<lambda>p. if p \<in> set ps then match_indexes r p else None)\<rparr>)"

definition step_down :: "u64 \<Rightarrow> RaftConsensus \<Rightarrow> RaftConsensus" where
  "step_down t r = r\<lparr>current_term := t, role := Follower, voted_for := None, leader_id := None,
    votes_received := []\<rparr>"

definition step_down_on_newer_term :: "u64 \<Rightarrow> RaftConsensus \<Rightarrow> RaftConsensus" where
  "step_down_on_newer_term t r = (if current_term r < t then step_down t r else r)"

text \<open>The loop of \<open>become_leader_if_majority\<close> over the participants.\<close>

fun reset_match_indexes :: "PeerId \<Rightarrow> u64 \<Rightarrow> PeerId list \<Rightarrow> (PeerId \<rightharpoonup> u64) \<Rightarrow> (PeerId \<rightharpoonup> u64)" where
  "reset_match_indexes me last_ix [] m = m"
| "reset_match_indexes me last_ix (p # ps) m =
    reset_match_indexes me last_ix ps (m(p \<mapsto> (if p = me then last_ix else 0)))"

definition become_leader_if_majority :: "RaftConsensus \<Rightarrow> RaftConsensus \<times> bool" where
  "become_leader_if_majority r =
    (if majority r \<le> length (votes_received r)
     then (r\<lparr>role := Leader, leader_id := Some (r_peer_id r), last_heartbeat_sent_at := None,
             match_indexes := reset_match_indexes (r_peer_id r) (last_log_index r) (r_participants r) Map.empty\<rparr>,
           True)
     else (r, False))"

definition start_election_at :: "instant \<Rightarrow> RaftConsensus \<Rightarrow> RaftConsensus \<times> bool" where
  "start_election_at now r =
    become_leader_if_majority
      (r\<lparr>current_term := current_term r + 1, role := Candidate, voted_for := Some (r_peer_id r),
         leader_id := None, votes_received := [r_peer_id r], last_heartbeat_received_at := now,
         last_heartbeat_sent_at := None\<rparr>)"

definition candidate_log_is_up_to_date :: "RaftConsensus \<Rightarrow> u64 \<Rightarrow> u64 \<Rightarrow> bool" where
  "candidate_log_is_up_to_date r last_ix last_t \<longleftrightarrow>
    last_log_term r < last_t \<or> last_t = last_log_term r \<and> last_log_index r \<le> last_ix"

definition request_vote :: "u64 \<Rightarrow> PeerId \<Rightarrow> u64 \<Rightarrow> u64 \<Rightarrow> RaftConsensus \<Rightarrow> RaftConsensus \<times> VoteResponse" where
  "request_vote t candidate last_ix last_t r =
    (if t < current_term r then (r, VoteRejected)
     else
       let r1 = (if current_term r < t then step_down t r else r)
       in (if \<not> candidate_log_is_up_to_date r1 last_ix last_t then (r1, VoteRejected)
           else (case voted_for r1 of
                   Some v \<Rightarrow> if v \<noteq> candidate then (r1, VoteRejected)
                             else (r1\<lparr>voted_for := Some candidate\<rparr>, VoteGranted)
                 | None \<Rightarrow> (r1\<lparr>voted_for := Some candidate\<rparr>, VoteGranted))))"

definition receive_vote :: "u64 \<Rightarrow> PeerId \<Rightarrow> bool \<Rightarrow> RaftConsensus \<Rightarrow> RaftConsensus \<times> bool" where
  "receive_vote t voter granted r =
    (if current_term r < t then (step_down t r, False)
     else if role r \<noteq> Candidate \<or> t \<noteq> current_term r \<or> \<not> granted then (r, False)
     else if voter \<in> set (r_participants r)
     then become_leader_if_majority (r\<lparr>votes_received := List.insert voter (votes_received r)\<rparr>)
     else (r, False))"

definition leader_timed_out :: "RaftConsensus \<Rightarrow> instant \<Rightarrow> bool" where
  "leader_timed_out r now \<longleftrightarrow> current_election_timeout r \<le> now - last_heartbeat_received_at r"

definition receive_append_entries_at ::
    "nat \<Rightarrow> u64 \<Rightarrow> PeerId \<Rightarrow> PeerId \<Rightarrow> instant \<Rightarrow> RaftConsensus \<Rightarrow> RaftConsensus \<times> bool" where
  "receive_append_entries_at draw t leader from now r =
    (if from \<noteq> leader \<or> leader \<notin> set (r_participants r) then (r, False)
     else if t < current_term r then (r, False)
     else
       let r1 = (if current_term r < t then step_down t r else r)
       in (if (case leader_id r1 of Some l \<Rightarrow> l \<noteq> leader | None \<Rightarrow> False) \<and> \<not> leader_timed_out r1 now
           then (r1, False)
           else
             let leader_changed = (leader_id r1 \<noteq> Some leader);
                 r2 = r1\<lparr>role := Follower, leader_id := Some leader, votes_received := [],
                         last_heartbeat_received_at := now\<rparr>
             in (if leader_changed
                 then r2\<lparr>current_election_timeout :=
                        random_election_timeout (election_timeout_base r2) (election_timeout_jitter r2) draw\<rparr>
                 else r2, True)))"

section \<open>Replication\<close>

definition append_entries_response :: "RaftConsensus \<Rightarrow> PeerId \<Rightarrow> bool \<Rightarrow> u64 \<Rightarrow> ConsensusEffect" where
  "append_entries_response r to success mi = Send to (RaftAppendEntriesResponse (current_term r) success mi)"

fun contiguous_from :: "u64 \<Rightarrow> RaftLogEntry list \<Rightarrow> bool" where
  "contiguous_from ix [] = True"
| "contiguous_from ix (e # es) = (le_index e = ix \<and> contiguous_from (ix + 1) es)"

definition entries_are_contiguous_after :: "u64 \<Rightarrow> RaftLogEntry list \<Rightarrow> bool" where
  "entries_are_contiguous_after prev es = contiguous_from (prev + 1) es"

text \<open>
  The loop of \<open>append_entries\<close>: the log, and the hashes discarded by truncation, or \<open>None\<close> when
  it returns early because a conflict reaches into the committed part.
\<close>

fun append_loop ::
    "u64 \<Rightarrow> RaftLogEntry list \<Rightarrow> RaftConsensus \<Rightarrow> BlockHash list \<Rightarrow> RaftConsensus \<times> BlockHash list option" where
  "append_loop ci [] r discarded = (r, Some discarded)"
| "append_loop ci (e # es) r discarded =
    (case log_entry r (le_index e) of
       Some existing \<Rightarrow>
         if le_term existing \<noteq> le_term e
         then (if le_index e \<le> ci then (r, None)
               else
                 let truncate_at = unat (le_index e - 1)
                 in append_loop ci es (r\<lparr>log := take truncate_at (log r) @ [e]\<rparr>)
                      (discarded @ map le_block_hash (filter (\<lambda>d. \<not> is_noop d) (drop truncate_at (log r)))))
         else append_loop ci es r discarded
     | None \<Rightarrow>
         if le_index e = last_log_index r + 1
         then append_loop ci es (r\<lparr>log := log r @ [e]\<rparr>) discarded
         else append_loop ci es r discarded)"

definition commit_effects :: "u64 \<Rightarrow> RaftConsensus \<Rightarrow> ConsensusEffect list" where
  "commit_effects prev_commit r =
    map (\<lambda>e. CommitBlock (le_block_hash e))
      (filter (\<lambda>e. \<not> is_noop e) (filter (\<lambda>e. prev_commit < le_index e \<and> le_index e \<le> commit_index r) (log r)))"

definition append_entries ::
    "u64 \<Rightarrow> u64 \<Rightarrow> RaftLogEntry list \<Rightarrow> u64 \<Rightarrow> RaftConsensus \<Rightarrow> RaftConsensus \<times> ConsensusEffect list option" where
  "append_entries prev_ix prev_t entries leader_commit r =
    (if term_at r prev_ix \<noteq> Some prev_t then (r, None)
     else if \<not> entries_are_contiguous_after prev_ix entries then (r, None)
     else
       let previous_commit_index = commit_index r;
           entries_to_stage = filter (\<lambda>e. previous_commit_index < le_index e \<and> \<not> is_noop e) entries
       in (case append_loop (commit_index r) entries r [] of
             (r1, None) \<Rightarrow> (r1, None)
           | (r1, Some discarded) \<Rightarrow>
               let r2 = r1\<lparr>commit_index := max (commit_index r1) (min leader_commit (last_log_index r1))\<rparr>
               in (r2, Some (map RollbackBlock discarded @
                     (if entries_to_stage \<noteq> [] then [StageRaftEntries entries_to_stage] else []) @
                     commit_effects previous_commit_index r2))))"

definition matching_index_for :: "RaftConsensus \<Rightarrow> u64 \<Rightarrow> u64 \<Rightarrow> RaftLogEntry list \<Rightarrow> u64" where
  "matching_index_for r prev_ix prev_t entries =
    (let previous_match = (if term_at r prev_ix = Some prev_t then prev_ix else 0);
         matched = map le_index (filter (\<lambda>e. term_at r (le_index e) = Some (le_term e)) entries)
     in if matched = [] then previous_match else Max (set matched))"

definition persist_log :: "('a) raft_ext_scheme \<Rightarrow> (RaftConsensus, raft_error, unit) step" where
  "persist_log X r =
    (case Any_save X (log r) (commit_index r) (raft_log_store r) of
       (s, res) \<Rightarrow> (r\<lparr>raft_log_store := s\<rparr>, map_err RaftLogStoreError res))"

fun validate_replicated_entries ::
    "('a) raft_ext_scheme \<Rightarrow> RaftReplicatedBlock list \<Rightarrow> (BlockHash \<rightharpoonup> BlockFile) \<Rightarrow> RaftLogEntry list \<Rightarrow>
     raft_error + (RaftLogEntry list \<times> (BlockHash \<rightharpoonup> BlockFile))" where
  "validate_replicated_entries X [] blocks log_entries = Ok (log_entries, blocks)"
| "validate_replicated_entries X (rb # rbs) blocks log_entries =
    (if is_noop (rb_entry rb)
     then (if rb_block_file rb \<noteq> [] then Err (RaftNoopWithPayload (le_index (rb_entry rb)))
           else (case verify_message X (rb_public_key rb) (rb_signature rb) (rb_block_file rb) of
                   Err e \<Rightarrow> Err (RaftNoopSignature e)
                 | Ok _ \<Rightarrow> validate_replicated_entries X rbs blocks (log_entries @ [rb_entry rb])))
     else (case verify_block_vec X (le_block_hash (rb_entry rb)) (rb_block_file rb) (rb_signature rb)
                  (rb_public_key rb) of
             Err e \<Rightarrow> Err (RaftBlockRejected e)
           | Ok block_file \<Rightarrow>
               validate_replicated_entries X rbs (blocks(le_block_hash (rb_entry rb) \<mapsto> block_file))
                 (log_entries @ [rb_entry rb])))"

text \<open>The loop that moves the blocks of staged entries to the pending blocks.\<close>

fun move_staged_entries ::
    "RaftLogEntry list \<Rightarrow> (BlockHash \<rightharpoonup> BlockFile) \<Rightarrow> RaftConsensus \<Rightarrow> (BlockHash \<rightharpoonup> BlockFile) \<times> RaftConsensus" where
  "move_staged_entries [] blocks r = (blocks, r)"
| "move_staged_entries (e # es) blocks r =
    (if \<not> is_noop e
     then (case blocks (le_block_hash e) of
             Some b \<Rightarrow> move_staged_entries es (blocks(le_block_hash e := None))
                         (r\<lparr>pending_blocks := (pending_blocks r)(le_block_hash e \<mapsto> b)\<rparr>)
           | None \<Rightarrow> move_staged_entries es blocks r)
     else move_staged_entries es blocks r)"

fun move_staged_blocks ::
    "ConsensusEffect list \<Rightarrow> (BlockHash \<rightharpoonup> BlockFile) \<Rightarrow> RaftConsensus \<Rightarrow> RaftConsensus" where
  "move_staged_blocks [] blocks r = r"
| "move_staged_blocks (StageRaftEntries es # effs) blocks r =
    (let (blocks', r') = move_staged_entries es blocks r in move_staged_blocks effs blocks' r')"
| "move_staged_blocks (_ # effs) blocks r = move_staged_blocks effs blocks r"

definition handle_append_entries ::
    "('a) raft_ext_scheme \<Rightarrow> nat \<Rightarrow> AppendEntriesRequest \<Rightarrow> (RaftConsensus, raft_error, ConsensusEffect list) step" where
  "handle_append_entries X draw rq r =
    (case receive_append_entries_at draw (rq_term rq) (rq_leader_id rq) (rq_from rq) (rq_now rq) r of
       (r1, False) \<Rightarrow>
         (r1, Ok [append_entries_response r1 (rq_from rq) False
            (matching_index_for r1 (rq_prev_log_index rq) (rq_prev_log_term rq) [])])
     | (r1, True) \<Rightarrow>
         (case validate_replicated_entries X (rq_entries rq) Map.empty [] of
            Err e \<Rightarrow>
              (r1, Ok [append_entries_response r1 (rq_from rq) False
                 (matching_index_for r1 (rq_prev_log_index rq) (rq_prev_log_term rq) [])])
          | Ok (log_entries, blocks) \<Rightarrow>
              let match_index = matching_index_for r1 (rq_prev_log_index rq) (rq_prev_log_term rq) log_entries;
                  accepted_match_index =
                    (if log_entries = [] then rq_prev_log_index rq else le_index (last log_entries));
                  log_changed = (rq_prev_log_index rq < accepted_match_index);
                  previous_commit_index = commit_index r1
              in (case append_entries (rq_prev_log_index rq) (rq_prev_log_term rq) log_entries
                         (rq_leader_commit rq) r1 of
                    (r2, None) \<Rightarrow> (r2, Ok [append_entries_response r2 (rq_from rq) False match_index])
                  | (r2, Some effects) \<Rightarrow>
                      let r3 = move_staged_blocks effects blocks r2;
                          effects' = effects @ [append_entries_response r3 (rq_from rq) True accepted_match_index]
                      in (if log_changed \<or> commit_index r3 \<noteq> previous_commit_index
                          then (case persist_log X r3 of
                                  (r4, Err e) \<Rightarrow> (r4, Err e)
                                | (r4, Ok _) \<Rightarrow> (r4, Ok effects'))
                          else (r3, Ok effects')))))"

definition heartbeat_due :: "RaftConsensus \<Rightarrow> instant \<Rightarrow> bool" where
  "heartbeat_due r now \<longleftrightarrow>
    (case last_heartbeat_sent_at r of None \<Rightarrow> True | Some t \<Rightarrow> heartbeat_interval r \<le> now - t)"

definition ensure_no_uncommitted_block :: "RaftConsensus \<Rightarrow> raft_error + unit" where
  "ensure_no_uncommitted_block r =
    (if \<exists>e \<in> set (log r). commit_index r < le_index e \<and> \<not> is_noop e then Err RaftUncommittedBlock else Ok ())"

definition replicated_count :: "RaftConsensus \<Rightarrow> u64 \<Rightarrow> nat" where
  "replicated_count r ix =
    length (filter (\<lambda>p. case match_indexes r p of Some mi \<Rightarrow> ix \<le> mi | None \<Rightarrow> False) (r_participants r))"

text \<open>The loop of \<open>advance_commit_index\<close> over the reversed log, with its \<open>break\<close>.\<close>

fun find_commit :: "RaftConsensus \<Rightarrow> RaftLogEntry list \<Rightarrow> u64" where
  "find_commit r [] = commit_index r"
| "find_commit r (e # es) =
    (if le_index e \<le> commit_index r \<or> le_term e \<noteq> current_term r then find_commit r es
     else if majority r \<le> replicated_count r (le_index e) then le_index e
     else find_commit r es)"

definition advance_commit_index :: "RaftConsensus \<Rightarrow> RaftConsensus \<times> ConsensusEffect list" where
  "advance_commit_index r =
    (let previous_commit_index = commit_index r;
         r1 = r\<lparr>commit_index := find_commit r (rev (log r))\<rparr>
     in (r1, commit_effects previous_commit_index r1))"

definition append_entries_effect_for :: "RaftConsensus \<Rightarrow> PeerId \<Rightarrow> ConsensusEffect option" where
  "append_entries_effect_for r p =
    (let peer_match_index = (case match_indexes r p of Some mi \<Rightarrow> mi | None \<Rightarrow> 0);
         prev_ix = min peer_match_index (last_log_index r)
     in (case term_at r prev_ix of
           None \<Rightarrow> None
         | Some prev_t \<Rightarrow>
             Some (SendRaftAppendEntries p (current_term r) prev_ix prev_t
               (take MAX_APPEND_ENTRIES (filter (\<lambda>e. prev_ix < le_index e) (log r))) (commit_index r))))"

definition append_entries_effects_for_followers :: "RaftConsensus \<Rightarrow> ConsensusEffect list" where
  "append_entries_effects_for_followers r =
    List.map_filter (append_entries_effect_for r) (filter (\<lambda>p. p \<noteq> r_peer_id r) (r_participants r))"

text \<open>\<open>append_local_block\<close> and \<open>append_leader_noop\<close> end in the same five statements.\<close>

definition append_own_entry ::
    "('a) raft_ext_scheme \<Rightarrow> RaftLogEntry \<Rightarrow> (RaftConsensus, raft_error, ConsensusEffect list) step" where
  "append_own_entry X entry r =
    (let r1 = r\<lparr>log := log r @ [entry], match_indexes := (match_indexes r)(r_peer_id r \<mapsto> le_index entry)\<rparr>;
         effects = append_entries_effects_for_followers r1;
         (r2, committed) = advance_commit_index r1
     in (case persist_log X r2 of
           (r3, Err e) \<Rightarrow> (r3, Err e)
         | (r3, Ok _) \<Rightarrow> (r3, Ok (effects @ committed))))"

definition append_local_block ::
    "('a) raft_ext_scheme \<Rightarrow> BlockHash \<Rightarrow> (RaftConsensus, raft_error, ConsensusEffect list) step" where
  "append_local_block X block_hash r =
    (case ensure_no_uncommitted_block r of
       Err e \<Rightarrow> (r, Err e)
     | Ok _ \<Rightarrow> append_own_entry X
         \<lparr>le_term = current_term r, le_index = last_log_index r + 1, le_block_hash = block_hash\<rparr> r)"

definition append_leader_noop ::
    "('a) raft_ext_scheme \<Rightarrow> (RaftConsensus, raft_error, ConsensusEffect list) step" where
  "append_leader_noop X r = append_own_entry X (noop (current_term r) (last_log_index r + 1)) r"

definition handle_leader_append_entries_response ::
    "('a) raft_ext_scheme \<Rightarrow> u64 \<Rightarrow> PeerId \<Rightarrow> bool \<Rightarrow> u64 \<Rightarrow>
     (RaftConsensus, raft_error, ConsensusEffect list) step" where
  "handle_leader_append_entries_response X t from success mi r =
    (if current_term r < t then (step_down t r, Ok [])
     else if t \<noteq> current_term r \<or> from \<notin> set (r_participants r) then (r, Ok [])
     else if success
     then let current_match = (case match_indexes r from of Some m \<Rightarrow> m | None \<Rightarrow> 0);
              r1 = r\<lparr>match_indexes := (match_indexes r)(from \<mapsto> max current_match mi)\<rparr>;
              (r2, effects) = advance_commit_index r1
          in (if commit_index r2 \<noteq> commit_index r1
              then (case persist_log X r2 of
                      (r3, Err e) \<Rightarrow> (r3, Err e)
                    | (r3, Ok _) \<Rightarrow> (r3, Ok effects))
              else (r2, Ok effects))
     else let mi' = min mi (last_log_index r);
              r1 = r\<lparr>match_indexes := (match_indexes r)(from \<mapsto> mi')\<rparr>
          in (if last_log_index r1 \<le> mi' then (r1, Ok [])
              else (r1, Ok (case append_entries_effect_for r1 from of Some e \<Rightarrow> [e] | None \<Rightarrow> []))))"

section \<open>RaftConsensus\<close>

definition new_with_log ::
    "nat \<Rightarrow> instant \<Rightarrow> PeerId \<Rightarrow> RaftLogEntry list \<Rightarrow> u64 \<Rightarrow> AnyRaftLogStore \<Rightarrow> RaftConsensus" where
  "new_with_log draw now peer l ci store =
    \<lparr>r_peer_id = peer, r_participants = [peer], current_term = 0, voted_for = None, leader_id = None,
     role = Follower, votes_received = [], heartbeat_interval = DEFAULT_HEARTBEAT_INTERVAL,
     election_timeout_base = DEFAULT_ELECTION_TIMEOUT, election_timeout_jitter = DEFAULT_ELECTION_TIMEOUT_JITTER,
     current_election_timeout = random_election_timeout DEFAULT_ELECTION_TIMEOUT DEFAULT_ELECTION_TIMEOUT_JITTER draw,
     last_heartbeat_received_at = now, last_heartbeat_sent_at = None, log = l, raft_log_store = store,
     commit_index = min ci (if l = [] then 0 else le_index (last l)),
     match_indexes = Map.empty, pending_blocks = Map.empty\<rparr>"

definition new_with_storage ::
    "('a) raft_ext_scheme \<Rightarrow> nat \<Rightarrow> instant \<Rightarrow> PeerId \<Rightarrow> AnyRaftLogStore \<Rightarrow> u64 \<Rightarrow> raft_error + RaftConsensus" where
  "new_with_storage X draw now peer store ci =
    (case Any_load X store of
       Err e \<Rightarrow> Err (RaftLogStoreError e)
     | Ok persisted \<Rightarrow>
         Ok (new_with_log draw now peer (rls_log persisted)
           (case rls_commit_index persisted of Some c \<Rightarrow> c | None \<Rightarrow> ci) store))"

definition RaftConsensus_new ::
    "('a) raft_ext_scheme \<Rightarrow> nat \<Rightarrow> instant \<Rightarrow> PeerId \<Rightarrow> raft_error + RaftConsensus" where
  "RaftConsensus_new X draw now peer = new_with_storage X draw now peer (InMemory InMemory_new) 0"

definition raft_state :: "RaftConsensus \<Rightarrow> ConsensusState" where
  "raft_state r = RaftState
    (case role r of Follower \<Rightarrow> FollowerState | Candidate \<Rightarrow> CandidateState | Leader \<Rightarrow> LeaderState)
    (current_term r) (leader_id r) (commit_index r) (last_log_index r)"

definition forward_client_transaction ::
    "RaftConsensus \<Rightarrow> SignedTransaction \<Rightarrow> raft_error + ConsensusEffect list" where
  "forward_client_transaction r tx =
    (case leader_id r of None \<Rightarrow> Err RaftLeaderUnknown | Some l \<Rightarrow> Ok [Send l (ClientTransaction tx)])"

definition raft_on_client_transaction ::
    "SignedTransaction \<Rightarrow> (RaftConsensus, raft_error, ConsensusEffect list) step" where
  "raft_on_client_transaction tx r =
    (case role r of
       Leader \<Rightarrow> (case ensure_no_uncommitted_block r of
                    Err e \<Rightarrow> (r, Err e)
                  | Ok _ \<Rightarrow> (r, Ok [StageClientTransaction tx]))
     | _ \<Rightarrow> (r, forward_client_transaction r tx))"

definition raft_on_block_created ::
    "('a) raft_ext_scheme \<Rightarrow> BlockHash \<Rightarrow> (RaftConsensus, raft_error, ConsensusEffect list) step" where
  "raft_on_block_created X block_hash r =
    (case role r of Leader \<Rightarrow> append_local_block X block_hash r | _ \<Rightarrow> (r, Ok []))"

definition raft_on_tick ::
    "('a) raft_ext_scheme \<Rightarrow> instant \<Rightarrow> PeerId list \<Rightarrow> (RaftConsensus, raft_error, ConsensusEffect list) step" where
  "raft_on_tick X now known_peers r0 =
    (let r = update_participants known_peers r0
     in (if role r = Leader
         then (if heartbeat_due r now
               then let r1 = r\<lparr>last_heartbeat_sent_at := Some now\<rparr>
                    in (r1, Ok (append_entries_effects_for_followers r1))
               else (r, Ok []))
         else if current_election_timeout r \<le> now - last_heartbeat_received_at r
         then (case start_election_at now r of
                 (r1, became_leader) \<Rightarrow>
                   let effects = [Broadcast (RaftRequestVote (current_term r1) (r_peer_id r1)
                                    (last_log_index r1) (last_log_term r1))]
                   in (if became_leader
                       then (case append_leader_noop X r1 of
                               (r2, Err e) \<Rightarrow> (r2, Err e)
                             | (r2, Ok noop_effects) \<Rightarrow> (r2, Ok (effects @ noop_effects)))
                       else (r1, Ok effects)))
         else (r, Ok [])))"

definition raft_on_request_vote ::
    "u64 \<Rightarrow> PeerId \<Rightarrow> u64 \<Rightarrow> u64 \<Rightarrow> PeerId \<Rightarrow> (RaftConsensus, raft_error, ConsensusEffect list) step" where
  "raft_on_request_vote t candidate last_ix last_t from r =
    (case request_vote t candidate last_ix last_t r of
       (r1, response) \<Rightarrow>
         (r1, Ok [Send from (RaftRequestVoteResponse (current_term r1) (response = VoteGranted))]))"

definition raft_on_request_vote_response ::
    "('a) raft_ext_scheme \<Rightarrow> u64 \<Rightarrow> PeerId \<Rightarrow> bool \<Rightarrow> (RaftConsensus, raft_error, ConsensusEffect list) step" where
  "raft_on_request_vote_response X t voter granted r =
    (if role r = Candidate
     then (case receive_vote t voter granted r of
             (r1, True) \<Rightarrow> append_leader_noop X r1
           | (r1, False) \<Rightarrow> (r1, Ok []))
     else (step_down_on_newer_term t r, Ok []))"

definition raft_on_append_entries ::
    "('a) raft_ext_scheme \<Rightarrow> nat \<Rightarrow> u64 \<Rightarrow> PeerId \<Rightarrow> u64 \<Rightarrow> u64 \<Rightarrow> RaftReplicatedBlock list \<Rightarrow> u64 \<Rightarrow> PeerId \<Rightarrow>
     instant \<Rightarrow> (RaftConsensus, raft_error, ConsensusEffect list) step" where
  "raft_on_append_entries X draw t leader prev_ix prev_t entries leader_commit from now r =
    handle_append_entries X draw
      \<lparr>rq_term = t, rq_leader_id = leader, rq_prev_log_index = prev_ix, rq_prev_log_term = prev_t,
       rq_entries = entries, rq_leader_commit = leader_commit, rq_from = from, rq_now = now\<rparr> r"

definition raft_on_append_entries_response ::
    "('a) raft_ext_scheme \<Rightarrow> u64 \<Rightarrow> PeerId \<Rightarrow> bool \<Rightarrow> u64 \<Rightarrow>
     (RaftConsensus, raft_error, ConsensusEffect list) step" where
  "raft_on_append_entries_response X t from success mi r =
    (if role r = Leader then handle_leader_append_entries_response X t from success mi r
     else (step_down_on_newer_term t r, Ok []))"

definition take_pending_block :: "BlockHash \<Rightarrow> RaftConsensus \<Rightarrow> RaftConsensus \<times> BlockFile option" where
  "take_pending_block block_hash r =
    (r\<lparr>pending_blocks := (pending_blocks r)(block_hash := None)\<rparr>, pending_blocks r block_hash)"

end
