(* ===== verification/Raft_Log.thy ===== *)
theory Raft_Log
  imports Raft
begin

text \<open>
  The replicated log of one Raft peer: entry \<open>i\<close> of the log carries index \<open>i + 1\<close>, what
  \<open>append_entries\<close> does to it, and the segments the leader sends.
\<close>

section \<open>Vocabulary\<close>

definition log_ok :: "RaftLogEntry list \<Rightarrow> bool" where
  "log_ok es \<longleftrightarrow> (\<forall>i < length es. unat (le_index (es ! i)) = Suc i)"

text \<open>How many leading entries of two lists agree on their terms.\<close>

fun agree_len :: "RaftLogEntry list \<Rightarrow> RaftLogEntry list \<Rightarrow> nat" where
  "agree_len (a # as) (b # bs) = (if le_term a = le_term b then Suc (agree_len as bs) else 0)"
| "agree_len _ _ = 0"

text \<open>The log that results from receiving \<open>es\<close> after the first \<open>p\<close> entries.\<close>

definition merge_log :: "nat \<Rightarrow> RaftLogEntry list \<Rightarrow> RaftLogEntry list \<Rightarrow> RaftLogEntry list" where
  "merge_log p es l = (let k = agree_len (drop p l) es
    in if k = length es then l else take (p + k) l @ drop k es)"

definition block_hashes :: "RaftLogEntry list \<Rightarrow> BlockHash list" where
  "block_hashes es = map le_block_hash (filter (\<lambda>e. \<not> is_noop e) es)"

definition same_terms :: "RaftLogEntry list \<Rightarrow> RaftLogEntry list \<Rightarrow> bool" where
  "same_terms xs ys \<longleftrightarrow> map le_term xs = map le_term ys"

section \<open>Well-formed logs\<close>

lemma log_ok_Nil [simp]: "log_ok []"
  by (simp add: log_ok_def)

lemma log_ok_nth: "log_ok es \<Longrightarrow> i < length es \<Longrightarrow> le_index (es ! i) = word_of_nat (Suc i)"
  unfolding log_ok_def by (intro word_of_unat) simp

lemma log_ok_snoc: "log_ok (es @ [e]) \<longleftrightarrow> log_ok es \<and> unat (le_index e) = Suc (length es)"
  by (auto simp: log_ok_def nth_append less_Suc_eq)

text \<open>The same by recursion, to evaluate on concrete logs.\<close>

fun indexes_from :: "nat \<Rightarrow> RaftLogEntry list \<Rightarrow> bool" where
  "indexes_from n [] = True"
| "indexes_from n (e # es) = (unat (le_index e) = Suc n \<and> indexes_from (Suc n) es)"

lemma indexes_from_nth: "indexes_from n es \<longleftrightarrow> (\<forall>i < length es. unat (le_index (es ! i)) = Suc (n + i))"
  by (induction es arbitrary: n) (auto simp: nth_Cons' less_Suc_eq_0_disj)

lemma log_ok_code: "log_ok es \<longleftrightarrow> indexes_from 0 es"
  by (simp add: log_ok_def indexes_from_nth)

lemma log_ok_length: "log_ok es \<Longrightarrow> length es < 2 ^ 64"
  using unat_less_pow64 [of "le_index (last es)"] by (cases es rule: rev_cases) (auto simp: log_ok_snoc)

lemma log_ok_take: "log_ok es \<Longrightarrow> log_ok (take n es)"
  by (simp add: log_ok_def)

lemma unat_last_log_index: "log_ok (log r) \<Longrightarrow> unat (last_log_index r) = length (log r)"
  by (cases "log r" rule: rev_cases) (auto simp: last_log_index_def log_ok_snoc)

lemma find_index:
  assumes "\<And>i. i < length es \<Longrightarrow> unat (le_index (es ! i)) = Suc (n + i)"
  shows "find (\<lambda>e. le_index e = ix) es =
    (if n < unat ix \<and> unat ix \<le> n + length es then Some (es ! (unat ix - Suc n)) else None)"
  using assms
proof (induction es arbitrary: n)
  case (Cons e es)
  have e: "unat (le_index e) = Suc n" using Cons.prems [of 0] by simp
  have "find (\<lambda>e. le_index e = ix) es =
      (if Suc n < unat ix \<and> unat ix \<le> Suc n + length es then Some (es ! (unat ix - Suc (Suc n))) else None)"
    using Cons.prems [of "Suc _"] by (intro Cons.IH) fastforce
  moreover have "le_index e = ix \<longleftrightarrow> unat ix = Suc n" using e by (metis word_unat_eq_iff)
  ultimately show ?case using e
    by (auto simp: nth_Cons split: nat.split intro!: arg_cong [where f = "(!) es"])
qed simp

lemma log_entry_nth:
  "log_ok (log r) \<Longrightarrow> log_entry r ix =
    (if 0 < unat ix \<and> unat ix \<le> length (log r) then Some (log r ! (unat ix - 1)) else None)"
  unfolding log_entry_def by (subst find_index [where n = 0]) (simp_all add: log_ok_def)

lemma term_at_nth:
  "log_ok (log r) \<Longrightarrow> term_at r ix =
    (if ix = 0 then Some 0 else if unat ix \<le> length (log r) then Some (le_term (log r ! (unat ix - 1))) else None)"
  by (auto simp: term_at_def log_entry_nth unat_gt_0)

lemma term_at_Some_length: "log_ok (log r) \<Longrightarrow> term_at r ix = Some t \<Longrightarrow> unat ix \<le> length (log r)"
  by (auto simp: term_at_nth split: if_splits)

lemma contiguous_nth:
  "contiguous_from ix es \<Longrightarrow> i < length es \<Longrightarrow> le_index (es ! i) = ix + word_of_nat i"
  by (induction es arbitrary: ix i) (auto simp: nth_Cons split: nat.split)

lemma unat_of_nat_u64: "n < 2 ^ 64 \<Longrightarrow> unat (word_of_nat n :: u64) = n"
  by (simp add: unat_of_nat take_bit_nat_eq_self)

lemma unat_Suc_minus: "Suc n < 2 ^ 64 \<Longrightarrow> unat ((1 + word_of_nat n :: u64) - 1) = n"
  by (simp add: unat_of_nat_u64)

lemma contiguous_unat:
  "contiguous_from (word_of_nat (Suc p)) es \<Longrightarrow> p + length es < 2 ^ 64 \<Longrightarrow> i < length es \<Longrightarrow>
    unat (le_index (es ! i)) = Suc (p + i)"
  using contiguous_nth [of "word_of_nat (Suc p)" es i] unat_of_nat_u64 [of "Suc p + i"]
  by (simp add: algebra_simps)

lemma log_ok_append_contiguous:
  assumes "log_ok l" and "contiguous_from (word_of_nat (Suc (length l))) es" and "length l + length es < 2 ^ 64"
  shows "log_ok (l @ es)"
  using assms contiguous_unat [OF assms(2,3)] by (auto simp: log_ok_def nth_append)

lemma contiguous_drop:
  "contiguous_from ix es \<Longrightarrow> contiguous_from (ix + word_of_nat k) (drop k es)"
proof (induction es arbitrary: ix k)
  case (Cons e es)
  then show ?case using Cons.IH [of "ix + 1" "k - 1"] by (cases k) (auto simp: algebra_simps)
qed simp

section \<open>The loop of append entries\<close>

lemma append_loop_new:
  assumes "log_ok (log r)" and "contiguous_from (word_of_nat (Suc (length (log r)))) es"
    and "length (log r) + length es < 2 ^ 64"
  shows "append_loop ci es r d = (r\<lparr>log := log r @ es\<rparr>, Some d)"
  using assms
proof (induction es arbitrary: r)
  case (Cons e es)
  let ?r = "r\<lparr>log := log r @ [e]\<rparr>"
  have e: "unat (le_index e) = Suc (length (log r))"
    using contiguous_unat [OF Cons.prems(2,3), of 0] by simp
  have le: "le_index e = word_of_nat (Suc (length (log r)))" by (rule word_of_unat [OF e])
  have ok: "log_ok (log ?r)" using Cons.prems(1) e by (simp add: log_ok_snoc)
  have "append_loop ci es ?r d = (?r\<lparr>log := log ?r @ es\<rparr>, Some d)"
    using Cons.prems ok by (intro Cons.IH) (auto simp: algebra_simps)
  moreover have "log_entry r (le_index e) = None" using Cons.prems(1) e by (simp add: log_entry_nth)
  moreover have "le_index e = last_log_index r + 1"
    using word_of_unat [OF unat_last_log_index [OF Cons.prems(1)]] le by simp
  ultimately show ?case by simp
qed simp

lemma append_loop_spec:
  assumes "log_ok (log r)" and "contiguous_from (word_of_nat (Suc p)) es"
    and "p \<le> length (log r)" and "p + length es < 2 ^ 64"
  shows "append_loop ci es r d =
    (let k = agree_len (drop p (log r)) es
     in if k = length es then (r, Some d)
        else if p + k < length (log r) \<and> p + k < unat ci then (r, None)
        else (r\<lparr>log := take (p + k) (log r) @ drop k es\<rparr>, Some (d @ block_hashes (drop (p + k) (log r)))))"
  using assms
proof (induction es arbitrary: p)
  case (Cons e es)
  have e: "unat (le_index e) = Suc p" using contiguous_unat [OF Cons.prems(2,4), of 0] by simp
  have le: "le_index e = word_of_nat (Suc p)" by (rule word_of_unat [OF e])
  show ?case
  proof (cases "p < length (log r)")
    case False
    then have p: "p = length (log r)" using Cons.prems(3) by simp
    with append_loop_new [of r "e # es" ci d] Cons.prems show ?thesis by (simp add: block_hashes_def)
  next
    case True
    have existing: "log_entry r (le_index e) = Some (log r ! p)" using True Cons.prems(1) e by (simp add: log_entry_nth)
    have drop: "drop p (log r) = log r ! p # drop (Suc p) (log r)" using True by (simp add: Cons_nth_drop_Suc)
    show ?thesis
    proof (cases "le_term (log r ! p) = le_term e")
      case same: True
      have "append_loop ci es r d =
        (let k = agree_len (drop (Suc p) (log r)) es
         in if k = length es then (r, Some d)
            else if Suc p + k < length (log r) \<and> Suc p + k < unat ci then (r, None)
            else (r\<lparr>log := take (Suc p + k) (log r) @ drop k es\<rparr>, Some (d @ block_hashes (drop (Suc p + k) (log r)))))"
        using Cons.prems True by (intro Cons.IH) (auto simp: le algebra_simps)
      with same existing drop show ?thesis by (simp add: Let_def)
    next
      case conflict: False
      have committed: "le_index e \<le> ci \<longleftrightarrow> p < unat ci" by (simp add: word_le_nat_alt e Suc_le_eq)
      have "Suc p < 2 ^ 64" using Cons.prems(4) by simp
      then have at: "unat (le_index e - 1) = p" using unat_Suc_minus [of p] by (simp add: le)
      let ?r = "r\<lparr>log := take p (log r) @ [e]\<rparr>"
      have "append_loop ci es ?r d' = (?r\<lparr>log := log ?r @ es\<rparr>, Some d')" for d'
        using Cons.prems True e
        by (intro append_loop_new) (auto simp: log_ok_snoc log_ok_take le algebra_simps)
      with conflict existing drop committed at True show ?thesis
        by (simp add: Let_def block_hashes_def)
    qed
  qed
qed simp

lemma agree_len_le: "agree_len xs ys \<le> length xs" "agree_len xs ys \<le> length ys"
  by (induction xs ys rule: agree_len.induct) auto

lemma agree_len_terms:
  "i < agree_len xs ys \<Longrightarrow> le_term (xs ! i) = le_term (ys ! i)"
  by (induction xs ys arbitrary: i rule: agree_len.induct) (auto simp: nth_Cons split: if_splits nat.split)

lemma merge_log_ok:
  assumes "log_ok l" and "contiguous_from (word_of_nat (Suc p)) es" and "p \<le> length l" and "p + length es < 2 ^ 64"
  shows "log_ok (merge_log p es l)"
proof -
  let ?k = "agree_len (drop p l) es"
  have k: "p + ?k \<le> length l" "?k \<le> length es" using agree_len_le [of "drop p l" es] assms(3) by auto
  have "contiguous_from (word_of_nat (Suc p) + word_of_nat ?k) (drop ?k es)"
    by (rule contiguous_drop [OF assms(2)])
  then have "log_ok (take (p + ?k) l @ drop ?k es)"
    using k assms by (intro log_ok_append_contiguous) (auto simp: log_ok_take min_absorb2 algebra_simps)
  with assms(1) show ?thesis by (simp add: merge_log_def Let_def)
qed

text \<open>After a merge, the received entries are in the log: same length or more, and equal terms.\<close>

lemma merge_log_terms:
  assumes "p \<le> length l"
  shows "p + length es \<le> length (merge_log p es l)"
    and "\<And>i. i < length es \<Longrightarrow> le_term (merge_log p es l ! (p + i)) = le_term (es ! i)"
    and "take p (merge_log p es l) = take p l"
proof -
  let ?k = "agree_len (drop p l) es"
  have k: "p + ?k \<le> length l" "?k \<le> length es" using agree_len_le [of "drop p l" es] assms by auto
  show "p + length es \<le> length (merge_log p es l)" using k by (simp add: merge_log_def Let_def)
  show "take p (merge_log p es l) = take p l" using k by (simp add: merge_log_def Let_def)
  show "le_term (merge_log p es l ! (p + i)) = le_term (es ! i)" if i: "i < length es" for i
  proof (cases "i < ?k")
    case True
    then have "le_term (l ! (p + i)) = le_term (es ! i)"
      using agree_len_terms [of i "drop p l" es] k by simp
    with True k show ?thesis by (auto simp: merge_log_def Let_def nth_append)
  next
    case False
    then have "?k \<noteq> length es" using i by simp
    with False k i show ?thesis by (simp add: merge_log_def Let_def nth_append min_absorb2)
  qed
qed

section \<open>append entries\<close>

text \<open>
  The state of a peer: a well-formed log that contains the committed part, and the peer among
  its distinct participants.
\<close>

definition raft_wf :: "RaftConsensus \<Rightarrow> bool" where
  "raft_wf r \<longleftrightarrow> log_ok (log r) \<and> unat (commit_index r) \<le> length (log r) \<and>
    distinct (r_participants r) \<and> r_peer_id r \<in> set (r_participants r) \<and>
    distinct (votes_received r) \<and> set (votes_received r) \<subseteq> set (r_participants r)"

text \<open>What any step must keep: the commit index never goes back and the committed entries stay.\<close>

definition keeps_committed :: "RaftConsensus \<Rightarrow> RaftConsensus \<Rightarrow> bool" where
  "keeps_committed r r' \<longleftrightarrow> commit_index r \<le> commit_index r' \<and>
    take (unat (commit_index r)) (log r') = take (unat (commit_index r)) (log r)"

lemma keeps_committed_refl [simp]: "keeps_committed r r"
  by (simp add: keeps_committed_def)

lemma keeps_committed_trans: "keeps_committed r1 r2 \<Longrightarrow> keeps_committed r2 r3 \<Longrightarrow> keeps_committed r1 r3"
  unfolding keeps_committed_def word_le_nat_alt
  by (metis min.absorb1 order_trans take_take)

lemma raft_wfD:
  assumes "raft_wf r"
  shows "log_ok (log r)" "unat (commit_index r) \<le> length (log r)" "distinct (r_participants r)"
    "r_peer_id r \<in> set (r_participants r)"
  using assms by (auto simp: raft_wf_def)

definition accepts :: "u64 \<Rightarrow> u64 \<Rightarrow> RaftLogEntry list \<Rightarrow> RaftConsensus \<Rightarrow> bool" where
  "accepts prev_ix prev_t es r \<longleftrightarrow> term_at r prev_ix = Some prev_t \<and> entries_are_contiguous_after prev_ix es \<and>
    (let k = agree_len (drop (unat prev_ix) (log r)) es
     in k = length es \<or> unat (commit_index r) \<le> unat prev_ix + k)"

definition discarded_by :: "nat \<Rightarrow> RaftLogEntry list \<Rightarrow> RaftLogEntry list \<Rightarrow> RaftLogEntry list" where
  "discarded_by p es l = (let k = agree_len (drop p l) es in if k = length es then [] else drop (p + k) l)"

definition to_stage :: "RaftConsensus \<Rightarrow> RaftLogEntry list \<Rightarrow> RaftLogEntry list" where
  "to_stage r es = filter (\<lambda>e. commit_index r < le_index e \<and> \<not> is_noop e) es"

definition merged :: "u64 \<Rightarrow> RaftLogEntry list \<Rightarrow> u64 \<Rightarrow> RaftConsensus \<Rightarrow> RaftConsensus" where
  "merged prev_ix es lc r = (let l = merge_log (unat prev_ix) es (log r)
    in r\<lparr>log := l, commit_index := max (commit_index r) (min lc (last_log_index (r\<lparr>log := l\<rparr>)))\<rparr>)"

lemma append_entries_spec:
  assumes wf: "log_ok (log r)" "unat (commit_index r) \<le> length (log r)"
    and room: "unat prev_ix + length es < 2 ^ 64"
  shows "append_entries prev_ix prev_t es lc r =
    (if accepts prev_ix prev_t es r
     then (merged prev_ix es lc r,
       Some (map RollbackBlock (block_hashes (discarded_by (unat prev_ix) es (log r))) @
         (if to_stage r es \<noteq> [] then [StageRaftEntries (to_stage r es)] else []) @
         commit_effects (commit_index r) (merged prev_ix es lc r)))
     else (r, None))"
proof (cases "term_at r prev_ix = Some prev_t \<and> entries_are_contiguous_after prev_ix es")
  case True
  let ?p = "unat prev_ix"
  let ?k = "agree_len (drop ?p (log r)) es"
  have p: "?p \<le> length (log r)" using True term_at_Some_length [OF wf(1)] by blast
  have "contiguous_from (word_of_nat (Suc ?p)) es"
    unfolding word_of_Suc_unat using True by (simp add: entries_are_contiguous_after_def)
  note loop = append_loop_spec [OF wf(1) this p room, of "commit_index r" "[]"]
  show ?thesis
  proof (cases "?k = length es")
    case same: True
    with True loop show ?thesis
      by (simp add: append_entries_def accepts_def merged_def merge_log_def discarded_by_def to_stage_def
          block_hashes_def Let_def)
  next
    case diff: False
    show ?thesis
    proof (cases "unat (commit_index r) \<le> unat prev_ix + ?k")
      case fits: True
      then have "\<not> unat prev_ix + ?k < unat (commit_index r)" by simp
      with fits diff True loop show ?thesis
        by (simp add: append_entries_def accepts_def merged_def merge_log_def discarded_by_def to_stage_def Let_def)
    next
      case reaches: False
      then have "unat prev_ix + ?k < unat (commit_index r)" "unat prev_ix + ?k < length (log r)"
        using wf(2) by simp_all
      with reaches diff True loop show ?thesis by (simp add: append_entries_def accepts_def Let_def)
    qed
  qed
qed (auto simp: append_entries_def accepts_def)

lemma accepts_contiguous:
  "accepts prev_ix prev_t es r \<Longrightarrow> contiguous_from (word_of_nat (Suc (unat prev_ix))) es"
  unfolding word_of_Suc_unat by (simp add: accepts_def entries_are_contiguous_after_def)

lemma accepts_prev: "log_ok (log r) \<Longrightarrow> accepts prev_ix prev_t es r \<Longrightarrow> unat prev_ix \<le> length (log r)"
  using term_at_Some_length by (auto simp: accepts_def)

lemma merged_keeps_committed:
  assumes "log_ok (log r)" and "accepts prev_ix prev_t es r"
  shows "keeps_committed r (merged prev_ix es lc r)"
proof -
  let ?k = "agree_len (drop (unat prev_ix) (log r)) es"
  have "unat prev_ix + ?k \<le> length (log r)"
    using accepts_prev [OF assms] agree_len_le [of "drop (unat prev_ix) (log r)" es] by auto
  with assms show ?thesis
    by (auto simp: keeps_committed_def merged_def merge_log_def accepts_def Let_def min_absorb1)
qed

lemma merged_wf:
  assumes "log_ok (log r)" and "accepts prev_ix prev_t es r" and "unat (commit_index r) \<le> length (log r)"
    and "unat prev_ix + length es < 2 ^ 64"
  shows "log_ok (log (merged prev_ix es lc r))"
    and "unat (commit_index (merged prev_ix es lc r)) \<le> length (log (merged prev_ix es lc r))"
proof -
  let ?l = "merge_log (unat prev_ix) es (log r)"
  have l: "log_ok ?l"
    using assms accepts_prev [OF assms(1,2)] accepts_contiguous [OF assms(2)] by (intro merge_log_ok)
  then show "log_ok (log (merged prev_ix es lc r))" by (simp add: merged_def Let_def)
  have "unat (last_log_index (r\<lparr>log := ?l\<rparr>)) = length ?l" using unat_last_log_index [of "r\<lparr>log := ?l\<rparr>"] l by simp
  moreover have "unat (commit_index r) \<le> length ?l"
  proof -
    have "take (unat (commit_index r)) ?l = take (unat (commit_index r)) (log r)"
      using merged_keeps_committed [OF assms(1,2), of lc] by (simp add: keeps_committed_def merged_def Let_def)
    then have "length (take (unat (commit_index r)) ?l) = unat (commit_index r)"
      using assms(3) by simp
    then show ?thesis by (metis length_take min.cobounded1)
  qed
  ultimately show "unat (commit_index (merged prev_ix es lc r)) \<le> length (log (merged prev_ix es lc r))"
    by (auto simp: merged_def Let_def max_def min_def word_le_nat_alt)
qed

section \<open>Commit effects and batches\<close>

text \<open>Filtering a well-formed log by an index range is taking a segment of it.\<close>

lemma filter_index_range:
  assumes "\<And>i. i < length es \<Longrightarrow> unat (le_index (es ! i)) = Suc (n + i)"
  shows "filter (\<lambda>e. a < unat (le_index e) \<and> unat (le_index e) \<le> b) es = drop (a - n) (take (b - n) es)"
  using assms
proof (induction es arbitrary: n)
  case (Cons e es)
  have e: "unat (le_index e) = Suc n" using Cons.prems [of 0] by simp
  have "filter (\<lambda>e. a < unat (le_index e) \<and> unat (le_index e) \<le> b) es = drop (a - Suc n) (take (b - Suc n) es)"
    using Cons.prems [of "Suc _"] by (intro Cons.IH) fastforce
  with e show ?case by (cases "n < b"; cases "n < a") (auto simp: Suc_diff_Suc [symmetric] take_Cons' drop_Cons')
qed simp

lemma commit_effects_segment:
  assumes "log_ok (log r)"
  shows "commit_effects a r =
    map CommitBlock (block_hashes (drop (unat a) (take (unat (commit_index r)) (log r))))"
  using filter_index_range [of "log r" 0 "unat a" "unat (commit_index r)"] assms
  by (simp add: commit_effects_def block_hashes_def log_ok_def word_less_nat_alt word_le_nat_alt comp_def)

lemma filter_after:
  assumes "log_ok l"
  shows "filter (\<lambda>e. ix < le_index e) l = drop (unat ix) l"
proof -
  have "unat (le_index e) \<le> length l" if "e \<in> set l" for e
    using that assms by (auto simp: in_set_conv_nth log_ok_def)
  then have "filter (\<lambda>e. ix < le_index e) l = filter (\<lambda>e. unat ix < unat (le_index e) \<and> unat (le_index e) \<le> length l) l"
    by (intro filter_cong) (auto simp: word_less_nat_alt)
  also have "\<dots> = drop (unat ix) l"
    using filter_index_range [of l 0 "unat ix" "length l"] assms by (simp add: log_ok_def)
  finally show ?thesis .
qed

lemma append_entries_effect_for_segment:
  assumes "log_ok (log r)" and "append_entries_effect_for r p = Some eff"
  obtains prev_ix where "unat prev_ix \<le> length (log r)"
    "eff = SendRaftAppendEntries p (current_term r) prev_ix
      (if prev_ix = 0 then 0 else le_term (log r ! (unat prev_ix - 1)))
      (take MAX_APPEND_ENTRIES (drop (unat prev_ix) (log r))) (commit_index r)"
proof -
  let ?ix = "min (case match_indexes r p of Some mi \<Rightarrow> mi | None \<Rightarrow> 0) (last_log_index r)"
  have "?ix \<le> last_log_index r" by simp
  then have "unat ?ix \<le> length (log r)"
    unfolding word_le_nat_alt unat_last_log_index [OF assms(1)] .
  with that [of ?ix] assms show thesis
    by (auto simp: append_entries_effect_for_def Let_def term_at_nth filter_after split: if_splits)
qed

section \<open>Advancing the commit index\<close>

lemma find_commit_cases:
  "find_commit r es = commit_index r \<or>
    (\<exists>e\<in>set es. find_commit r es = le_index e \<and> commit_index r < le_index e \<and>
      le_term e = current_term r \<and> majority r \<le> replicated_count r (le_index e))"
  by (induction es) auto

lemma find_commit_max:
  assumes "sorted_wrt (\<lambda>x y. le_index y < le_index x) es" and "e \<in> set es" and "le_term e = current_term r"
    and "majority r \<le> replicated_count r (le_index e)"
  shows "le_index e \<le> find_commit r es"
  using assms
proof (induction es)
  case (Cons x es)
  show ?case
  proof (cases "e = x")
    case True
    have "commit_index r \<le> find_commit r es" using find_commit_cases [of r es] by auto
    with True Cons.prems show ?thesis by auto
  next
    case False
    with Cons have "le_index e \<le> find_commit r es" "le_index e < le_index x" by auto
    then show ?thesis by auto
  qed
qed simp

lemma log_ok_sorted_rev: "log_ok l \<Longrightarrow> sorted_wrt (\<lambda>x y. le_index y < le_index x) (rev l)"
  by (auto simp: sorted_wrt_iff_nth_less rev_nth log_ok_def word_less_nat_alt)

lemma advance_commit_index_sel [simp]:
  "log (fst (advance_commit_index r)) = log r"
  "commit_index (fst (advance_commit_index r)) = find_commit r (rev (log r))"
  "advance_commit_index r = (r\<lparr>commit_index := find_commit r (rev (log r))\<rparr>,
    commit_effects (commit_index r) (r\<lparr>commit_index := find_commit r (rev (log r))\<rparr>))"
  by (simp_all add: advance_commit_index_def Let_def)

declare advance_commit_index_sel(3) [simp del]

lemma find_commit_ge: "commit_index r \<le> find_commit r es"
  using find_commit_cases [of r es] by auto

lemma find_commit_le:
  "log_ok (log r) \<Longrightarrow> unat (commit_index r) \<le> length (log r) \<Longrightarrow> unat (find_commit r (rev (log r))) \<le> length (log r)"
  using find_commit_cases [of r "rev (log r)"] by (auto simp: in_set_conv_nth log_ok_def)

end
