(* ===== verification/Raft_Steps.thy ===== *)
theory Raft_Steps
  imports Raft_Log
begin

text \<open>
  Every input a Raft peer handles, as one step function over the handlers, and what each step
  keeps: the well-formed state, the committed part of the log, the vote of a term, and the
  correspondence of commit effects with newly committed entries.
\<close>

section \<open>Vocabulary\<close>

datatype raft_event =
    Tick instant "PeerId list"
  | RequestVote u64 PeerId u64 u64 PeerId
  | VoteReply u64 PeerId bool
  | AppendEntries nat u64 PeerId u64 u64 "RaftReplicatedBlock list" u64 PeerId instant
  | AppendReply u64 PeerId bool u64
  | ClientTx SignedTransaction
  | BlockCreated BlockHash
  | TakePending BlockHash

fun raft_step :: "('a) raft_ext_scheme \<Rightarrow> raft_event \<Rightarrow> (RaftConsensus, raft_error, ConsensusEffect list) step" where
  "raft_step X (Tick now known) r = raft_on_tick X now known r"
| "raft_step X (RequestVote t cand li lt from) r = raft_on_request_vote t cand li lt from r"
| "raft_step X (VoteReply t voter granted) r = raft_on_request_vote_response X t voter granted r"
| "raft_step X (AppendEntries draw t leader pi pt es lc from now) r =
    raft_on_append_entries X draw t leader pi pt es lc from now r"
| "raft_step X (AppendReply t from success mi) r = raft_on_append_entries_response X t from success mi r"
| "raft_step X (ClientTx tx) r = raft_on_client_transaction tx r"
| "raft_step X (BlockCreated h) r = raft_on_block_created X h r"
| "raft_step X (TakePending h) r = (fst (take_pending_block h r), Ok [])"

text \<open>Indexes stay below \<open>2 ^ 64\<close>.\<close>

fun raft_room :: "raft_event \<Rightarrow> RaftConsensus \<Rightarrow> bool" where
  "raft_room (AppendEntries draw t leader pi pt es lc from now) r \<longleftrightarrow> unat pi + length es < 2 ^ 64"
| "raft_room _ r \<longleftrightarrow> length (log r) + 1 < 2 ^ 64"

fun committed_by :: "ConsensusEffect \<Rightarrow> BlockHash list" where
  "committed_by (CommitBlock h) = [h]"
| "committed_by _ = []"

definition commits_of :: "ConsensusEffect list \<Rightarrow> BlockHash list" where
  "commits_of effs = concat (map committed_by effs)"

text \<open>The block hashes that the step from \<open>r\<close> to \<open>r'\<close> committed, in log order.\<close>

definition newly_committed :: "RaftConsensus \<Rightarrow> RaftConsensus \<Rightarrow> BlockHash list" where
  "newly_committed r r' = block_hashes (drop (unat (commit_index r)) (take (unat (commit_index r')) (log r')))"

definition step_ok :: "RaftConsensus \<Rightarrow> RaftConsensus \<Rightarrow> bool" where
  "step_ok r r' \<longleftrightarrow> raft_wf r' \<and> keeps_committed r r'"

text \<open>The step touches neither the log nor the commit index.\<close>

definition log_frame :: "RaftConsensus \<Rightarrow> RaftConsensus \<Rightarrow> bool" where
  "log_frame r r' \<longleftrightarrow> log r' = log r \<and> commit_index r' = commit_index r"

section \<open>Frames\<close>

lemma log_frame_refl [simp]: "log_frame r r"
  by (simp add: log_frame_def)

lemma log_frame_trans: "log_frame r1 r2 \<Longrightarrow> log_frame r2 r3 \<Longrightarrow> log_frame r1 r3"
  by (simp add: log_frame_def)

lemma log_frame_keeps: "log_frame r r' \<Longrightarrow> keeps_committed r r'"
  by (simp add: log_frame_def keeps_committed_def)

lemma log_frame_none_committed: "log_frame r r' \<Longrightarrow> newly_committed r r' = []"
  by (simp add: log_frame_def newly_committed_def block_hashes_def)

lemma update_participants_frame: "log_frame r (update_participants known r)"
  by (simp add: log_frame_def update_participants_def Let_def)

lemma step_down_frame: "log_frame r (step_down t r)" "log_frame r (step_down_on_newer_term t r)"
  by (simp_all add: log_frame_def step_down_def step_down_on_newer_term_def)

lemma become_leader_frame: "log_frame r (fst (become_leader_if_majority r))"
  by (simp add: log_frame_def become_leader_if_majority_def)

lemma start_election_frame: "log_frame r (fst (start_election_at now r))"
  by (simp add: log_frame_def start_election_at_def become_leader_if_majority_def)

lemma request_vote_frame: "log_frame r (fst (request_vote t cand li lt r))"
  by (auto simp: log_frame_def request_vote_def step_down_def Let_def split: option.split)

lemma receive_vote_frame: "log_frame r (fst (receive_vote t voter granted r))"
  by (auto simp: log_frame_def receive_vote_def step_down_def become_leader_if_majority_def)

lemma receive_append_entries_frame: "log_frame r (fst (receive_append_entries_at draw t leader from now r))"
  by (auto simp: log_frame_def receive_append_entries_at_def step_down_def Let_def split: option.split)

lemma persist_log_frame: "log_frame r (fst (persist_log X r))"
  by (simp add: log_frame_def persist_log_def split: prod.split)

lemma move_staged_entries_pending: "\<exists>p. snd (move_staged_entries es blocks r) = r\<lparr>pending_blocks := p\<rparr>"
proof (induction es arbitrary: blocks r)
  case Nil
  show ?case by (auto intro: exI [of _ "pending_blocks r"])
next
  case (Cons e es)
  have "\<exists>p. snd (move_staged_entries es bl (r\<lparr>pending_blocks := q\<rparr>)) = r\<lparr>pending_blocks := p\<rparr>" for bl q
    using Cons.IH [of bl "r\<lparr>pending_blocks := q\<rparr>"] by auto
  then show ?case using Cons.IH [of blocks r] by (simp split: option.split)
qed

lemma move_staged_blocks_pending: "\<exists>p. move_staged_blocks effs blocks r = r\<lparr>pending_blocks := p\<rparr>"
proof (induction effs blocks r rule: move_staged_blocks.induct)
  case (1 blocks r)
  show ?case by (auto intro: exI [of _ "pending_blocks r"])
next
  case (2 es effs blocks r)
  obtain bl p where "move_staged_entries es blocks r = (bl, r\<lparr>pending_blocks := p\<rparr>)"
    using move_staged_entries_pending [of es blocks r] by (metis prod.collapse)
  with 2 show ?case by fastforce
qed simp_all

lemma move_staged_blocks_frame: "log_frame r (move_staged_blocks effs blocks r)"
  using move_staged_blocks_pending [of effs blocks r] by (auto simp: log_frame_def)

lemmas frames = update_participants_frame step_down_frame become_leader_frame start_election_frame
  request_vote_frame receive_vote_frame receive_append_entries_frame persist_log_frame move_staged_blocks_frame

section \<open>Membership and votes\<close>

text \<open>The part of the invariant that elections touch.\<close>

definition members_ok :: "RaftConsensus \<Rightarrow> bool" where
  "members_ok r \<longleftrightarrow> distinct (r_participants r) \<and> r_peer_id r \<in> set (r_participants r) \<and>
    distinct (votes_received r) \<and> set (votes_received r) \<subseteq> set (r_participants r)"

lemma raft_wf_split:
  "raft_wf r \<longleftrightarrow> log_ok (log r) \<and> unat (commit_index r) \<le> length (log r) \<and> members_ok r"
  by (auto simp: raft_wf_def members_ok_def)

lemma update_participants_members: "members_ok r \<Longrightarrow> members_ok (update_participants known r)"
  by (auto simp: members_ok_def update_participants_def Let_def)

lemma step_down_members: "members_ok r \<Longrightarrow> members_ok (step_down t r)"
    "members_ok r \<Longrightarrow> members_ok (step_down_on_newer_term t r)"
  by (simp_all add: members_ok_def step_down_def step_down_on_newer_term_def)

lemma become_leader_members: "members_ok r \<Longrightarrow> members_ok (fst (become_leader_if_majority r))"
  by (simp add: members_ok_def become_leader_if_majority_def)

lemma start_election_members: "members_ok r \<Longrightarrow> members_ok (fst (start_election_at now r))"
  unfolding start_election_at_def by (intro become_leader_members) (simp add: members_ok_def)

lemma request_vote_members: "members_ok r \<Longrightarrow> members_ok (fst (request_vote t cand li lt r))"
  by (auto simp: members_ok_def request_vote_def step_down_def Let_def split: option.split)

lemma receive_vote_members: "members_ok r \<Longrightarrow> members_ok (fst (receive_vote t voter granted r))"
  by (auto simp: receive_vote_def step_down_members intro!: become_leader_members) (auto simp: members_ok_def)

lemma receive_append_entries_members:
  "members_ok r \<Longrightarrow> members_ok (fst (receive_append_entries_at draw t leader from now r))"
  by (auto simp: members_ok_def receive_append_entries_at_def step_down_def Let_def split: option.split)

lemma persist_log_members: "members_ok r \<Longrightarrow> members_ok (fst (persist_log X r))"
  by (simp add: members_ok_def persist_log_def split: prod.split)

lemma move_staged_blocks_members: "members_ok r \<Longrightarrow> members_ok (move_staged_blocks effs blocks r)"
  using move_staged_blocks_pending [of effs blocks r] by (auto simp: members_ok_def)

lemmas members = update_participants_members step_down_members become_leader_members start_election_members
  request_vote_members receive_vote_members receive_append_entries_members persist_log_members
  move_staged_blocks_members

lemma frame_step_ok: "raft_wf r \<Longrightarrow> log_frame r r' \<Longrightarrow> members_ok r' \<Longrightarrow> step_ok r r'"
  by (simp add: step_ok_def raft_wf_split log_frame_def keeps_committed_def)

lemma step_ok_trans: "step_ok r1 r2 \<Longrightarrow> step_ok r2 r3 \<Longrightarrow> step_ok r1 r3"
  using keeps_committed_trans by (auto simp: step_ok_def)

lemma step_ok_refl: "raft_wf r \<Longrightarrow> step_ok r r"
  by (simp add: step_ok_def)

section \<open>Commit effects\<close>

lemma commits_of_simps [simp]:
  "commits_of [] = []" "commits_of (e # es) = committed_by e @ commits_of es"
  "commits_of (xs @ ys) = commits_of xs @ commits_of ys"
  by (simp_all add: commits_of_def)

lemma commits_of_map [simp]: "commits_of (map CommitBlock hs) = hs" "commits_of (map RollbackBlock hs) = []"
  by (induction hs) simp_all

lemma commits_of_sends:
  "append_entries_effect_for r p = Some eff \<Longrightarrow> committed_by eff = []"
  "commits_of (append_entries_effects_for_followers r) = []"
proof -
  have *: "append_entries_effect_for r p = Some eff \<Longrightarrow> committed_by eff = []" for p eff
    by (auto simp: append_entries_effect_for_def Let_def split: option.splits)
  then show "append_entries_effect_for r p = Some eff \<Longrightarrow> committed_by eff = []" .
  show "commits_of (append_entries_effects_for_followers r) = []"
    using * by (auto simp: append_entries_effects_for_followers_def List.map_filter_def commits_of_def)
qed

section \<open>Steps that change the log\<close>

lemma newly_committed_frame:
  "log_frame r r1 \<Longrightarrow> newly_committed r r' = newly_committed r1 r'"
  "log_frame r' r2 \<Longrightarrow> newly_committed r r2 = newly_committed r r'"
  by (simp_all add: log_frame_def newly_committed_def)

lemma advance_commit_step:
  assumes "raft_wf r"
  shows "step_ok r (fst (advance_commit_index r))"
    and "snd (advance_commit_index r) = map CommitBlock (newly_committed r (fst (advance_commit_index r)))"
  using assms find_commit_ge [of r "rev (log r)"] find_commit_le [of r] commit_effects_segment
  by (auto simp: step_ok_def raft_wf_def keeps_committed_def advance_commit_index_sel(3) newly_committed_def)

lemma append_own_entry_step:
  assumes wf: "raft_wf r" and e: "unat (le_index e) = Suc (length (log r))"
    and step: "append_own_entry X e r = (r', res)"
  shows "step_ok r r'"
    and "res = Ok effs \<Longrightarrow> commits_of effs = newly_committed r r'"
proof -
  define r1 where "r1 = r\<lparr>log := log r @ [e], match_indexes := (match_indexes r)(r_peer_id r \<mapsto> le_index e)\<rparr>"
  have r1: "raft_wf r1" "keeps_committed r r1"
    using wf e by (auto simp: r1_def raft_wf_def log_ok_snoc keeps_committed_def)
  obtain r2 cs where adv: "advance_commit_index r1 = (r2, cs)" by fastforce
  have r2: "step_ok r1 r2" "cs = map CommitBlock (newly_committed r1 r2)"
    using advance_commit_step [OF r1(1)] adv by simp_all
  obtain r3 pr where pers: "persist_log X r2 = (r3, pr)" by fastforce
  have r3: "log_frame r2 r3" "members_ok r3"
    using persist_log_frame [of r2 X] persist_log_members [of r2 X] r2(1) pers
    by (auto simp: step_ok_def raft_wf_split)
  have r': "r' = r3" "res = (case pr of Err x \<Rightarrow> Err x | Ok _ \<Rightarrow> Ok (append_entries_effects_for_followers r1 @ cs))"
    using step adv pers by (auto simp: append_own_entry_def Let_def r1_def split: sum.splits)
  have "step_ok r2 r3" using r2(1) r3 by (intro frame_step_ok) (simp_all add: step_ok_def)
  then have "step_ok r1 r3" using r2(1) by (blast intro: step_ok_trans)
  with r1 show "step_ok r r'" by (auto simp: r' step_ok_def intro: keeps_committed_trans)
  have "newly_committed r r3 = newly_committed r1 r2"
    using r3(1) by (simp add: newly_committed_def log_frame_def r1_def)
  then show "commits_of effs = newly_committed r r'" if "res = Ok effs"
    using that r' r2(2) by (auto simp: commits_of_sends split: sum.splits)
qed

lemma next_index: "log_ok (log r) \<Longrightarrow> length (log r) + 1 < 2 ^ 64 \<Longrightarrow> unat (last_log_index r + 1) = Suc (length (log r))"
  using unat_plus_u64 [of "last_log_index r" 1] by (simp add: unat_last_log_index)

section \<open>The handlers\<close>

definition good_step :: "RaftConsensus \<Rightarrow> RaftConsensus \<times> (raft_error + ConsensusEffect list) \<Rightarrow> bool" where
  "good_step r out \<longleftrightarrow> step_ok r (fst out) \<and>
    (case snd out of Ok effs \<Rightarrow> commits_of effs = newly_committed r (fst out) | Err _ \<Rightarrow> True)"

lemma good_step_frame:
  "raft_wf r \<Longrightarrow> log_frame r r' \<Longrightarrow> members_ok r' \<Longrightarrow> (case res of Ok effs \<Rightarrow> commits_of effs = [] | Err _ \<Rightarrow> True) \<Longrightarrow>
    good_step r (r', res)"
  by (cases res) (simp_all add: good_step_def frame_step_ok log_frame_none_committed)

lemma good_step_after_frame:
  assumes "raft_wf r" and "log_frame r r1" and "members_ok r1" and "good_step r1 out"
  shows "good_step r out"
  using assms frame_step_ok [OF assms(1-3)] step_ok_trans [of r r1 "fst out"] newly_committed_frame(1) [OF assms(2)]
  by (cases "snd out") (auto simp: good_step_def)

lemma good_step_then_frame:
  assumes "good_step r (r1, Ok effs)" and "log_frame r1 r2" and "members_ok r2"
    and "case res of Ok effs' \<Rightarrow> commits_of effs' = commits_of effs | Err _ \<Rightarrow> True"
  shows "good_step r (r2, res)"
proof -
  have "step_ok r1 r2" using assms by (intro frame_step_ok) (auto simp: good_step_def step_ok_def)
  then have "step_ok r r2" using assms(1) step_ok_trans by (auto simp: good_step_def)
  with assms(1,4) newly_committed_frame(2) [OF assms(2)] show ?thesis by (auto simp: good_step_def split: sum.splits)
qed

lemma wf_members: "raft_wf r \<Longrightarrow> members_ok r"
  by (simp add: raft_wf_split)

lemma frame_wf: "raft_wf r \<Longrightarrow> log_frame r r' \<Longrightarrow> members_ok r' \<Longrightarrow> raft_wf r'"
  by (simp add: raft_wf_split log_frame_def)

lemma good_own_entry:
  "raft_wf r \<Longrightarrow> unat (le_index e) = Suc (length (log r)) \<Longrightarrow> good_step r (append_own_entry X e r)"
  by (cases "append_own_entry X e r"; cases "snd (append_own_entry X e r)")
    (auto simp: good_step_def append_own_entry_step)

lemma good_leader_noop:
  "raft_wf r \<Longrightarrow> length (log r) + 1 < 2 ^ 64 \<Longrightarrow> good_step r (append_leader_noop X r)"
  unfolding append_leader_noop_def by (rule good_own_entry) (simp_all add: next_index raft_wfD)

lemma good_block_created:
  "raft_wf r \<Longrightarrow> length (log r) + 1 < 2 ^ 64 \<Longrightarrow> good_step r (raft_on_block_created X h r)"
  by (auto simp: raft_on_block_created_def append_local_block_def next_index raft_wfD
      intro!: good_own_entry good_step_frame wf_members split: RaftRole.split sum.split)

lemma good_idle: "raft_wf r \<Longrightarrow> good_step r (r, Ok [])" "raft_wf r \<Longrightarrow> good_step r (r, Err e)"
  by (auto intro: good_step_frame wf_members)

lemma good_step_down: "raft_wf r \<Longrightarrow> good_step r (step_down t r, Ok [])"
    "raft_wf r \<Longrightarrow> good_step r (step_down_on_newer_term t r, Ok [])"
  by (rule good_step_frame [OF _ step_down_frame(1)]; simp add: step_down_members wf_members)
    (rule good_step_frame [OF _ step_down_frame(2)]; simp add: step_down_members wf_members)

lemma good_tick:
  assumes wf: "raft_wf r" and room: "length (log r) + 1 < 2 ^ 64"
  shows "good_step r (raft_on_tick X now known r)"
proof -
  let ?r = "update_participants known r"
  have m: "members_ok ?r" by (intro members wf_members wf)
  have wf': "raft_wf ?r" by (rule frame_wf [OF wf update_participants_frame m])
  let ?hb = "?r\<lparr>last_heartbeat_sent_at := Some now\<rparr>"
  have hb: "good_step ?r (?hb, Ok (append_entries_effects_for_followers ?hb))"
    using m by (intro good_step_frame [OF wf']) (simp_all add: log_frame_def members_ok_def commits_of_sends)
  obtain r1 b where el: "start_election_at now ?r = (r1, b)" by fastforce
  have f1: "log_frame ?r r1" and m1: "members_ok r1"
    using start_election_frame [of ?r now] start_election_members [OF m, of now] el by simp_all
  have "length (log r1) + 1 < 2 ^ 64"
    using room f1 update_participants_frame [of r known] by (simp add: log_frame_def)
  then have "good_step r1 (append_leader_noop X r1)" by (intro good_leader_noop frame_wf [OF wf' f1 m1])
  then have noop: "good_step ?r (append_leader_noop X r1)" by (rule good_step_after_frame [OF wf' f1 m1])
  obtain r2 res where nr: "append_leader_noop X r1 = (r2, res)" by fastforce
  let ?ask = "Broadcast (RaftRequestVote (current_term r1) (r_peer_id r1) (last_log_index r1) (last_log_term r1))"
  have won: "good_step ?r (r2, case res of Err e \<Rightarrow> Err e | Ok es \<Rightarrow> Ok ([?ask] @ es))"
    using noop nr by (cases res) (simp_all add: good_step_def)
  have lost: "good_step ?r (r1, Ok [?ask])"
    by (rule good_step_frame [OF wf' f1 m1]) simp
  have "good_step ?r (raft_on_tick X now known r)"
    using hb won lost good_idle(1) [OF wf'] el nr
    by (cases res) (simp_all add: raft_on_tick_def Let_def)
  then show ?thesis by (rule good_step_after_frame [OF wf update_participants_frame m])
qed

lemma good_vote_reply:
  assumes wf: "raft_wf r" and room: "length (log r) + 1 < 2 ^ 64"
  shows "good_step r (raft_on_request_vote_response X t voter granted r)"
proof -
  obtain r1 b where rv: "receive_vote t voter granted r = (r1, b)" by fastforce
  have f1: "log_frame r r1" and m1: "members_ok r1"
    using receive_vote_frame [of r t voter granted] receive_vote_members [OF wf_members [OF wf], of t voter granted] rv
    by simp_all
  have "good_step r1 (append_leader_noop X r1)"
    using room f1 by (intro good_leader_noop frame_wf [OF wf f1 m1]) (simp add: log_frame_def)
  then have "good_step r (append_leader_noop X r1)" by (rule good_step_after_frame [OF wf f1 m1])
  moreover have "good_step r (r1, Ok [])" by (rule good_step_frame [OF wf f1 m1]) simp
  ultimately show ?thesis using good_step_down(2) [OF wf]
    by (cases b) (simp_all add: raft_on_request_vote_response_def rv)
qed

lemma good_persist:
  assumes "good_step r (r1, Ok effs)"
  shows "good_step r (case persist_log X r1 of (r2, Err e) \<Rightarrow> (r2, Err e) | (r2, Ok _) \<Rightarrow> (r2, Ok effs))"
proof -
  have m: "members_ok r1" using assms by (simp add: good_step_def step_ok_def raft_wf_split)
  obtain r2 pr where p: "persist_log X r1 = (r2, pr)" by fastforce
  have "log_frame r1 r2" "members_ok r2"
    using persist_log_frame [of r1 X] persist_log_members [OF m, of X] p by simp_all
  from good_step_then_frame [OF assms this, of "case pr of Err e \<Rightarrow> Err e | Ok _ \<Rightarrow> Ok effs"] p
  show ?thesis by (cases pr) simp_all
qed

lemma good_append_reply:
  assumes wf: "raft_wf r"
  shows "good_step r (raft_on_append_entries_response X t from success mi r)"
proof -
  let ?upd = "\<lambda>m. r\<lparr>match_indexes := (match_indexes r)(from \<mapsto> m)\<rparr>"
  have upd: "log_frame r (?upd m)" "members_ok (?upd m)" for m
    using wf_members [OF wf] by (simp_all add: log_frame_def members_ok_def)
  let ?r1 = "?upd (max (case match_indexes r from of Some m \<Rightarrow> m | None \<Rightarrow> 0) mi)"
  obtain r2 cs where adv: "advance_commit_index ?r1 = (r2, cs)" by fastforce
  have "good_step ?r1 (r2, Ok cs)"
    unfolding good_step_def fst_conv snd_conv
    using advance_commit_step [OF frame_wf [OF wf upd], of "max (case match_indexes r from of Some m \<Rightarrow> m | None \<Rightarrow> 0) mi"]
    unfolding adv by simp
  then have g2: "good_step r (r2, Ok cs)" by (rule good_step_after_frame [OF wf upd])
  have rej: "good_step r (?upd m, Ok (case append_entries_effect_for (?upd m) from of Some e \<Rightarrow> [e] | None \<Rightarrow> []))"
      "good_step r (?upd m, Ok [])" for m
    using wf upd by (auto intro!: good_step_frame simp: commits_of_sends(1) split: option.splits)
  have "good_step r (handle_leader_append_entries_response X t from success mi r)"
    unfolding handle_leader_append_entries_response_def Let_def adv prod.case
    using g2 good_persist [OF g2, of X] rej good_idle(1) [OF wf] good_step_down(1) [OF wf] by simp
  with good_step_down(2) [OF wf] show ?thesis by (simp add: raft_on_append_entries_response_def)
qed

lemma validate_length:
  "validate_replicated_entries X rbs blocks acc = Ok (es, bs) \<Longrightarrow> es = acc @ map rb_entry rbs"
  by (induction X rbs blocks acc rule: validate_replicated_entries.induct) (auto split: if_splits sum.splits)

lemma good_append_entries:
  assumes wf: "raft_wf r" and room: "unat (rq_prev_log_index rq) + length (rq_entries rq) < 2 ^ 64"
  shows "good_step r (handle_append_entries X draw rq r)"
proof -
  obtain r1 b where rc: "receive_append_entries_at draw (rq_term rq) (rq_leader_id rq) (rq_from rq) (rq_now rq) r = (r1, b)"
    by fastforce
  have f1: "log_frame r r1" and m1: "members_ok r1"
    using receive_append_entries_frame [of r] receive_append_entries_members [OF wf_members [OF wf]] rc
    by (metis fst_conv)+
  have wf1: "raft_wf r1" by (rule frame_wf [OF wf f1 m1])
  have reject: "good_step r1 (r1, Ok [append_entries_response r1 (rq_from rq) False m])" for m
    using wf1 m1 by (intro good_step_frame) (simp_all add: append_entries_response_def)
  have "good_step r1 (handle_append_entries X draw rq r)"
  proof (cases "\<exists>es bl. b \<and> validate_replicated_entries X (rq_entries rq) Map.empty [] = Ok (es, bl)")
    case False
    with reject rc show ?thesis
      by (cases b; cases "validate_replicated_entries X (rq_entries rq) Map.empty []")
        (auto simp: handle_append_entries_def)
  next
    case True
    then obtain es bl where es: "b" "validate_replicated_entries X (rq_entries rq) Map.empty [] = Ok (es, bl)" by blast
    then have len: "unat (rq_prev_log_index rq) + length es < 2 ^ 64" using validate_length [OF es(2)] room by simp
    let ?acc = "accepts (rq_prev_log_index rq) (rq_prev_log_term rq) es r1"
    let ?r2 = "merged (rq_prev_log_index rq) es (rq_leader_commit rq) r1"
    note spec = append_entries_spec [OF raft_wfD(1,2) [OF wf1] len, of "rq_prev_log_term rq" "rq_leader_commit rq"]
    show ?thesis
    proof (cases ?acc)
      case False
      with reject rc es spec show ?thesis by (simp add: handle_append_entries_def Let_def)
    next
      case acc: True
      obtain effs where ae: "append_entries (rq_prev_log_index rq) (rq_prev_log_term rq) es (rq_leader_commit rq) r1 =
          (?r2, Some effs)" and effs: "commits_of effs = commits_of (commit_effects (commit_index r1) ?r2)"
        using acc spec by simp
      have log2: "log_ok (log ?r2)" and "raft_wf ?r2"
        using merged_wf [OF raft_wfD(1) [OF wf1] acc raft_wfD(2) [OF wf1] len] wf1
        by (simp_all add: raft_wf_def) (simp_all add: merged_def Let_def)
      then have g2: "good_step r1 (?r2, Ok effs)"
        using merged_keeps_committed [OF raft_wfD(1) [OF wf1] acc] effs commit_effects_segment [OF log2]
        by (simp add: good_step_def step_ok_def newly_committed_def)
      let ?r3 = "move_staged_blocks effs bl ?r2"
      have "good_step r1 (?r3, Ok (effs @ [append_entries_response ?r3 (rq_from rq) True m]))" for m
        using g2 move_staged_blocks_frame wf_members [OF \<open>raft_wf ?r2\<close>]
        by (rule good_step_then_frame [OF _ _ move_staged_blocks_members]) (auto simp: append_entries_response_def)
      with good_persist [OF this, where X = X] rc es ae show ?thesis by (simp add: handle_append_entries_def Let_def)
    qed
  qed
  then show ?thesis by (rule good_step_after_frame [OF wf f1 m1])
qed

lemma good_raft_step:
  assumes "raft_wf r" and "raft_room ev r"
  shows "good_step r (raft_step X ev r)"
proof (cases ev)
  case (RequestVote t cand li lt src)
  have "log_frame r (fst (request_vote t cand li lt r))" "members_ok (fst (request_vote t cand li lt r))"
    using request_vote_frame request_vote_members wf_members [OF assms(1)] by blast+
  with RequestVote assms show ?thesis
    by (auto simp: raft_on_request_vote_def intro!: good_step_frame split: prod.split)
next
  case (ClientTx tx)
  with assms show ?thesis
    by (auto simp: raft_on_client_transaction_def forward_client_transaction_def wf_members
        intro!: good_step_frame split: RaftRole.split sum.splits option.splits)
next
  case (TakePending h)
  with assms wf_members [OF assms(1)] show ?thesis
    by (auto simp: take_pending_block_def members_ok_def log_frame_def intro!: good_step_frame)
next
  case (AppendEntries draw t leader pi pt es lc src now)
  with assms show ?thesis by (auto simp: raft_on_append_entries_def intro!: good_append_entries)
qed (use assms good_tick good_vote_reply good_append_reply good_block_created in auto)

end
