(* ===== verification/Raft_Safety.thy ===== *)
theory Raft_Safety
  imports Raft_Steps
begin

text \<open>
  Properties of one Raft peer over all its handlers, of the exchange between a leader and a
  follower, and of the stored log.
\<close>

section \<open>Runs\<close>

fun raft_run :: "('a) raft_ext_scheme \<Rightarrow> raft_event list \<Rightarrow> RaftConsensus \<Rightarrow> RaftConsensus \<times> BlockHash list \<times> bool" where
  "raft_run X [] r = (r, [], True)"
| "raft_run X (ev # evs) r =
    (case raft_step X ev r of
       (r1, res) \<Rightarrow>
         (case raft_run X evs r1 of
            (r2, hs, ok) \<Rightarrow> (r2, (case res of Ok effs \<Rightarrow> commits_of effs | Err _ \<Rightarrow> []) @ hs, is_ok res \<and> ok)))"

fun run_room :: "('a) raft_ext_scheme \<Rightarrow> raft_event list \<Rightarrow> RaftConsensus \<Rightarrow> bool" where
  "run_room X [] r = True"
| "run_room X (ev # evs) r = (raft_room ev r \<and> run_room X evs (fst (raft_step X ev r)))"

lemma raft_run_snoc:
  "raft_run X (evs @ [ev]) r =
    (case raft_run X evs r of (r1, hs, ok) \<Rightarrow>
     case raft_step X ev r1 of (r2, res) \<Rightarrow>
       (r2, hs @ (case res of Ok effs \<Rightarrow> commits_of effs | Err _ \<Rightarrow> []), ok \<and> is_ok res))"
  by (induction evs arbitrary: r) (auto split: prod.splits sum.splits)

lemma run_room_snoc: "run_room X (evs @ [ev]) r \<longleftrightarrow> run_room X evs r \<and> raft_room ev (fst (raft_run X evs r))"
  by (induction evs arbitrary: r) (auto split: prod.splits)

lemma newly_committed_seq:
  assumes "raft_wf r1" and "keeps_committed r1 r2" and "keeps_committed r2 r3"
    and "unat (commit_index r2) \<le> length (log r2)"
  shows "newly_committed r1 r3 = newly_committed r1 r2 @ newly_committed r2 r3"
proof -
  let ?a = "unat (commit_index r1)" and ?b = "unat (commit_index r2)" and ?c = "unat (commit_index r3)"
  have le: "?a \<le> ?b" "?b \<le> ?c" using assms(2,3) by (simp_all add: keeps_committed_def word_le_nat_alt)
  have same: "take ?b (log r3) = take ?b (log r2)" using assms(3) by (simp add: keeps_committed_def)
  then have len: "?b \<le> length (log r3)" using assms(4) by (metis length_take min.absorb_iff2 min.commute)
  have "take ?c (log r3) = take ?b (log r3) @ drop ?b (take ?c (log r3))"
    using le by (metis append_take_drop_id min.absorb1 take_take)
  then have "drop ?a (take ?c (log r3)) = drop ?a (take ?b (log r2)) @ drop ?b (take ?c (log r3))"
    using le len same by (metis diff_is_0_eq drop_0 drop_append length_take min.absorb2)
  then show ?thesis by (simp add: newly_committed_def block_hashes_def)
qed

lemma raft_run_good:
  assumes "raft_wf r" and "run_room X evs r" and "raft_run X evs r = (r', hs, ok)"
  shows "step_ok r r' \<and> (ok \<longrightarrow> hs = newly_committed r r')"
  using assms
proof (induction evs arbitrary: r r' hs ok)
  case Nil
  then show ?case by (auto simp: step_ok_refl newly_committed_def block_hashes_def)
next
  case (Cons ev evs)
  obtain r1 res where 1: "raft_step X ev r = (r1, res)" by fastforce
  obtain r2 hs' ok' where 2: "raft_run X evs r1 = (r2, hs', ok')" by (metis prod_cases3)
  have g: "good_step r (r1, res)" using good_raft_step [of r ev X] Cons.prems 1 by simp
  have wf1: "raft_wf r1" using g by (simp add: good_step_def step_ok_def)
  have IH: "step_ok r1 r2" "ok' \<longrightarrow> hs' = newly_committed r1 r2"
    using Cons.IH [OF wf1 _ 2] Cons.prems(2) 1 by simp_all
  have "newly_committed r r2 = newly_committed r r1 @ newly_committed r1 r2"
    using g IH(1) Cons.prems(1) raft_wfD(2) [OF wf1]
    by (intro newly_committed_seq) (auto simp: good_step_def step_ok_def)
  moreover have "step_ok r r2" using g IH(1) step_ok_trans by (auto simp: good_step_def)
  ultimately show ?case using Cons.prems(3) 1 2 g IH(2) by (auto simp: good_step_def split: sum.splits)
qed

section \<open>Terms and votes\<close>

text \<open>The term never goes back, and a vote given in a term is kept for the whole term.\<close>

definition vote_kept :: "RaftConsensus \<Rightarrow> RaftConsensus \<Rightarrow> bool" where
  "vote_kept r r' \<longleftrightarrow> current_term r \<le> current_term r' \<and>
    (current_term r' = current_term r \<longrightarrow> voted_for r \<noteq> None \<longrightarrow> voted_for r' = voted_for r)"

text \<open>The step touches none of the election state.\<close>

definition election_frame :: "RaftConsensus \<Rightarrow> RaftConsensus \<Rightarrow> bool" where
  "election_frame r r' \<longleftrightarrow> current_term r' = current_term r \<and> voted_for r' = voted_for r \<and> role r' = role r \<and>
    votes_received r' = votes_received r \<and> r_peer_id r' = r_peer_id r \<and> r_participants r' = r_participants r"

lemma vote_kept_refl [simp]: "vote_kept r r"
  by (simp add: vote_kept_def)

lemma vote_kept_trans: "vote_kept r1 r2 \<Longrightarrow> vote_kept r2 r3 \<Longrightarrow> vote_kept r1 r3"
  unfolding vote_kept_def by (metis order_antisym order_trans)

lemma election_frame_refl [simp]: "election_frame r r"
  by (simp add: election_frame_def)

lemma election_frame_trans: "election_frame r1 r2 \<Longrightarrow> election_frame r2 r3 \<Longrightarrow> election_frame r1 r3"
  by (simp add: election_frame_def)

lemma election_frame_vote: "election_frame r r' \<Longrightarrow> vote_kept r r'"
  by (simp add: election_frame_def vote_kept_def)

lemma persist_election_frame: "election_frame r (fst (persist_log X r))"
  by (simp add: election_frame_def persist_log_def split: prod.split)

lemma advance_election_frame: "election_frame r (fst (advance_commit_index r))"
  by (simp add: election_frame_def advance_commit_index_def Let_def)

lemma own_entry_election_frame: "election_frame r (fst (append_own_entry X e r))"
proof -
  define r1 where "r1 = r\<lparr>log := log r @ [e], match_indexes := (match_indexes r)(r_peer_id r \<mapsto> le_index e)\<rparr>"
  obtain r2 cs where adv: "advance_commit_index r1 = (r2, cs)" by fastforce
  have "election_frame r r1" by (simp add: election_frame_def r1_def)
  moreover have "election_frame r1 r2" using advance_election_frame [of r1] adv by simp
  ultimately have "election_frame r (fst (persist_log X r2))"
    using persist_election_frame election_frame_trans by blast
  moreover obtain r3 pr where pers: "persist_log X r2 = (r3, pr)" by fastforce
  moreover have "fst (append_own_entry X e r) = r3"
    unfolding append_own_entry_def r1_def [symmetric] Let_def adv prod.case pers by (simp split: sum.split)
  ultimately show ?thesis by simp
qed

lemma move_staged_election_frame: "election_frame r (move_staged_blocks effs blocks r)"
  using move_staged_blocks_pending [of effs blocks r] by (auto simp: election_frame_def)

lemma append_loop_log: "\<exists>l. fst (append_loop ci es r d) = r\<lparr>log := l\<rparr>"
proof (induction es arbitrary: r d)
  case Nil
  show ?case by (auto intro: exI [of _ "log r"])
next
  case (Cons e es)
  have upd: "\<exists>l. fst (append_loop ci es (r\<lparr>log := x\<rparr>) d) = r\<lparr>log := l\<rparr>" for x d
    using Cons [of "r\<lparr>log := x\<rparr>" d] by auto
  have keep: "\<exists>l. r = r\<lparr>log := l\<rparr>" by (rule exI [of _ "log r"]) simp
  show ?case using Cons [of r d] upd keep by (simp add: Let_def split: option.split)
qed

lemma append_entries_election_frame: "election_frame r (fst (append_entries pi pt es lc r))"
proof -
  obtain l where "fst (append_loop (commit_index r) es r []) = r\<lparr>log := l\<rparr>" using append_loop_log by blast
  then show ?thesis
    by (auto simp: append_entries_def election_frame_def Let_def split: prod.split option.split)
qed

text \<open>
  What a step may do to the election state: a peer that is candidate or leader afterwards was
  so before in the same term, with no votes but the old ones and a reply just received, or it
  has just started an election with its own vote.
\<close>

definition election_step :: "raft_event \<Rightarrow> RaftConsensus \<Rightarrow> RaftConsensus \<Rightarrow> bool" where
  "election_step ev r r' \<longleftrightarrow> r_peer_id r' = r_peer_id r \<and>
    r_participants r' = (case ev of Tick now known \<Rightarrow> List.insert (r_peer_id r) (hash_set_from known) | _ \<Rightarrow> r_participants r) \<and>
    (role r' \<noteq> Follower \<longrightarrow>
      role r \<noteq> Follower \<and> current_term r' = current_term r \<and>
        set (votes_received r') \<subseteq> set (votes_received r) \<union>
          {v \<in> set (r_participants r). ev = VoteReply (current_term r) v True} \<or>
      (\<exists>now known. ev = Tick now known) \<and> voted_for r' = Some (r_peer_id r) \<and> votes_received r' = [r_peer_id r]) \<and>
    (role r' = Leader \<longrightarrow> role r = Leader \<and> current_term r' = current_term r \<or>
      majority r' \<le> length (votes_received r')) \<and>
    (distinct (votes_received r) \<longrightarrow> distinct (votes_received r'))"

definition term_room :: "RaftConsensus \<Rightarrow> bool" where
  "term_room r \<longleftrightarrow> unat (current_term r) + 1 < 2 ^ 64"

lemma election_step_frame:
  "election_step ev r r1 \<Longrightarrow> election_frame r1 r2 \<Longrightarrow> election_step ev r r2"
  unfolding election_step_def election_frame_def majority_def by (elim conjE) (simp only:)

lemma vote_kept_frame: "vote_kept r r1 \<Longrightarrow> election_frame r1 r2 \<Longrightarrow> vote_kept r r2"
  by (simp add: vote_kept_def election_frame_def)

lemma term_less_Suc: "term_room r \<Longrightarrow> current_term r < current_term r + 1"
  unfolding term_room_def word_less_nat_alt using unat_plus_u64 [of "current_term r" 1] by simp

lemma step_down_election:
  "(\<And>now known. ev \<noteq> Tick now known) \<Longrightarrow> current_term r < t \<Longrightarrow>
    election_step ev r (step_down t r) \<and> vote_kept r (step_down t r)"
  by (auto simp: election_step_def vote_kept_def step_down_def split: raft_event.split)

lemma idle_election: "(\<And>now known. ev \<noteq> Tick now known) \<Longrightarrow> election_step ev r r"
  by (auto simp: election_step_def split: raft_event.split)

lemma request_vote_election:
  "election_step (RequestVote t cand li lt src) r (fst (request_vote t cand li lt r)) \<and>
    vote_kept r (fst (request_vote t cand li lt r))"
  by (auto simp: request_vote_def election_step_def vote_kept_def step_down_def Let_def split: option.split)

lemma receive_vote_election:
  assumes "receive_vote t voter granted r = (r', b)"
  shows "election_step (VoteReply t voter granted) r r' \<and> vote_kept r r' \<and> (b \<longrightarrow> role r' = Leader)"
  using assms
  by (auto simp: receive_vote_def election_step_def vote_kept_def step_down_def become_leader_if_majority_def majority_def
      split: if_splits)

lemma receive_append_election:
  assumes "receive_append_entries_at draw t leader src now r = (r', b)"
  shows "election_step (AppendEntries draw t leader pi pt es lc src now) r r' \<and> vote_kept r r'"
  using assms
  by (auto simp: receive_append_entries_at_def election_step_def vote_kept_def step_down_def Let_def
      split: if_splits option.splits)

lemma tick_election:
  assumes "term_room r"
  shows "election_step (Tick now known) r (fst (raft_on_tick X now known r)) \<and>
    vote_kept r (fst (raft_on_tick X now known r))"
proof -
  let ?r = "update_participants known r"
  have u: "current_term ?r = current_term r" "voted_for ?r = voted_for r" "role ?r = role r"
      "r_peer_id ?r = r_peer_id r" "r_participants ?r = List.insert (r_peer_id r) (hash_set_from known)"
      "set (votes_received ?r) \<subseteq> set (votes_received r)" "distinct (votes_received r) \<Longrightarrow> distinct (votes_received ?r)"
    by (auto simp: update_participants_def Let_def)
  have stay: "election_step (Tick now known) r r' \<and> vote_kept r r'" if "election_frame ?r r'" for r'
    using that u by (auto simp: election_step_def vote_kept_def election_frame_def)
  obtain r1 b where el: "start_election_at now ?r = (r1, b)" by fastforce
  have r1: "election_step (Tick now known) r r1 \<and> vote_kept r r1"
    using el u term_less_Suc [OF assms]
    by (auto simp: start_election_at_def become_leader_if_majority_def election_step_def vote_kept_def majority_def
        split: if_splits)
  then have "election_step (Tick now known) r (fst (append_leader_noop X r1)) \<and> vote_kept r (fst (append_leader_noop X r1))"
    unfolding append_leader_noop_def using own_entry_election_frame election_step_frame vote_kept_frame by blast
  moreover obtain r2 res where "append_leader_noop X r1 = (r2, res)" by fastforce
  moreover have hb: "election_frame ?r (?r\<lparr>last_heartbeat_sent_at := Some now\<rparr>)" by (simp add: election_frame_def)
  ultimately show ?thesis
    using r1 el stay [OF election_frame_refl] stay [OF hb] by (cases res) (simp_all add: raft_on_tick_def Let_def)
qed

lemma append_reply_election:
  "election_step (AppendReply t src success mi) r (fst (raft_on_append_entries_response X t src success mi r)) \<and>
    vote_kept r (fst (raft_on_append_entries_response X t src success mi r))"
proof -
  define ev where "ev = AppendReply t src success mi"
  have nt: "ev \<noteq> Tick now known" for now known by (simp add: ev_def)
  have frame: "election_step ev r r' \<and> vote_kept r r'" if "election_frame r r'" for r'
    using that election_step_frame [OF idle_election [OF nt] that] election_frame_vote by simp
  have down: "election_step ev r (step_down_on_newer_term t r) \<and> vote_kept r (step_down_on_newer_term t r)"
      "current_term r < t \<Longrightarrow> election_step ev r (step_down t r) \<and> vote_kept r (step_down t r)"
    using step_down_election [OF nt, of r t] frame [of r] by (simp_all add: step_down_on_newer_term_def)
  let ?upd = "\<lambda>m. r\<lparr>match_indexes := (match_indexes r)(src \<mapsto> m)\<rparr>"
  have upd: "election_frame r (?upd m)" for m by (simp add: election_frame_def)
  let ?r1 = "?upd (max (case match_indexes r src of Some m \<Rightarrow> m | None \<Rightarrow> 0) mi)"
  obtain r2 cs where adv: "advance_commit_index ?r1 = (r2, cs)" by fastforce
  have r2: "election_frame r r2" using election_frame_trans [OF upd advance_election_frame] adv by (metis fst_conv)
  obtain r3 pr where pers: "persist_log X r2 = (r3, pr)" by fastforce
  have r3: "election_frame r r3" using election_frame_trans [OF r2 persist_election_frame] pers by (metis fst_conv)
  have "election_step ev r (fst (handle_leader_append_entries_response X t src success mi r)) \<and>
      vote_kept r (fst (handle_leader_append_entries_response X t src success mi r))"
    unfolding handle_leader_append_entries_response_def Let_def adv prod.case pers
    using frame [OF r2] frame [OF r3] frame [OF upd] frame [of r] down(2) by (simp split: sum.split)
  with down(1) show ?thesis unfolding ev_def [symmetric] by (simp add: raft_on_append_entries_response_def)
qed

lemma handler_frame:
  assumes rc: "receive_append_entries_at draw t leader src now r = (r1, b)"
  shows "election_frame r1 (fst (raft_on_append_entries X draw t leader pi pt es lc src now r))"
proof (cases "validate_replicated_entries X es Map.empty []")
  case (Inl e)
  with rc show ?thesis by (cases b) (simp_all add: raft_on_append_entries_def handle_append_entries_def)
next
  case (Inr p)
  then obtain les bl where v: "validate_replicated_entries X es Map.empty [] = Ok (les, bl)" by (cases p) auto
  obtain r2 oe where ae: "append_entries pi pt les lc r1 = (r2, oe)" by fastforce
  have r2: "election_frame r1 r2" using append_entries_election_frame [of r1 pi pt les lc] ae by simp
  show ?thesis
  proof (cases oe)
    case None
    with r2 rc v ae show ?thesis
      by (cases b) (simp_all add: raft_on_append_entries_def handle_append_entries_def Let_def)
  next
    case (Some effs)
    let ?r3 = "move_staged_blocks effs bl r2"
    have r3: "election_frame r1 ?r3" by (rule election_frame_trans [OF r2 move_staged_election_frame])
    obtain r4 pr where pers: "persist_log X ?r3 = (r4, pr)" by fastforce
    have "election_frame r1 r4" using election_frame_trans [OF r3 persist_election_frame] pers by (metis fst_conv)
    with r3 Some rc v ae pers show ?thesis
      by (cases b; cases pr) (simp_all add: raft_on_append_entries_def handle_append_entries_def Let_def)
  qed
qed

lemma append_entries_handler_election:
  "election_step (AppendEntries draw t leader pi pt es lc src now) r
      (fst (raft_on_append_entries X draw t leader pi pt es lc src now r)) \<and>
    vote_kept r (fst (raft_on_append_entries X draw t leader pi pt es lc src now r))"
proof -
  obtain r1 b where rc: "receive_append_entries_at draw t leader src now r = (r1, b)" by fastforce
  from receive_append_election [OF rc, of pi pt es lc] handler_frame [OF rc] show ?thesis
    using election_step_frame vote_kept_frame by blast
qed

lemma raft_step_election:
  assumes "term_room r"
  shows "election_step ev r (fst (raft_step X ev r)) \<and> vote_kept r (fst (raft_step X ev r))"
proof (cases ev)
  case (Tick now known)
  with tick_election [OF assms] show ?thesis by simp
next
  case (RequestVote t cand li lt src)
  with request_vote_election show ?thesis by (simp add: raft_on_request_vote_def split: prod.split) (metis fst_conv)
next
  case (VoteReply t voter granted)
  obtain r1 b where rv: "receive_vote t voter granted r = (r1, b)" by fastforce
  note r1 = receive_vote_election [OF rv]
  then have "election_step ev r (fst (append_leader_noop X r1)) \<and> vote_kept r (fst (append_leader_noop X r1))"
    unfolding append_leader_noop_def VoteReply using own_entry_election_frame election_step_frame vote_kept_frame by blast
  with r1 rv VoteReply step_down_election [of ev r t] idle_election [of ev r] show ?thesis
    by (cases b) (auto simp: raft_on_request_vote_response_def step_down_on_newer_term_def)
next
  case (AppendEntries draw t leader pi pt es lc src now)
  with append_entries_handler_election show ?thesis by simp
next
  case (AppendReply t src success mi)
  with append_reply_election show ?thesis by simp
next
  case (ClientTx tx)
  with idle_election [of ev r] show ?thesis
    by (auto simp: raft_on_client_transaction_def split: RaftRole.split sum.split)
next
  case (BlockCreated h)
  have "election_step ev r (fst (append_own_entry X e r)) \<and> vote_kept r (fst (append_own_entry X e r))" for e
    unfolding BlockCreated using own_entry_election_frame election_step_frame [OF idle_election] election_frame_vote by blast
  with BlockCreated idle_election [of ev r] show ?thesis
    by (auto simp: raft_on_block_created_def append_local_block_def split: RaftRole.split sum.split)
next
  case (TakePending h)
  have "election_frame r (fst (take_pending_block h r))" by (simp add: election_frame_def take_pending_block_def)
  with TakePending election_step_frame [OF idle_election] election_frame_vote show ?thesis by simp
qed

section \<open>Leader and follower\<close>

lemma contiguous_segment:
  assumes "log_ok l"
  shows "contiguous_from (word_of_nat (Suc p)) (take n (drop p l))"
  using assms
proof (induction n arbitrary: p)
  case (Suc n)
  show ?case
  proof (cases "p < length l")
    case True
    then have "take (Suc n) (drop p l) = l ! p # take n (drop (Suc p) l)" by (simp add: Cons_nth_drop_Suc [symmetric])
    moreover have "word_of_nat (Suc p) + 1 = (word_of_nat (Suc (Suc p)) :: u64)" by simp
    ultimately show ?thesis using Suc.IH [OF Suc.prems, of "Suc p"] log_ok_nth [OF Suc.prems True]
      by (simp del: of_nat_Suc)
  qed simp
qed simp

lemma agree_len_stop:
  "agree_len xs ys < length xs \<Longrightarrow> agree_len xs ys < length ys \<Longrightarrow>
    le_term (xs ! agree_len xs ys) \<noteq> le_term (ys ! agree_len xs ys)"
  by (induction xs ys rule: agree_len.induct) auto

lemma same_terms_nth:
  "same_terms (take n xs) (take n ys) \<Longrightarrow> i < n \<Longrightarrow> i < length xs \<Longrightarrow> i < length ys \<Longrightarrow>
    le_term (xs ! i) = le_term (ys ! i)"
  unfolding same_terms_def by (metis length_take min_less_iff_conj nth_map nth_take)

text \<open>
  The premises of log matching for one exchange: the two logs agree up to the index that
  precedes the batch and on what the follower has committed.
\<close>

definition logs_match_below :: "u64 \<Rightarrow> RaftConsensus \<Rightarrow> RaftConsensus \<Rightarrow> bool" where
  "logs_match_below ix l f \<longleftrightarrow> unat ix \<le> length (log f) \<and> same_terms (take (unat ix) (log l)) (take (unat ix) (log f)) \<and>
    unat (commit_index f) \<le> length (log l) \<and>
    same_terms (take (unat (commit_index f)) (log l)) (take (unat (commit_index f)) (log f))"

lemma batch_accepted:
  assumes l: "log_ok (log l)" and f: "raft_wf f" and "unat pi \<le> length (log l)"
    and m: "logs_match_below pi l f" and es: "es = take n (drop (unat pi) (log l))"
    and pt: "pt = (if pi = 0 then 0 else le_term (log l ! (unat pi - 1)))"
  shows "accepts pi pt es f"
proof -
  let ?p = "unat pi"
  let ?k = "agree_len (drop ?p (log f)) es"
  have "term_at f pi = Some pt"
    using raft_wfD(1) [OF f] m assms(3) same_terms_nth [of ?p "log l" "log f" "?p - 1"]
    by (auto simp: term_at_nth pt logs_match_below_def unat_gt_0 unat_eq_zero)
  moreover have "entries_are_contiguous_after pi es"
    using contiguous_segment [OF l, of ?p n] by (simp add: entries_are_contiguous_after_def es add.commute)
  moreover have "?k = length es \<or> unat (commit_index f) \<le> ?p + ?k"
  proof (rule ccontr)
    assume "\<not> (?k = length es \<or> unat (commit_index f) \<le> ?p + ?k)"
    then have lt: "?k \<noteq> length es" "?p + ?k < unat (commit_index f)" by auto
    have k: "?k < length es" using lt(1) agree_len_le(2) [of "drop ?p (log f)" es] by simp
    have fl: "?p + ?k < length (log f)" "?p + ?k < length (log l)"
      using lt(2) raft_wfD(2) [OF f] m by (auto simp: logs_match_below_def)
    have "le_term (log l ! (?p + ?k)) = le_term (log f ! (?p + ?k))"
      using m fl lt(2) same_terms_nth [of "unat (commit_index f)" "log l" "log f"] by (simp add: logs_match_below_def)
    moreover have "le_term (log f ! (?p + ?k)) \<noteq> le_term (es ! ?k)"
      using agree_len_stop [of "drop ?p (log f)" es] k fl by simp
    moreover have "es ! ?k = log l ! (?p + ?k)" using k fl by (simp add: es)
    ultimately show False by simp
  qed
  ultimately show ?thesis by (simp add: accepts_def Let_def)
qed

lemma same_termsI:
  assumes "n \<le> length xs" "n \<le> length ys" and "\<And>i. i < n \<Longrightarrow> le_term (xs ! i) = le_term (ys ! i)"
  shows "same_terms (take n xs) (take n ys)"
  using assms unfolding same_terms_def by (intro nth_equalityI) auto

interpretation rq: quorum_system "sized_quorum (\<lambda>n. n div 2 + 1)"
proof unfold_locales
  fix U P Q :: "'b set"
  have "card U < 2 * (card U div 2 + 1)" by simp
  then show "sized_quorum (\<lambda>n. n div 2 + 1) U P \<Longrightarrow> sized_quorum (\<lambda>n. n div 2 + 1) U Q \<Longrightarrow> P \<inter> Q \<noteq> {}"
    using sized_quorum_inter [of "\<lambda>n. n div 2 + 1" U P Q] by blast
qed (simp add: sized_quorum_def)

lemma majority_quorum:
  assumes "distinct (r_participants r)" and "majority r \<le> length (filter P (r_participants r))"
  shows "sized_quorum (\<lambda>n. n div 2 + 1) (set (r_participants r)) {p \<in> set (r_participants r). P p}"
proof -
  have "card {p \<in> set (r_participants r). P p} = length (filter P (r_participants r))"
    using assms(1) by (metis distinct_card distinct_filter set_filter)
  with assms show ?thesis by (auto simp: sized_quorum_def majority_def distinct_card)
qed

section \<open>Grants along runs\<close>

fun run_term_room :: "('a) raft_ext_scheme \<Rightarrow> raft_event list \<Rightarrow> RaftConsensus \<Rightarrow> bool" where
  "run_term_room X [] r = True"
| "run_term_room X (ev # evs) r = (term_room r \<and> run_term_room X evs (fst (raft_step X ev r)))"

lemma raft_run_vote_kept: "run_term_room X evs r \<Longrightarrow> vote_kept r (fst (raft_run X evs r))"
proof (induction evs arbitrary: r)
  case (Cons ev evs)
  obtain r1 res where 1: "raft_step X ev r = (r1, res)" by fastforce
  then have "vote_kept r r1" "run_term_room X evs r1"
    using raft_step_election [of r ev X] Cons.prems by simp_all
  with Cons.IH [of r1] 1 show ?case by (auto intro: vote_kept_trans split: prod.splits)
qed simp

lemma grant:
  assumes "raft_on_request_vote t c li lt src r = (r', Ok [Send src (RaftRequestVoteResponse t' True)])"
  shows "t' = t" "current_term r' = t" "voted_for r' = Some c" "current_term r \<le> t"
    "current_term r = t \<Longrightarrow> voted_for r \<noteq> None \<Longrightarrow> voted_for r = Some c"
  using assms
  by (auto simp: raft_on_request_vote_def request_vote_def step_down_def Let_def
      split: if_splits option.splits prod.splits)

section \<open>The branches of append entries\<close>

lemma agree_len_stops: "agree_len xs ys < length xs \<Longrightarrow> agree_len xs ys < length ys \<Longrightarrow>
    le_term (xs ! agree_len xs ys) \<noteq> le_term (ys ! agree_len xs ys)"
  by (induction xs ys rule: agree_len.induct) (auto split: if_splits)

lemma contiguous_from_iff: "contiguous_from ix es \<longleftrightarrow> (\<forall>i < length es. le_index (es ! i) = ix + word_of_nat i)"
proof
  show "\<forall>i < length es. le_index (es ! i) = ix + word_of_nat i \<Longrightarrow> contiguous_from ix es"
  proof (induction es arbitrary: ix)
    case (Cons e es)
    have "le_index (es ! i) = ix + 1 + word_of_nat i" if "i < length es" for i
      using Cons.prems [rule_format, of "Suc i"] that by (simp add: algebra_simps)
    then show ?case
      using Cons.IH [of "ix + 1"] Cons.prems [rule_format, of 0] by simp
  qed simp
qed (auto simp: contiguous_nth)

lemma committed_conflict:
  assumes "raft_wf r" "p \<le> length (log r)"
  shows "(let k = agree_len (drop p (log r)) es in k = length es \<or> unat (commit_index r) \<le> p + k) \<longleftrightarrow>
    (\<forall>i < length es. p + i < unat (commit_index r) \<longrightarrow> le_term (log r ! (p + i)) = le_term (es ! i))"
    (is "?L \<longleftrightarrow> ?R")
proof -
  define k where "k = agree_len (drop p (log r)) es"
  have k: "k \<le> length es" "p + k \<le> length (log r)"
    using agree_len_le [of "drop p (log r)" es] assms(2) by (simp_all add: k_def)
  have agree: "le_term (log r ! (p + i)) = le_term (es ! i)" if "i < k" for i
    using agree_len_terms [of i "drop p (log r)" es] that k by (simp add: k_def)
  have stop: "le_term (log r ! (p + k)) \<noteq> le_term (es ! k)" if "k < length es" "p + k < length (log r)"
    using agree_len_stops [of "drop p (log r)" es] that by (simp add: k_def)
  have ci: "unat (commit_index r) \<le> length (log r)"
    by (rule raft_wfD(2) [OF assms(1)])
  have "?L \<longleftrightarrow> k = length es \<or> unat (commit_index r) \<le> p + k"
    by (simp add: k_def Let_def)
  also have "\<dots> \<longleftrightarrow> ?R"
  proof
    assume "k = length es \<or> unat (commit_index r) \<le> p + k"
    then show ?R
      using agree by auto
  next
    assume ?R
    then show "k = length es \<or> unat (commit_index r) \<le> p + k"
      using stop k ci by (metis le_neq_implies_less less_le_trans not_less)
  qed
  finally show ?thesis .
qed

lemma accepts_iff:
  assumes "raft_wf r"
  shows "accepts prev_ix prev_t es r \<longleftrightarrow> term_at r prev_ix = Some prev_t \<and>
    (\<forall>i < length es. le_index (es ! i) = prev_ix + 1 + word_of_nat i) \<and>
    (\<forall>i < length es. unat prev_ix + i < unat (commit_index r) \<longrightarrow>
      le_term (log r ! (unat prev_ix + i)) = le_term (es ! i))"
proof (cases "term_at r prev_ix = Some prev_t")
  case True
  then have "unat prev_ix \<le> length (log r)"
    using term_at_Some_length [OF raft_wfD(1) [OF assms]] by blast
  then show ?thesis
    using True committed_conflict [OF assms, of "unat prev_ix" es]
    by (simp add: accepts_def entries_are_contiguous_after_def contiguous_from_iff)
qed (simp add: accepts_def)

lemma merged_log_ok:
  assumes "raft_wf r" "accepts prev_ix prev_t es r" "unat prev_ix + length es < 2 ^ 64"
  shows "log_ok (merge_log (unat prev_ix) es (log r))"
  using raft_wfD(1) [OF assms(1)] accepts_contiguous [OF assms(2)] accepts_prev [OF raft_wfD(1) [OF assms(1)] assms(2)] assms(3)
  by (rule merge_log_ok)

lemma append_entries_merges:
  assumes "raft_wf r" "accepts prev_ix prev_t es r" "unat prev_ix + length es < 2 ^ 64"
  shows "\<exists>k l ci. k \<le> length es \<and>
    (\<forall>i < k. unat prev_ix + i < length (log r) \<and> le_term (log r ! (unat prev_ix + i)) = le_term (es ! i)) \<and>
    (k < length es \<and> unat prev_ix + k < length (log r) \<longrightarrow> le_term (log r ! (unat prev_ix + k)) \<noteq> le_term (es ! k)) \<and>
    l = (if k = length es then log r else take (unat prev_ix + k) (log r) @ drop k es) \<and>
    ci = max (commit_index r) (min lc (word_of_nat (length l))) \<and>
    append_entries prev_ix prev_t es lc r =
      (r\<lparr>log := l, commit_index := ci\<rparr>,
       Some (map RollbackBlock (block_hashes (if k = length es then [] else drop (unat prev_ix + k) (log r))) @
         (case filter (\<lambda>e. commit_index r < le_index e \<and> \<not> is_noop e) es of [] \<Rightarrow> [] | staged \<Rightarrow> [StageRaftEntries staged]) @
         map CommitBlock (block_hashes (drop (unat (commit_index r)) (take (unat ci) l)))))"
proof -
  let ?p = "unat prev_ix"
  let ?k = "agree_len (drop ?p (log r)) es"
  let ?l = "merge_log ?p es (log r)"
  let ?m = "merged prev_ix es lc r"
  have k: "?k \<le> length es" "?p + ?k \<le> length (log r)"
    using agree_len_le [of "drop ?p (log r)" es] accepts_prev [OF raft_wfD(1) [OF assms(1)] assms(2)] by simp_all
  have agree: "?p + i < length (log r) \<and> le_term (log r ! (?p + i)) = le_term (es ! i)" if "i < ?k" for i
    using agree_len_terms [OF that] that k by simp
  have stop: "le_term (log r ! (?p + ?k)) \<noteq> le_term (es ! ?k)" if "?k < length es" "?p + ?k < length (log r)"
    using agree_len_stops [of "drop ?p (log r)" es] that by simp
  have l: "?l = (if ?k = length es then log r else take (?p + ?k) (log r) @ drop ?k es)"
    by (simp add: merge_log_def Let_def)
  have ok: "log_ok ?l"
    by (rule merged_log_ok [OF assms])
  have m: "?m = r\<lparr>log := ?l, commit_index := max (commit_index r) (min lc (word_of_nat (length ?l)))\<rparr>"
    using word_of_unat [OF unat_last_log_index [of "r\<lparr>log := ?l\<rparr>"]] ok by (simp add: merged_def Let_def)
  have "commit_effects (commit_index r) ?m =
      map CommitBlock (block_hashes (drop (unat (commit_index r)) (take (unat (commit_index ?m)) ?l)))"
    using commit_effects_segment [of ?m "commit_index r"] ok by (simp add: m)
  then have "append_entries prev_ix prev_t es lc r = (?m,
      Some (map RollbackBlock (block_hashes (if ?k = length es then [] else drop (?p + ?k) (log r))) @
        (case filter (\<lambda>e. commit_index r < le_index e \<and> \<not> is_noop e) es of [] \<Rightarrow> [] | staged \<Rightarrow> [StageRaftEntries staged]) @
        map CommitBlock (block_hashes (drop (unat (commit_index r)) (take (unat (commit_index ?m)) ?l)))))"
    using assms(2) append_entries_spec [OF raft_wfD(1,2) [OF assms(1)] assms(3), of prev_t lc]
    by (simp add: discarded_by_def to_stage_def Let_def split: list.split)
  then have all: "append_entries prev_ix prev_t es lc r =
      (r\<lparr>log := ?l, commit_index := max (commit_index r) (min lc (word_of_nat (length ?l)))\<rparr>,
      Some (map RollbackBlock (block_hashes (if ?k = length es then [] else drop (?p + ?k) (log r))) @
        (case filter (\<lambda>e. commit_index r < le_index e \<and> \<not> is_noop e) es of [] \<Rightarrow> [] | staged \<Rightarrow> [StageRaftEntries staged]) @
        map CommitBlock (block_hashes (drop (unat (commit_index r))
          (take (unat (max (commit_index r) (min lc (word_of_nat (length ?l))))) ?l)))))"
    unfolding m by simp
  show ?thesis
    by (rule exI [of _ ?k], rule exI [of _ ?l], intro exI conjI allI impI)
      (use k(1) agree stop l all in \<open>simp_all only:\<close>, blast+)
qed

section \<open>Concrete inputs\<close>

definition test_entry :: "nat \<Rightarrow> u64 \<Rightarrow> u8 \<Rightarrow> RaftLogEntry" where
  "test_entry i t h = \<lparr>le_term = t, le_index = word_of_nat i, le_block_hash = BlockHash [h]\<rparr>"

definition test_raft :: "u32 \<Rightarrow> RaftLogEntry list \<Rightarrow> u64 \<Rightarrow> RaftConsensus" where
  "test_raft me l ci = (new_with_log 0 0 (PeerId me) l ci (InMemory InMemory_new))\<lparr>
    r_participants := [PeerId 1, PeerId 2, PeerId 3]\<rparr>"

definition test_raft_ext :: raft_ext where
  "test_raft_ext = block_ext.extend (test_block_ext (\<lambda>_. None)) (raft_ext.fields (\<lambda>_. []) (\<lambda>_. None))"

abbreviation test_log :: "u64 \<Rightarrow> u8 \<Rightarrow> RaftLogEntry list" where
  "test_log t h \<equiv> [test_entry 1 1 11, test_entry 2 1 12, test_entry 3 1 13, test_entry 4 1 14, test_entry 5 1 15, test_entry 6 t h]"

lemma test_raft_sel [simp]:
  "log (test_raft me l ci) = l" "commit_index (test_raft me l ci) = min ci (if l = [] then 0 else le_index (last l))"
  "r_participants (test_raft me l ci) = [PeerId 1, PeerId 2, PeerId 3]" "r_peer_id (test_raft me l ci) = PeerId me"
  "votes_received (test_raft me l ci) = []" "current_term (test_raft me l ci) = 0" "voted_for (test_raft me l ci) = None"
  "role (test_raft me l ci) = Follower" "match_indexes (test_raft me l ci) = Map.empty"
  by (simp_all add: test_raft_def new_with_log_def)

lemma test_entry_not_noop [simp]: "\<not> is_noop (test_entry i t h)"
  by (auto simp: is_noop_def test_entry_def EMPTY_HASH_def dest: arg_cong [of _ _ length])

lemma test_entry_sel [simp]: "le_block_hash (test_entry i t h) = BlockHash [h]" "le_term (test_entry i t h) = t"
  by (simp_all add: test_entry_def)

lemma test_log_ok: "log_ok (test_log t h)"
  by (simp add: log_ok_code test_entry_def)

lemma test_raft_wf:
  "me \<in> {1, 2, 3} \<Longrightarrow> raft_wf (test_raft me [] ci)"
  "me \<in> {1, 2, 3} \<Longrightarrow> ci \<le> 6 \<Longrightarrow> raft_wf (test_raft me (test_log t h) ci)"
  using test_log_ok [of t h]
  by (auto simp: raft_wf_def test_entry_def word_le_nat_alt min_def)

section \<open>Properties\<close>

text \<open>
  C8. Committed entries are stable: along any run of handler calls, failing ones included, the
  peer's log stays well-formed (entry \<open>i\<close> has index \<open>i + 1\<close>), the commit index stays within it
  and never goes back, and no committed entry is ever changed or truncated.
\<close>
theorem raft_committed_stable:
  assumes "raft_wf r" and "run_room X evs r" and "raft_run X evs r = (r', hs, ok)"
  shows "raft_wf r' \<and> commit_index r \<le> commit_index r' \<and>
    take (unat (commit_index r)) (log r') = take (unat (commit_index r)) (log r)"
  using raft_run_good [OF assms] by (simp add: step_ok_def keeps_committed_def)

theorem raft_committed_stable_witness:
  "raft_wf (fst (raft_run test_raft_ext [RequestVote 4 (PeerId 2) 6 3 (PeerId 2), ClientTx (test_coin 1)]
     (test_raft 1 (test_log 2 99) 6)))"
proof -
  have "raft_wf (test_raft 1 (test_log 2 99) 6)" by (rule test_raft_wf) simp_all
  from raft_committed_stable [OF this, of test_raft_ext "[RequestVote 4 (PeerId 2) 6 3 (PeerId 2), ClientTx (test_coin 1)]"]
  show ?thesis
    by (cases "raft_run test_raft_ext [RequestVote 4 (PeerId 2) 6 3 (PeerId 2), ClientTx (test_coin 1)]
      (test_raft 1 (test_log 2 99) 6)")
      (auto simp: raft_on_request_vote_def request_vote_def candidate_log_is_up_to_date_def last_log_term_def
        last_log_index_def step_down_def test_entry_def)
qed

text \<open>
  C9. Commit effects are exact: along a run whose calls all return \<open>Ok\<close>, the blocks of the
  emitted \<open>CommitBlock\<close> effects are, in order and each once, the blocks of the log entries
  between the commit index before the run and the one after it (no-ops commit no block).
\<close>
theorem raft_commits_exact:
  assumes "raft_wf r" and "run_room X evs r" and "raft_run X evs r = (r', hs, True)"
  shows "hs = block_hashes (drop (unat (commit_index r)) (take (unat (commit_index r')) (log r')))"
  using raft_run_good [OF assms] by (simp add: newly_committed_def)

theorem raft_commits_exact_witness:
  "\<exists>r'. raft_run test_raft_ext [AppendReply 2 (PeerId 2) True 6] ((test_raft 1 (test_log 2 99) 4)\<lparr>role := Leader, current_term := 2,
      match_indexes := [PeerId 1 \<mapsto> 6]\<rparr>) = (r', [BlockHash [15], BlockHash [99]], True)"
proof -
  let ?evs = "[AppendReply 2 (PeerId 2) True 6]" and
    ?r = "(test_raft 1 (test_log 2 99) 4)\<lparr>role := Leader, current_term := 2, match_indexes := [PeerId 1 \<mapsto> 6]\<rparr>"
  have wf: "raft_wf ?r" using test_raft_wf(2) [of 1 4 2 99] by (simp add: raft_wf_def)
  obtain r' hs where run: "raft_run test_raft_ext ?evs ?r = (r', hs, True)" "log r' = test_log 2 99" "commit_index r' = 6"
    by (simp add: raft_on_append_entries_response_def handle_leader_append_entries_response_def advance_commit_index_def
        replicated_count_def majority_def persist_log_def InMemory_save_def test_raft_def new_with_log_def test_entry_def Let_def)
  have "commit_index ?r = 4"
    by (simp add: test_entry_def)
  then have "hs = block_hashes (drop (unat (4::u64)) (take (unat (6::u64)) (test_log 2 99)))"
    using raft_commits_exact [OF wf _ run(1)] run(2,3) by simp
  also have "\<dots> = [BlockHash [15], BlockHash [99]]"
    by (simp add: block_hashes_def)
  finally show ?thesis
    using run(1) by blast
qed
text \<open>
  C13. What a follower does with a batch, on every branch. It refuses, and changes nothing, exactly if its
  own term at the preceding index differs, the indexes of the batch do not follow on that index,
  or an entry of the batch has another term than a committed entry at its place. Otherwise, with \<open>k\<close>
  the number of leading entries it has already (by term), the log is unchanged if that is all of
  them, and else cut after these and continued with the rest; the commit index becomes the leader's,
  at most the last index of the log, and never goes back; and the effects are, in this order, the rollback
  of the blocks cut off, the staging of the batch's blocks beyond the old commit index, and the commit of the
  blocks between the old and the new commit index.
\<close>

theorem append_entries_contract:
  assumes "raft_wf r" and "unat prev_ix + length es < 2 ^ 64"
  shows "if term_at r prev_ix \<noteq> Some prev_t \<or>
      (\<exists>i < length es. le_index (es ! i) \<noteq> prev_ix + 1 + word_of_nat i) \<or>
      (\<exists>i < length es. unat prev_ix + i < unat (commit_index r) \<and> le_term (log r ! (unat prev_ix + i)) \<noteq> le_term (es ! i))
    then append_entries prev_ix prev_t es lc r = (r, None)
    else \<exists>k l ci. k \<le> length es \<and>
      (\<forall>i < k. unat prev_ix + i < length (log r) \<and> le_term (log r ! (unat prev_ix + i)) = le_term (es ! i)) \<and>
      (k < length es \<and> unat prev_ix + k < length (log r) \<longrightarrow> le_term (log r ! (unat prev_ix + k)) \<noteq> le_term (es ! k)) \<and>
      l = (if k = length es then log r else take (unat prev_ix + k) (log r) @ drop k es) \<and>
      ci = max (commit_index r) (min lc (word_of_nat (length l))) \<and>
      append_entries prev_ix prev_t es lc r =
        (r\<lparr>log := l, commit_index := ci\<rparr>,
         Some (map RollbackBlock (block_hashes (if k = length es then [] else drop (unat prev_ix + k) (log r))) @
           (case filter (\<lambda>e. commit_index r < le_index e \<and> \<not> is_noop e) es of [] \<Rightarrow> [] | staged \<Rightarrow> [StageRaftEntries staged]) @
           map CommitBlock (block_hashes (drop (unat (commit_index r)) (take (unat ci) l)))))"
proof (cases "accepts prev_ix prev_t es r")
  case True
  moreover from this have "\<not> (term_at r prev_ix \<noteq> Some prev_t \<or>
      (\<exists>i < length es. le_index (es ! i) \<noteq> prev_ix + 1 + word_of_nat i) \<or>
      (\<exists>i < length es. unat prev_ix + i < unat (commit_index r) \<and> le_term (log r ! (unat prev_ix + i)) \<noteq> le_term (es ! i)))"
    unfolding accepts_iff [OF assms(1)] by blast
  ultimately show ?thesis
    using append_entries_merges [OF assms(1) _ assms(2)] by (simp only: if_False)
next
  case False
  then have "append_entries prev_ix prev_t es lc r = (r, None)"
    using append_entries_spec [OF raft_wfD(1,2) [OF assms(1)] assms(2)] by simp
  moreover have "term_at r prev_ix \<noteq> Some prev_t \<or>
      (\<exists>i < length es. le_index (es ! i) \<noteq> prev_ix + 1 + word_of_nat i) \<or>
      (\<exists>i < length es. unat prev_ix + i < unat (commit_index r) \<and> le_term (log r ! (unat prev_ix + i)) \<noteq> le_term (es ! i))"
    using False unfolding accepts_iff [OF assms(1)] by blast
  ultimately show ?thesis
    by (simp only: if_True)
qed

theorem append_entries_contract_witness:
  "(\<exists>r'. append_entries 5 1 [test_entry 6 3 77] 6 (test_raft 1 (test_log 2 99) 4) =
      (r', Some [RollbackBlock (BlockHash [99]), StageRaftEntries [test_entry 6 3 77],
        CommitBlock (BlockHash [15]), CommitBlock (BlockHash [77])])) \<and>
   append_entries 3 1 [test_entry 4 3 77] 6 (test_raft 1 (test_log 2 99) 4) = (test_raft 1 (test_log 2 99) 4, None)"
proof -
  define r where "r = test_raft 1 (test_log 2 99) 4"
  have wf: "raft_wf r" using test_raft_wf(2) [of 1 4 2 99] by (simp add: r_def)
  have r: "log r = test_log 2 99" "commit_index r = 4"
    by (simp_all add: r_def test_entry_def)
  have t: "term_at r 5 = Some 1" by (simp add: term_at_def log_entry_def r) (simp add: test_entry_def)
  have refused: "append_entries 3 1 [test_entry 4 3 77] 6 r = (r, None)"
  proof -
    have yes: "term_at r 3 \<noteq> Some 1 \<or>
      (\<exists>i < length [test_entry 4 3 77]. le_index ([test_entry 4 3 77] ! i) \<noteq> 3 + 1 + word_of_nat i) \<or>
      (\<exists>i < length [test_entry 4 3 77]. unat (3::u64) + i < unat (commit_index r) \<and>
        le_term (log r ! (unat (3::u64) + i)) \<noteq> le_term ([test_entry 4 3 77] ! i))"
      by (rule disjI2, rule disjI2, rule exI [of _ 0]) (simp add: r)
    show ?thesis
      using append_entries_contract [OF wf, of 3 "[test_entry 4 3 77]" 1 6] unfolding if_P [OF yes] by simp
  qed
  have e: "le_index (test_entry 6 3 77) = 6" by (simp add: test_entry_def)
  have no: "\<not> (term_at r 5 \<noteq> Some 1 \<or>
      (\<exists>i < length [test_entry 6 3 77]. le_index ([test_entry 6 3 77] ! i) \<noteq> 5 + 1 + word_of_nat i) \<or>
      (\<exists>i < length [test_entry 6 3 77]. unat (5::u64) + i < unat (commit_index r) \<and>
        le_term (log r ! (unat (5::u64) + i)) \<noteq> le_term ([test_entry 6 3 77] ! i)))"
    by (simp add: r t e)
  have staged: "filter (\<lambda>x. commit_index r < le_index x \<and> \<not> is_noop x) [test_entry 6 3 77] = [test_entry 6 3 77]"
    by (simp add: r e)
  obtain k l ci where k: "k \<le> length [test_entry 6 3 77]"
      "\<forall>i < k. unat (5::u64) + i < length (log r) \<and> le_term (log r ! (unat (5::u64) + i)) = le_term ([test_entry 6 3 77] ! i)"
    and l: "l = (if k = length [test_entry 6 3 77] then log r else take (unat (5::u64) + k) (log r) @ drop k [test_entry 6 3 77])"
      "ci = max (commit_index r) (min 6 (word_of_nat (length l)))"
    and a: "append_entries 5 1 [test_entry 6 3 77] 6 r =
        (r\<lparr>log := l, commit_index := ci\<rparr>,
         Some (map RollbackBlock (block_hashes (if k = length [test_entry 6 3 77] then [] else drop (unat (5::u64) + k) (log r))) @
           [StageRaftEntries [test_entry 6 3 77]] @
           map CommitBlock (block_hashes (drop (unat (commit_index r)) (take (unat ci) l)))))"
    using append_entries_contract [OF wf, of 5 "[test_entry 6 3 77]" 1 6] unfolding if_not_P [OF no] staged list.case by auto
  have "k = 0" using k by (cases k) (auto simp: r)
  with l a have "\<exists>r'. append_entries 5 1 [test_entry 6 3 77] 6 r =
      (r', Some [RollbackBlock (BlockHash [99]), StageRaftEntries [test_entry 6 3 77],
        CommitBlock (BlockHash [15]), CommitBlock (BlockHash [77])])"
    by (simp add: r block_hashes_def)
  with refused show ?thesis
    by (simp add: r_def)
qed

text \<open>
  A leader advances its commit index only to an entry of its own term that a majority of
  the participants has reported, and to the last such entry; otherwise it stays.
\<close>
theorem advance_commit_majority:
  assumes "raft_wf r" and "advance_commit_index r = (r', effs)"
  shows "(commit_index r' = commit_index r \<or>
      (\<exists>e \<in> set (log r). le_index e = commit_index r' \<and> commit_index r < commit_index r' \<and>
        le_term e = current_term r \<and>
        sized_quorum (\<lambda>n. n div 2 + 1) (set (r_participants r))
          {p \<in> set (r_participants r). \<exists>mi. match_indexes r p = Some mi \<and> commit_index r' \<le> mi})) \<and>
    (\<forall>e \<in> set (log r). le_term e = current_term r \<and> majority r \<le> replicated_count r (le_index e) \<longrightarrow>
      le_index e \<le> commit_index r')"
proof -
  have ci: "commit_index r' = find_commit r (rev (log r))"
    using advance_commit_index_sel(2) [of r] assms(2) by simp
  have pred: "(\<exists>mi. match_indexes r p = Some mi \<and> ix \<le> mi) =
      (case match_indexes r p of Some mi \<Rightarrow> ix \<le> mi | None \<Rightarrow> False)" for p ix
    by (simp split: option.split)
  have "sized_quorum (\<lambda>n. n div 2 + 1) (set (r_participants r))
      {p \<in> set (r_participants r). \<exists>mi. match_indexes r p = Some mi \<and> ix \<le> mi}"
    if "majority r \<le> replicated_count r ix" for ix
    unfolding pred using that raft_wfD(3) [OF assms(1)] by (intro majority_quorum) (simp_all add: replicated_count_def)
  then have "find_commit r (rev (log r)) = commit_index r \<or> (\<exists>e \<in> set (log r). le_index e = find_commit r (rev (log r)) \<and>
        commit_index r < find_commit r (rev (log r)) \<and> le_term e = current_term r \<and>
        sized_quorum (\<lambda>n. n div 2 + 1) (set (r_participants r))
          {p \<in> set (r_participants r). \<exists>mi. match_indexes r p = Some mi \<and> find_commit r (rev (log r)) \<le> mi})"
    using find_commit_cases [of r "rev (log r)"] by (auto simp del: ex_simps)
  then show ?thesis
    using find_commit_max [OF log_ok_sorted_rev [OF raft_wfD(1) [OF assms(1)]], of _ r] unfolding ci by auto
qed

theorem advance_commit_majority_witness:
  "let r = (test_raft 1 (test_log 2 99) 4)\<lparr>current_term := 2, match_indexes := [PeerId 1 \<mapsto> 6, PeerId 2 \<mapsto> 6]\<rparr>
   in commit_index (fst (advance_commit_index r)) = 6"
proof -
  define r where "r = (test_raft 1 (test_log 2 99) 4)\<lparr>current_term := 2, match_indexes := [PeerId 1 \<mapsto> 6, PeerId 2 \<mapsto> 6]\<rparr>"
  have wf: "raft_wf r" using test_raft_wf(2) [of 1 4 2 99] by (simp add: r_def raft_wf_def)
  obtain r' effs where 1: "advance_commit_index r = (r', effs)" by fastforce
  have e: "test_entry 6 2 99 \<in> set (log r)" by (simp add: r_def)
  have "majority r \<le> replicated_count r (le_index (test_entry 6 2 99))"
    by (simp add: r_def majority_def replicated_count_def test_entry_def)
  then have "6 \<le> commit_index r'"
    using advance_commit_majority [OF wf 1, THEN conjunct2, rule_format, OF e] by (simp add: r_def test_entry_def)
  moreover have "commit_index r' \<le> 6"
    using advance_commit_step(1) [OF wf] advance_commit_index_sel(1) [of r] 1
    by (simp add: step_ok_def raft_wf_def word_le_nat_alt) (simp add: r_def)
  ultimately show ?thesis unfolding r_def [symmetric] Let_def 1 fst_conv by (intro order_antisym)
qed

text \<open>
  One exchange of the replication protocol: what the leader sends a follower is at most five
  consecutive entries of its log, starting after the index it believes matched, with the term of
  the entry there; if the logs agree up to that index and on what the follower has committed,
  the follower accepts, and afterwards the two logs agree on all the entries sent and before.
\<close>
theorem replication_round:
  assumes "raft_wf l" and "raft_wf f" and "logs_match_below pi l f"
    and "append_entries_effect_for l p = Some (SendRaftAppendEntries to t pi pt es lc)"
  shows "length es \<le> 5 \<and> es = take 5 (drop (unat pi) (log l)) \<and>
    (\<exists>f' effs. append_entries pi pt es lc f = (f', Some effs) \<and>
      unat pi + length es \<le> length (log f') \<and>
      same_terms (take (unat pi + length es) (log l)) (take (unat pi + length es) (log f')))"
proof -
  have ok: "log_ok (log l)" by (rule raft_wfD(1) [OF assms(1)])
  have "unat pi \<le> length (log l) \<and> es = take MAX_APPEND_ENTRIES (drop (unat pi) (log l)) \<and>
      pt = (if pi = 0 then 0 else le_term (log l ! (unat pi - 1)))"
    by (rule append_entries_effect_for_segment [OF ok assms(4)]) simp
  then have pi: "unat pi \<le> length (log l)" and es: "es = take MAX_APPEND_ENTRIES (drop (unat pi) (log l))"
    and pt: "pt = (if pi = 0 then 0 else le_term (log l ! (unat pi - 1)))" by simp_all
  have acc: "accepts pi pt es f" by (rule batch_accepted [OF ok assms(2) pi assms(3) es pt])
  have n: "unat pi + length es \<le> length (log l)" using pi by (simp add: es)
  then have room: "unat pi + length es < 2 ^ 64" using log_ok_length [OF ok] by simp
  have p: "unat pi \<le> length (log f)" using assms(3) by (simp add: logs_match_below_def)
  let ?f = "merged pi es lc f"
  have lg: "log ?f = merge_log (unat pi) es (log f)" by (simp add: merged_def Let_def)
  note m = merge_log_terms [OF p, where es = es]
  have "le_term (log l ! i) = le_term (log ?f ! i)" if i: "i < unat pi + length es" for i
  proof (cases "i < unat pi")
    case True
    then have "log ?f ! i = log f ! i" using m(3) lg by (metis nth_take)
    with True pi p same_terms_nth [of "unat pi" "log l" "log f" i] assms(3) show ?thesis
      by (simp add: logs_match_below_def)
  next
    case False
    then have "le_term (log ?f ! i) = le_term (es ! (i - unat pi))" using m(2) [of "i - unat pi"] i lg by simp
    with False i n show ?thesis by (simp add: es)
  qed
  then have "same_terms (take (unat pi + length es) (log l)) (take (unat pi + length es) (log ?f))"
    using m(1) lg n by (intro same_termsI) simp_all
  moreover obtain effs where "append_entries pi pt es lc f = (?f, Some effs)"
    using acc append_entries_spec [OF raft_wfD(1,2) [OF assms(2)] room, of pt lc] by simp
  moreover have "unat pi + length es \<le> length (log ?f)" using m(1) lg by simp
  moreover have "es = take 5 (drop (unat pi) (log l))" "length es \<le> 5" using es by (simp_all add: MAX_APPEND_ENTRIES_def)
  ultimately show ?thesis by blast
qed

theorem replication_round_witness:
  "\<exists>f' effs. append_entries 0 0 (take 5 (test_log 2 99)) 0 (test_raft 2 [] 0) = (f', Some effs) \<and> 5 \<le> length (log f')"
proof -
  have wf: "raft_wf (test_raft 1 (test_log 2 99) 4)" "raft_wf (test_raft 2 [] 0)" by (rule test_raft_wf; simp)+
  have m: "logs_match_below 0 (test_raft 1 (test_log 2 99) 0) (test_raft 2 [] 0)"
    by (simp add: logs_match_below_def same_terms_def)
  have "append_entries_effect_for (test_raft 1 (test_log 2 99) 0) (PeerId 2) =
      Some (SendRaftAppendEntries (PeerId 2) 0 0 0 (take 5 (test_log 2 99)) 0)"
    by (simp add: append_entries_effect_for_def term_at_def last_log_index_def MAX_APPEND_ENTRIES_def test_entry_def)
  from replication_round [OF test_raft_wf(2) wf(2) m this] show ?thesis by auto
qed

text \<open>
  A follower can commit entries its leader never sent: \<open>append_entries\<close> moves the commit
  index up to the leader's commit index or the follower's own last entry, not the last entry
  received, so when a batch (at most five entries) stops short of both, an old entry beyond the
  batch is committed and its block is handed out for commitment, whatever the leader has there.
\<close>
theorem commit_past_received:
  assumes "raft_wf f" and "accepts pi pt es f" and "agree_len (drop (unat pi) (log f)) es = length es"
    and "unat pi + length es < j" and "j \<le> length (log f)" and "j \<le> unat lc" and "unat (commit_index f) < j"
    and "\<not> is_noop (log f ! (j - 1))"
  shows "\<exists>f' effs. append_entries pi pt es lc f = (f', Some effs) \<and> log f' = log f \<and>
    j \<le> unat (commit_index f') \<and> CommitBlock (le_block_hash (log f ! (j - 1))) \<in> set effs"
proof -
  have ok: "log_ok (log f)" by (rule raft_wfD(1) [OF assms(1)])
  have room: "unat pi + length es < 2 ^ 64" using log_ok_length [OF ok] assms(4,5) by simp
  let ?f = "merged pi es lc f"
  have lg: "log ?f = log f" using assms(3) by (simp add: merged_def merge_log_def Let_def)
  have "unat (last_log_index (f\<lparr>log := log f\<rparr>)) = length (log f)" by (simp add: unat_last_log_index ok)
  then have ci: "j \<le> unat (commit_index ?f)"
    using assms(3,5,6) by (auto simp: merged_def merge_log_def Let_def max_def min_def word_le_nat_alt)
  have "log f ! (j - 1) \<in> set (drop (unat (commit_index f)) (take (unat (commit_index ?f)) (log f)))"
    using assms(5,7) ci unfolding in_set_conv_nth by (intro exI [of _ "j - 1 - unat (commit_index f)"]) simp
  then have "CommitBlock (le_block_hash (log f ! (j - 1))) \<in> set (commit_effects (commit_index f) ?f)"
    using commit_effects_segment [of ?f "commit_index f"] ok lg assms(8) by (auto simp: block_hashes_def)
  with ci lg append_entries_spec [OF raft_wfD(1,2) [OF assms(1)] room, of pt lc] assms(2) show ?thesis by simp
qed

theorem commit_past_received_witness:
  "let leader = (test_raft 1 (test_log 3 66) 6)\<lparr>role := Leader, current_term := 3\<rparr>;
       follower = test_raft 2 (test_log 2 99) 0
   in append_entries_effect_for leader (PeerId 2) =
        Some (SendRaftAppendEntries (PeerId 2) 3 0 0 (take 5 (test_log 3 66)) 6) \<and>
      (\<exists>f' effs. append_entries 0 0 (take 5 (test_log 3 66)) 6 follower = (f', Some effs) \<and>
        CommitBlock (BlockHash [99]) \<in> set effs)"
proof -
  have wf: "raft_wf (test_raft 2 (test_log 2 99) 0)" by (rule test_raft_wf) simp_all
  have "accepts 0 0 (take 5 (test_log 3 66)) (test_raft 2 (test_log 2 99) 0)"
    by (simp add: accepts_def term_at_def entries_are_contiguous_after_def test_entry_def)
  from commit_past_received [OF wf this, of 6 6]
  have "\<exists>f' effs. append_entries 0 0 (take 5 (test_log 3 66)) 6 (test_raft 2 (test_log 2 99) 0) = (f', Some effs) \<and>
        CommitBlock (BlockHash [99]) \<in> set effs"
    by auto
  then show ?thesis
    by (simp add: append_entries_effect_for_def term_at_def last_log_index_def MAX_APPEND_ENTRIES_def test_entry_def)
qed

text \<open>
  One vote per term: a peer that granted its vote for a term grants it in that term to no
  other candidate, whatever calls it handles in between (as long as it runs and terms do not
  wrap).
\<close>
theorem one_vote_per_term:
  assumes "raft_on_request_vote t c1 li1 lt1 src1 r = (r1, Ok [Send src1 (RaftRequestVoteResponse t1 True)])"
    and "run_term_room X evs r1" and "raft_run X evs r1 = (r2, hs, ok)"
    and "raft_on_request_vote t c2 li2 lt2 src2 r2 = (r3, Ok [Send src2 (RaftRequestVoteResponse t2 True)])"
  shows "c1 = c2 \<and> t1 = t \<and> t2 = t"
proof -
  note g1 = grant [OF assms(1)] and g2 = grant [OF assms(4)]
  have "vote_kept r1 r2" using raft_run_vote_kept [OF assms(2)] assms(3) by simp
  then have "current_term r2 = t \<and> voted_for r2 = Some c1"
    using g1(2,3) g2(4) by (auto simp: vote_kept_def)
  with g1(1) g2(1,5) show ?thesis by auto
qed

theorem one_vote_per_term_witness:
  "let r1 = fst (raft_on_request_vote 4 (PeerId 2) 0 0 (PeerId 2) (test_raft 1 [] 0));
       r2 = fst (raft_run test_raft_ext [ClientTx (test_coin 1)] r1)
   in voted_for r1 = Some (PeerId 2) \<and>
     snd (raft_on_request_vote 4 (PeerId 3) 0 0 (PeerId 3) r2) \<noteq> Ok [Send (PeerId 3) (RaftRequestVoteResponse 4 True)]"
proof -
  let ?r = "test_raft 1 [] 0"
  let ?r1 = "?r\<lparr>current_term := 4, leader_id := None, voted_for := Some (PeerId 2)\<rparr>"
  have g: "raft_on_request_vote 4 (PeerId 2) 0 0 (PeerId 2) ?r = (?r1, Ok [Send (PeerId 2) (RaftRequestVoteResponse 4 True)])"
    by (simp add: raft_on_request_vote_def request_vote_def candidate_log_is_up_to_date_def last_log_term_def
        last_log_index_def step_down_def test_raft_def new_with_log_def)
  obtain r2 hs ok where run: "raft_run test_raft_ext [ClientTx (test_coin 1)] ?r1 = (r2, hs, ok)" by (metis prod_cases3)
  have "run_term_room test_raft_ext [ClientTx (test_coin 1)] ?r1" by (simp add: term_room_def)
  from one_vote_per_term [OF g this run, of "PeerId 3" 0 0 "PeerId 3" _ 4]
  have "snd (raft_on_request_vote 4 (PeerId 3) 0 0 (PeerId 3) r2) \<noteq> Ok [Send (PeerId 3) (RaftRequestVoteResponse 4 True)]"
    by (cases "raft_on_request_vote 4 (PeerId 3) 0 0 (PeerId 3) r2") auto
  then show ?thesis unfolding Let_def g fst_conv run by simp
qed

end
