(* ===== verification/Raft_Cluster.thy ===== *)
theory Raft_Cluster
  imports Raft_Safety
begin

text \<open>
  A cluster of Raft peers as a step relation. Every peer runs the handlers of \<^verbatim>\<open>raft.rs\<close>; what
  it sends is remembered in a set of messages, so messages may be lost, reordered, duplicated
  and delayed. Vote requests and vote replies are delivered only if they were sent; append
  entries, their replies and client calls are arbitrary, so nothing below rests on them.
  Membership is fixed (the discovery service always reports the same peers), peers do not
  restart and terms do not wrap. Two ghost fields remember who voted for whom in which term and
  who became leader in which term.
\<close>

section \<open>The step relation\<close>

type_synonym wire = "PeerId \<times> PeerId \<times> MessageBody"

record cluster =
  nodes :: "PeerId \<Rightarrow> RaftConsensus"
  sent :: "wire set"
  ballots :: "(PeerId \<times> u64 \<times> PeerId) set"
  leaders :: "(u64 \<times> PeerId) set"

text \<open>The messages an effect puts on the network, as \<open>PeerEffects\<close> sends them.\<close>

fun wires_of :: "PeerId set \<Rightarrow> PeerId \<Rightarrow> ConsensusEffect \<Rightarrow> wire set" where
  "wires_of U n (Broadcast body) = {(n, p, body) |p. p \<in> U}"
| "wires_of U n (Send p body) = {(n, p, body)}"
| "wires_of U n _ = {}"

definition wires :: "PeerId set \<Rightarrow> PeerId \<Rightarrow> raft_error + ConsensusEffect list \<Rightarrow> wire set" where
  "wires U n res = (case res of Err _ \<Rightarrow> {} | Ok effs \<Rightarrow> (\<Union>e \<in> set effs. wires_of U n e))"

text \<open>Which events peer \<open>n\<close> may handle.\<close>

fun deliverable :: "PeerId set \<Rightarrow> wire set \<Rightarrow> PeerId \<Rightarrow> raft_event \<Rightarrow> bool" where
  "deliverable U net n (Tick now known) = (insert n (set known) = U)"
| "deliverable U net n (RequestVote t cand li lt src) = ((src, n, RaftRequestVote t cand li lt) \<in> net)"
| "deliverable U net n (VoteReply t voter granted) = ((voter, n, RaftRequestVoteResponse t granted) \<in> net)"
| "deliverable U net n _ = True"

definition after_step :: "('a) raft_ext_scheme \<Rightarrow> PeerId set \<Rightarrow> PeerId \<Rightarrow> raft_event \<Rightarrow> cluster \<Rightarrow> cluster" where
  "after_step X U n ev c =
    (let (r, res) = raft_step X ev (nodes c n)
     in c\<lparr>nodes := (nodes c)(n := r), sent := sent c \<union> wires U n res,
          ballots := ballots c \<union> {(n, current_term r, p) |p. voted_for r = Some p},
          leaders := leaders c \<union> {(current_term r, n) |_::unit. role r = Leader}\<rparr>)"

inductive cluster_step :: "('a) raft_ext_scheme \<Rightarrow> PeerId set \<Rightarrow> cluster \<Rightarrow> cluster \<Rightarrow> bool" for X U where
  handle: "n \<in> U \<Longrightarrow> deliverable U (sent c) n ev \<Longrightarrow> term_room (nodes c n) \<Longrightarrow>
    cluster_step X U c (after_step X U n ev c)"

definition initial :: "PeerId set \<Rightarrow> cluster \<Rightarrow> bool" where
  "initial U c \<longleftrightarrow> finite U \<and> sent c = {} \<and> ballots c = {} \<and> leaders c = {} \<and>
    (\<forall>n \<in> U. \<exists>draw now l ci store. nodes c n = new_with_log draw now n l ci store)"

inductive reachable :: "('a) raft_ext_scheme \<Rightarrow> PeerId set \<Rightarrow> cluster \<Rightarrow> bool" for X U where
  start: "initial U c \<Longrightarrow> reachable X U c"
| step: "reachable X U c \<Longrightarrow> cluster_step X U c c' \<Longrightarrow> reachable X U c'"

inductive_cases cluster_stepE: "cluster_step X U c c'"

section \<open>The invariant\<close>

text \<open>What holds of one peer: its identity, its members, and the votes it counts.\<close>

definition node_inv :: "PeerId set \<Rightarrow> cluster \<Rightarrow> PeerId \<Rightarrow> bool" where
  "node_inv U c n \<longleftrightarrow> (let r = nodes c n in r_peer_id r = n \<and> distinct (votes_received r) \<and>
    distinct (r_participants r) \<and>
    (role r \<noteq> Follower \<longrightarrow> set (r_participants r) = U \<and> voted_for r = Some n \<and> set (votes_received r) \<subseteq> U \<and>
      (\<forall>v \<in> set (votes_received r). (v, current_term r, n) \<in> ballots c)))"

definition ballot_inv :: "cluster \<Rightarrow> bool" where
  "ballot_inv c \<longleftrightarrow> (\<forall>v t p. (v, t, p) \<in> ballots c \<longrightarrow> t \<le> current_term (nodes c v) \<and>
      (t = current_term (nodes c v) \<longrightarrow> voted_for (nodes c v) = Some p)) \<and>
    (\<forall>v t p q. (v, t, p) \<in> ballots c \<longrightarrow> (v, t, q) \<in> ballots c \<longrightarrow> p = q)"

definition wire_inv :: "cluster \<Rightarrow> bool" where
  "wire_inv c \<longleftrightarrow> (\<forall>v p t. (v, p, RaftRequestVoteResponse t True) \<in> sent c \<longrightarrow> (v, t, p) \<in> ballots c) \<and>
    (\<forall>a p t cand li lt. (a, p, RaftRequestVote t cand li lt) \<in> sent c \<longrightarrow> cand = a)"

definition leader_inv :: "PeerId set \<Rightarrow> cluster \<Rightarrow> bool" where
  "leader_inv U c \<longleftrightarrow> (\<forall>t n. (t, n) \<in> leaders c \<longrightarrow>
      (\<exists>Q. sized_quorum (\<lambda>n. n div 2 + 1) U Q \<and> (\<forall>v \<in> Q. (v, t, n) \<in> ballots c))) \<and>
    (\<forall>n \<in> U. role (nodes c n) = Leader \<longrightarrow> (current_term (nodes c n), n) \<in> leaders c)"

definition cluster_inv :: "PeerId set \<Rightarrow> cluster \<Rightarrow> bool" where
  "cluster_inv U c \<longleftrightarrow> finite U \<and> (\<forall>n \<in> U. node_inv U c n) \<and> ballot_inv c \<and> wire_inv c \<and> leader_inv U c"

lemma initial_inv: "initial U c \<Longrightarrow> cluster_inv U c"
  by (auto simp: initial_def cluster_inv_def node_inv_def ballot_inv_def wire_inv_def leader_inv_def Let_def)
    (fastforce simp: new_with_log_def)+

section \<open>Which steps send vote messages\<close>

fun quiet :: "ConsensusEffect \<Rightarrow> bool" where
  "quiet (Broadcast _) = False"
| "quiet (Send _ (RaftRequestVote _ _ _ _)) = False"
| "quiet (Send _ (RaftRequestVoteResponse _ _)) = False"
| "quiet _ = True"

definition quiet_result :: "raft_error + ConsensusEffect list \<Rightarrow> bool" where
  "quiet_result res \<longleftrightarrow> (case res of Err _ \<Rightarrow> True | Ok effs \<Rightarrow> list_all quiet effs)"

lemma quiet_result_simps [simp]: "quiet_result (Err e)" "quiet_result (Ok effs) = list_all quiet effs"
  by (simp_all add: quiet_result_def)

lemma quiet_commits: "list_all quiet (commit_effects a r)"
  by (simp add: commit_effects_def list_all_iff)

lemma quiet_sends: "list_all quiet (append_entries_effects_for_followers r)"
    "append_entries_effect_for r p = Some eff \<Longrightarrow> quiet eff"
  by (auto simp: append_entries_effects_for_followers_def append_entries_effect_for_def List.map_filter_def
      list_all_iff Let_def split: option.splits)

lemma quiet_own_entry: "quiet_result (snd (append_own_entry X e r))"
  by (auto simp: append_own_entry_def advance_commit_index_def Let_def quiet_commits quiet_sends split: prod.split sum.split)

lemma quiet_append_entries: "append_entries pi pt es lc r = (r', Some effs) \<Longrightarrow> list_all quiet effs"
  by (auto simp: append_entries_def Let_def list_all_iff commit_effects_def split: if_splits prod.splits option.splits)

lemma quiet_handle_append_entries: "quiet_result (snd (handle_append_entries X draw rq r))"
  using quiet_append_entries
  by (auto simp: handle_append_entries_def append_entries_response_def Let_def
      split: prod.split bool.split sum.split option.split)

lemma quiet_append_reply: "quiet_result (snd (raft_on_append_entries_response X t src success mi r))"
  by (auto simp: raft_on_append_entries_response_def handle_leader_append_entries_response_def
      advance_commit_index_def Let_def quiet_commits quiet_sends(2) split: prod.split sum.split option.split)

lemma quiet_tick:
  "quiet_result (snd (raft_on_tick X now known r)) \<or>
   (\<exists>effs t li lt. snd (raft_on_tick X now known r) = Ok (Broadcast (RaftRequestVote t (r_peer_id r) li lt) # effs) \<and>
     list_all quiet effs)"
proof -
  let ?r = "update_participants known r"
  obtain r1 b where el: "start_election_at now ?r = (r1, b)" by fastforce
  then have "r_peer_id r1 = r_peer_id r"
    by (auto simp: start_election_at_def become_leader_if_majority_def update_participants_def Let_def split: if_splits)
  moreover have "quiet_result (snd (append_leader_noop X r1))" unfolding append_leader_noop_def by (rule quiet_own_entry)
  moreover obtain r2 res where nr: "append_leader_noop X r1 = (r2, res)" by fastforce
  ultimately show ?thesis using el
    by (cases res) (auto simp: raft_on_tick_def Let_def quiet_sends)
qed

lemma quiet_wires:
  assumes "quiet_result res" and "(a, p, body) \<in> wires U n res"
  shows "(\<nexists>t g. body = RaftRequestVoteResponse t g) \<and> (\<nexists>t cand li lt. body = RaftRequestVote t cand li lt)"
proof -
  obtain effs e where "res = Ok effs" "e \<in> set effs" "(a, p, body) \<in> wires_of U n e"
    using assms(2) by (cases res) (auto simp: wires_def)
  with assms(1) have "quiet e" by (simp add: list_all_iff)
  with \<open>(a, p, body) \<in> wires_of U n e\<close> show ?thesis by (cases e) auto
qed

lemma quiet_other_steps:
  assumes "\<nexists>t cand li lt src. ev = RequestVote t cand li lt src" and "\<nexists>now known. ev = Tick now known"
  shows "quiet_result (snd (raft_step X ev r))"
proof (cases ev)
  case (VoteReply t voter granted)
  then show ?thesis
    by (auto simp: raft_on_request_vote_response_def append_leader_noop_def quiet_own_entry split: prod.split bool.split)
next
  case (AppendEntries draw t leader pi pt es lc src now)
  then show ?thesis by (simp add: raft_on_append_entries_def quiet_handle_append_entries)
next
  case (AppendReply t src success mi)
  then show ?thesis by (simp add: quiet_append_reply)
next
  case (ClientTx tx)
  then show ?thesis
    by (auto simp: raft_on_client_transaction_def forward_client_transaction_def
        split: RaftRole.split sum.split option.split)
next
  case (BlockCreated h)
  then show ?thesis
    by (auto simp: raft_on_block_created_def append_local_block_def quiet_own_entry split: RaftRole.split sum.split)
qed (use assms in auto)

lemma vote_reply_sent:
  assumes "(v, p, RaftRequestVoteResponse t True) \<in> wires U n (snd (raft_step X ev r))"
  shows "v = n \<and> (\<exists>cand li lt. ev = RequestVote t cand li lt p \<and>
    current_term (fst (raft_step X ev r)) = t \<and> voted_for (fst (raft_step X ev r)) = Some cand)"
proof (cases "(\<exists>t cand li lt src. ev = RequestVote t cand li lt src) \<or> (\<exists>now known. ev = Tick now known)")
  case False
  then have "quiet_result (snd (raft_step X ev r))" using quiet_other_steps by blast
  with quiet_wires [OF this assms] show ?thesis by blast
next
  case True
  then show ?thesis
  proof (elim disjE exE)
    fix now known assume ev: "ev = Tick now known"
    from quiet_tick [of X now known r] show ?thesis
    proof
      assume "quiet_result (snd (raft_on_tick X now known r))"
      with quiet_wires [OF this, of v p "RaftRequestVoteResponse t True" U n] assms ev show ?thesis by auto
    next
      assume "\<exists>effs t li lt. snd (raft_on_tick X now known r) = Ok (Broadcast (RaftRequestVote t (r_peer_id r) li lt) # effs) \<and>
        list_all quiet effs"
      then obtain effs t' li lt where e: "snd (raft_on_tick X now known r) = Ok (Broadcast (RaftRequestVote t' (r_peer_id r) li lt) # effs)"
          "list_all quiet effs" by blast
      with assms ev have "(v, p, RaftRequestVoteResponse t True) \<in> wires U n (Ok effs)" by (auto simp: wires_def)
      with quiet_wires [of "Ok effs"] e(2) show ?thesis by fastforce
    qed
  next
    fix t' cand li lt src assume ev: "ev = RequestVote t' cand li lt src"
    obtain r1 resp where rv: "request_vote t' cand li lt r = (r1, resp)" by fastforce
    with assms ev have "v = n" "p = src" "t = current_term r1" "resp = VoteGranted"
      by (auto simp: raft_on_request_vote_def wires_def)
    with rv ev grant [of t' cand li lt src r r1 "current_term r1"] show ?thesis
      by (simp add: raft_on_request_vote_def)
  qed
qed

lemma vote_request_sent:
  assumes "(a, p, RaftRequestVote t cand li lt) \<in> wires U n (snd (raft_step X ev r))"
  shows "a = n \<and> cand = r_peer_id r"
proof (cases "\<exists>t cand li lt src. ev = RequestVote t cand li lt src")
  case True
  with assms show ?thesis by (auto simp: raft_on_request_vote_def wires_def split: prod.splits)
next
  case False
  show ?thesis
  proof (cases "\<exists>now known. ev = Tick now known")
    case True
    then obtain now known where ev: "ev = Tick now known" by blast
    show ?thesis
    proof (cases "quiet_result (snd (raft_on_tick X now known r))")
      case True
      with quiet_wires [OF this, of a p _ U n] assms ev show ?thesis by fastforce
    next
      case loud: False
      then obtain effs t' li' lt' where e: "snd (raft_on_tick X now known r) = Ok (Broadcast (RaftRequestVote t' (r_peer_id r) li' lt') # effs)"
          "list_all quiet effs" using quiet_tick by blast
      have "(a, p, RaftRequestVote t cand li lt) \<notin> wires U n (Ok effs)" using quiet_wires [of "Ok effs"] e(2) by fastforce
      with assms ev e(1) show ?thesis by (auto simp: wires_def)
    qed
  next
    case notick: False
    with False have "quiet_result (snd (raft_step X ev r))" by (intro quiet_other_steps) auto
    with quiet_wires [OF this assms] show ?thesis by blast
  qed
qed

section \<open>Preservation\<close>

abbreviation new_ballots :: "PeerId \<Rightarrow> RaftConsensus \<Rightarrow> (PeerId \<times> u64 \<times> PeerId) set" where
  "new_ballots n r \<equiv> {(n, current_term r, p) |p. voted_for r = Some p}"

lemma after_step_sel:
  assumes "raft_step X ev (nodes c n) = (r', res)"
  shows "nodes (after_step X U n ev c) = (nodes c)(n := r')"
    and "sent (after_step X U n ev c) = sent c \<union> wires U n res"
    and "ballots (after_step X U n ev c) = ballots c \<union> new_ballots n r'"
    and "leaders (after_step X U n ev c) = leaders c \<union> {(current_term r', n) |_::unit. role r' = Leader}"
  by (simp_all add: after_step_def assms)

lemma ballot_step:
  assumes inv: "ballot_inv c" and vk: "vote_kept (nodes c n) r'"
    and c': "nodes c' = (nodes c)(n := r')" "ballots c' = ballots c \<union> new_ballots n r'"
  shows "ballot_inv c'"
proof -
  have cur: "t \<le> current_term (nodes c' v) \<and> (t = current_term (nodes c' v) \<longrightarrow> voted_for (nodes c' v) = Some p)"
    if b: "(v, t, p) \<in> ballots c'" for v t p
  proof (cases "v = n \<and> (v, t, p) \<in> ballots c")
    case True
    then have "t \<le> current_term (nodes c n)" "t = current_term (nodes c n) \<longrightarrow> voted_for (nodes c n) = Some p"
      using inv by (auto simp: ballot_inv_def)
    with vk True show ?thesis unfolding vote_kept_def c' by (auto intro: order_trans dest: order_antisym)
  next
    case False
    with b inv show ?thesis by (auto simp: ballot_inv_def c')
  qed
  moreover have "p = q" if "(v, t, p) \<in> ballots c'" "(v, t, q) \<in> ballots c'" for v t p q
  proof (cases "(v, t, p) \<in> ballots c \<and> (v, t, q) \<in> ballots c")
    case True
    with inv show ?thesis unfolding ballot_inv_def by blast
  next
    case False
    then have "t = current_term (nodes c' v)" using that by (auto simp: c')
    with cur [OF that(1)] cur [OF that(2)] show ?thesis by simp
  qed
  ultimately show ?thesis unfolding ballot_inv_def by blast
qed

lemma wire_step:
  assumes inv: "wire_inv c" and st: "raft_step X ev (nodes c n) = (r', res)" and del: "deliverable U (sent c) n ev"
    and pid: "r_peer_id (nodes c n) = n"
    and c': "sent c' = sent c \<union> wires U n res" "ballots c' = ballots c \<union> new_ballots n r'"
  shows "wire_inv c'"
proof -
  have "(v, t, p) \<in> ballots c'" if m: "(v, p, RaftRequestVoteResponse t True) \<in> sent c'" for v p t
  proof (cases "(v, p, RaftRequestVoteResponse t True) \<in> sent c")
    case True
    with inv show ?thesis by (simp add: wire_inv_def c')
  next
    case False
    with m have "(v, p, RaftRequestVoteResponse t True) \<in> wires U n (snd (raft_step X ev (nodes c n)))"
      by (simp add: c' st)
    from vote_reply_sent [OF this] obtain cand li lt where "v = n" "ev = RequestVote t cand li lt p"
        "current_term r' = t" "voted_for r' = Some cand" by (auto simp: st)
    moreover from this del have "(p, n, RaftRequestVote t cand li lt) \<in> sent c" by simp
    then have "cand = p" using inv unfolding wire_inv_def by blast
    ultimately show ?thesis by (simp add: c')
  qed
  moreover have "cand = a" if m: "(a, p, RaftRequestVote t cand li lt) \<in> sent c'" for a p t cand li lt
  proof (cases "(a, p, RaftRequestVote t cand li lt) \<in> sent c")
    case True
    with inv show ?thesis unfolding wire_inv_def by blast
  next
    case False
    with m have "(a, p, RaftRequestVote t cand li lt) \<in> wires U n (snd (raft_step X ev (nodes c n)))"
      by (simp add: c' st)
    from vote_request_sent [OF this] pid show ?thesis by simp
  qed
  ultimately show ?thesis unfolding wire_inv_def by blast
qed

lemma node_step:
  assumes inv: "node_inv U c n" and wi: "wire_inv c" and n: "n \<in> U" and del: "deliverable U (sent c) n ev"
    and es: "election_step ev (nodes c n) r'" and vk: "vote_kept (nodes c n) r'"
    and c': "nodes c' = (nodes c)(n := r')" "ballots c' = ballots c \<union> new_ballots n r'"
  shows "node_inv U c' n"
proof -
  let ?r = "nodes c n"
  have pid: "r_peer_id ?r = n" and dv: "distinct (votes_received ?r)" and dp: "distinct (r_participants ?r)"
    using inv by (auto simp: node_inv_def Let_def)
  have parts: "r_participants r' = (case ev of Tick now known \<Rightarrow> List.insert n (hash_set_from known) | _ \<Rightarrow> r_participants ?r)"
    using es pid by (simp add: election_step_def split: raft_event.split)
  have "set (r_participants r') = U \<and> voted_for r' = Some n \<and> set (votes_received r') \<subseteq> U \<and>
      (\<forall>v \<in> set (votes_received r'). (v, current_term r', n) \<in> ballots c')" if act: "role r' \<noteq> Follower"
  proof -
    consider (old) "role ?r \<noteq> Follower" "current_term r' = current_term ?r"
        "set (votes_received r') \<subseteq> set (votes_received ?r) \<union> {v \<in> set (r_participants ?r). ev = VoteReply (current_term ?r) v True}"
      | (new) now known where "ev = Tick now known" "voted_for r' = Some n" "votes_received r' = [n]"
      using es act pid by (auto simp: election_step_def)
    then show ?thesis
    proof cases
      case old
      have o: "set (r_participants ?r) = U" "voted_for ?r = Some n" "set (votes_received ?r) \<subseteq> U"
          "\<forall>v \<in> set (votes_received ?r). (v, current_term ?r, n) \<in> ballots c"
        using inv old(1) by (auto simp: node_inv_def Let_def)
      have "set (r_participants r') = U" using parts o(1) del by (cases ev) auto
      moreover have "voted_for r' = Some n" using vk old(2) o(2) by (simp add: vote_kept_def)
      moreover have "(v, current_term ?r, n) \<in> ballots c" if "ev = VoteReply (current_term ?r) v True" for v
        using that del wi by (auto simp: wire_inv_def)
      ultimately show ?thesis using o old by (auto simp: c')
    next
      case new
      with parts del n show ?thesis by (auto simp: c')
    qed
  qed
  moreover have "distinct (r_participants r')" using parts dp by (simp split: raft_event.split)
  moreover have "r_peer_id r' = n" "distinct (votes_received r')" using es pid dv by (simp_all add: election_step_def)
  ultimately show ?thesis by (simp add: node_inv_def Let_def c'(1))
qed

lemma leader_quorum:
  "leader_inv U c \<Longrightarrow> (t, n) \<in> leaders c \<Longrightarrow>
    \<exists>Q. sized_quorum (\<lambda>n. n div 2 + 1) U Q \<and> (\<forall>v \<in> Q. (v, t, n) \<in> ballots c)"
  unfolding leader_inv_def by (elim conjE allE impE)

lemma leader_step:
  assumes inv: "leader_inv U c" and ni: "node_inv U c' n" and n: "n \<in> U" and fin: "finite U"
    and es: "election_step ev (nodes c n) r'"
    and c': "nodes c' = (nodes c)(n := r')" "ballots c' = ballots c \<union> new_ballots n r'"
      "leaders c' = leaders c \<union> {(current_term r', n) |_::unit. role r' = Leader}"
  shows "leader_inv U c'"
proof -
  have "\<exists>Q. sized_quorum (\<lambda>n. n div 2 + 1) U Q \<and> (\<forall>v \<in> Q. (v, t, m) \<in> ballots c')" if l: "(t, m) \<in> leaders c'" for t m
  proof (cases "(t, m) \<in> leaders c")
    case True
    with inv obtain Q where "sized_quorum (\<lambda>n. n div 2 + 1) U Q" "\<forall>v \<in> Q. (v, t, m) \<in> ballots c"
      unfolding leader_inv_def by blast
    then show ?thesis unfolding c' by blast
  next
    case False
    with l have tm: "t = current_term r'" "m = n" "role r' = Leader" by (auto simp: c')
    with False inv n have "\<not> (role (nodes c n) = Leader \<and> current_term r' = current_term (nodes c n))"
      by (auto simp: leader_inv_def)
    with es tm have "majority r' \<le> length (votes_received r')" by (auto simp: election_step_def)
    moreover have "distinct (votes_received r')" "distinct (r_participants r')" "set (r_participants r') = U"
        "set (votes_received r') \<subseteq> U" "\<forall>v \<in> set (votes_received r'). (v, current_term r', n) \<in> ballots c'"
      using ni tm(3) by (simp_all add: node_inv_def Let_def c'(1))
    ultimately have "sized_quorum (\<lambda>n. n div 2 + 1) U (set (votes_received r'))"
      using fin by (auto simp: sized_quorum_def majority_def distinct_card)
    with tm \<open>\<forall>v \<in> set (votes_received r'). (v, current_term r', n) \<in> ballots c'\<close> show ?thesis by blast
  qed
  moreover have "\<forall>m \<in> U. role (nodes c' m) = Leader \<longrightarrow> (current_term (nodes c' m), m) \<in> leaders c'"
    using inv by (auto simp: leader_inv_def c')
  ultimately show ?thesis by (simp add: leader_inv_def)
qed

lemma cluster_step_inv:
  assumes inv: "cluster_inv U c" and "cluster_step X U c c'"
  shows "cluster_inv U c'"
proof -
  from assms(2) obtain n ev where 1: "c' = after_step X U n ev c" "n \<in> U" "deliverable U (sent c) n ev"
      "term_room (nodes c n)"
    by (rule cluster_stepE)
  obtain r' res where st: "raft_step X ev (nodes c n) = (r', res)" by fastforce
  note sel = after_step_sel [OF st, of U, folded 1(1)]
  have es: "election_step ev (nodes c n) r'" and vk: "vote_kept (nodes c n) r'"
    using raft_step_election [OF 1(4), of ev X] st by simp_all
  have i: "node_inv U c n" "ballot_inv c" "wire_inv c" "leader_inv U c" "finite U"
    using inv 1(2) by (auto simp: cluster_inv_def)
  have ni: "node_inv U c' n" by (rule node_step [OF i(1,3) 1(2,3) es vk sel(1,3)])
  have "node_inv U c' m" if "m \<in> U" for m
  proof (cases "m = n")
    case False
    then show ?thesis using inv that by (auto simp: cluster_inv_def node_inv_def sel Let_def)
  qed (simp add: ni)
  moreover have "ballot_inv c'" by (rule ballot_step [OF i(2) vk sel(1,3)])
  moreover have "wire_inv c'" using i(1) by (intro wire_step [OF i(3) st 1(3) _ sel(2,3)]) (simp add: node_inv_def Let_def)
  moreover have "leader_inv U c'" by (rule leader_step [OF i(4) ni 1(2) i(5) es sel(1,3,4)])
  ultimately show ?thesis using i(5) by (simp add: cluster_inv_def)
qed

lemma reachable_inv: "reachable X U c \<Longrightarrow> cluster_inv U c"
  by (induction rule: reachable.induct) (auto intro: initial_inv cluster_step_inv)

lemma one_leader:
  assumes "cluster_inv U c" and "(t, a) \<in> leaders c" and "(t, b) \<in> leaders c"
  shows "a = b"
proof -
  have inv: "ballot_inv c" "leader_inv U c" using assms(1) by (simp_all add: cluster_inv_def)
  obtain P Q where "sized_quorum (\<lambda>n. n div 2 + 1) U P" "sized_quorum (\<lambda>n. n div 2 + 1) U Q"
      and votes: "\<forall>v \<in> P. (v, t, a) \<in> ballots c" "\<forall>v \<in> Q. (v, t, b) \<in> ballots c"
    using leader_quorum [OF inv(2) assms(2)] leader_quorum [OF inv(2) assms(3)] by blast
  then have "P \<inter> Q \<noteq> {}" by (intro rq.quorum_inter)
  then obtain v where "(v, t, a) \<in> ballots c" "(v, t, b) \<in> ballots c" using votes by auto
  with inv(1) show ?thesis unfolding ballot_inv_def by blast
qed

section \<open>Concrete inputs\<close>

definition test_cluster :: cluster where
  "test_cluster = \<lparr>nodes = (\<lambda>n. new_with_log 0 0 n [] 0 (InMemory InMemory_new)), sent = {}, ballots = {}, leaders = {}\<rparr>"

lemma test_cluster_initial: "finite U \<Longrightarrow> initial U test_cluster"
  by (auto simp: initial_def test_cluster_def) blast

section \<open>Properties\<close>

text \<open>
  C4. Election safety: in any reachable state of a cluster with fixed members, no restarts and
  no term wrap, at most one peer has ever been leader in a term, whatever messages were lost,
  duplicated, delayed or reordered and whatever append-entries traffic there was.
\<close>
theorem election_safety:
  assumes "reachable X U c" and "(t, a) \<in> leaders c" and "(t, b) \<in> leaders c"
  shows "a = b"
  by (rule one_leader [OF reachable_inv [OF assms(1)] assms(2,3)])

text \<open>A cluster of one peer elects it on its first tick after the timeout.\<close>

theorem election_safety_witness:
  "\<exists>c. reachable test_raft_ext {PeerId 1} c \<and> (1, PeerId 1) \<in> leaders c \<and> (\<forall>b. (1, b) \<in> leaders c \<longrightarrow> b = PeerId 1)"
proof -
  let ?c = "after_step test_raft_ext {PeerId 1} (PeerId 1) (Tick 20000 []) test_cluster"
  have "cluster_step test_raft_ext {PeerId 1} test_cluster ?c"
    by (rule cluster_step.handle) (simp_all add: test_cluster_def new_with_log_def term_room_def)
  then have r: "reachable test_raft_ext {PeerId 1} ?c"
    using test_cluster_initial [of "{PeerId 1}"] by (blast intro: reachable.intros)
  obtain r' res where st: "raft_step test_raft_ext (Tick 20000 []) (nodes test_cluster (PeerId 1)) = (r', res)" by fastforce
  then have "role r' = Leader" "current_term r' = 1"
    by (auto simp: raft_on_tick_def update_participants_def hash_set_from_def start_election_at_def
        become_leader_if_majority_def majority_def append_leader_noop_def append_own_entry_def last_log_index_def
        advance_commit_index_def replicated_count_def persist_log_def InMemory_save_def test_cluster_def new_with_log_def
        random_election_timeout_def random_range_incl_def DEFAULT_ELECTION_TIMEOUT_def
        DEFAULT_ELECTION_TIMEOUT_JITTER_def InMemory_new_def Let_def)
  then have l: "(1, PeerId 1) \<in> leaders ?c" by (simp add: after_step_sel [OF st])
  with r election_safety [OF r _ l] show ?thesis by blast
qed

end
