(* ===== verification/Raft_Moves.thy ===== *)
theory Raft_Moves
  imports Raft_Cluster
begin

text \<open>
  What one call of a handler of \<^verbatim>\<open>raft.rs\<close> may do to the log, the commit index, the
  role and the match indexes of a peer, and which append-entries requests and replies it sends.
  The proofs about a whole cluster use these summaries only.
\<close>

section \<open>Vocabulary\<close>

definition last_term :: "RaftLogEntry list \<Rightarrow> u64" where
  "last_term l = (if l = [] then 0 else le_term (last l))"

text \<open>The entries \<open>es\<close> follow the first \<open>pi\<close> entries of \<open>l\<close>, the last of which has term \<open>pt\<close>.\<close>

definition segment_of :: "RaftLogEntry list \<Rightarrow> u64 \<Rightarrow> u64 \<Rightarrow> RaftLogEntry list \<Rightarrow> bool" where
  "segment_of l pi pt es \<longleftrightarrow> unat pi + length es \<le> length l \<and> pt = last_term (take (unat pi) l) \<and>
    es = take (length es) (drop (unat pi) l)"

text \<open>The peer stays in the state that it had as leader of a term.\<close>

abbreviation still_leader :: "RaftConsensus \<Rightarrow> RaftConsensus \<Rightarrow> bool" where
  "still_leader r r' \<equiv> role r = Leader \<and> current_term r' = current_term r"

section \<open>Normal forms of the handlers\<close>

lemma persist_form: "\<exists>s. fst (persist_log X r) = r\<lparr>raft_log_store := s\<rparr>"
  by (auto simp: persist_log_def split: prod.split)

lemma store_same: "\<exists>s. (r :: RaftConsensus) = r\<lparr>raft_log_store := s\<rparr>"
  by (rule exI [of _ "raft_log_store r"]) simp

lemma commit_effects_form: "\<exists>hs. commit_effects a r = map CommitBlock hs"
  by (intro exI [of _ "map le_block_hash (filter (\<lambda>e. \<not> is_noop e)
      (filter (\<lambda>e. a < le_index e \<and> le_index e \<le> commit_index r) (log r)))"]) (simp add: commit_effects_def comp_def)

abbreviation committing :: "RaftConsensus \<Rightarrow> AnyRaftLogStore \<Rightarrow> RaftConsensus" where
  "committing r s \<equiv> r\<lparr>commit_index := find_commit r (rev (log r)), raft_log_store := s\<rparr>"

abbreviation with_entry :: "RaftLogEntry \<Rightarrow> RaftConsensus \<Rightarrow> RaftConsensus" where
  "with_entry e r \<equiv> r\<lparr>log := log r @ [e], match_indexes := (match_indexes r)(r_peer_id r \<mapsto> le_index e)\<rparr>"

lemma own_form:
  assumes "append_own_entry X e r = (r', res)"
  shows "\<exists>s. r' = committing (with_entry e r) s"
    and "res = Ok effs \<Longrightarrow> \<exists>hs. effs = append_entries_effects_for_followers (with_entry e r) @ map CommitBlock hs"
proof -
  let ?r1 = "with_entry e r"
  let ?r2 = "?r1\<lparr>commit_index := find_commit ?r1 (rev (log ?r1))\<rparr>"
  obtain s pr where "persist_log X ?r2 = (?r2\<lparr>raft_log_store := s\<rparr>, pr)"
    using persist_form [of X ?r2] by (metis prod.collapse)
  with assms show "\<exists>s. r' = committing ?r1 s"
    by (cases pr) (auto simp: append_own_entry_def advance_commit_index_sel(3) Let_def)
  show "\<exists>hs. effs = append_entries_effects_for_followers ?r1 @ map CommitBlock hs" if "res = Ok effs"
    using assms that \<open>persist_log X ?r2 = _\<close> commit_effects_form
    by (cases pr) (auto simp: append_own_entry_def advance_commit_index_sel(3) Let_def)
qed

lemma tick_form:
  assumes "raft_on_tick X now known r = (r', res)"
  obtains (idle) "r' = update_participants known r" "res = Ok []"
  | (beat) h where "role r = Leader" "r' = update_participants known r\<lparr>last_heartbeat_sent_at := h\<rparr>"
      "res = Ok (append_entries_effects_for_followers r')"
  | (stand) "role r \<noteq> Leader" "start_election_at now (update_participants known r) = (r', False)"
      "res = Ok [Broadcast (RaftRequestVote (current_term r') (r_peer_id r') (last_log_index r') (last_log_term r'))]"
  | (win) r1 res' where "role r \<noteq> Leader" "start_election_at now (update_participants known r) = (r1, True)"
      "append_leader_noop X r1 = (r', res')"
      "\<And>effs. res = Ok effs \<Longrightarrow> \<exists>effs'. res' = Ok effs' \<and>
        effs = Broadcast (RaftRequestVote (current_term r1) (r_peer_id r1) (last_log_index r1) (last_log_term r1)) # effs'"
proof -
  let ?r = "update_participants known r"
  have [simp]: "role ?r = role r" by (simp add: update_participants_def Let_def)
  obtain r1 b where el: "start_election_at now ?r = (r1, b)" by fastforce
  obtain r2 res2 where no: "append_leader_noop X r1 = (r2, res2)" by fastforce
  note defs = assms [unfolded raft_on_tick_def Let_def]
  consider (l) "role r = Leader" "heartbeat_due ?r now" | (li) "role r = Leader" "\<not> heartbeat_due ?r now"
    | (s) "role r \<noteq> Leader" "current_election_timeout ?r \<le> now - last_heartbeat_received_at ?r" "\<not> b"
    | (w) "role r \<noteq> Leader" "current_election_timeout ?r \<le> now - last_heartbeat_received_at ?r" "b"
    | (f) "role r \<noteq> Leader" "\<not> current_election_timeout ?r \<le> now - last_heartbeat_received_at ?r"
    by blast
  then show thesis
  proof cases
    case l with defs show ?thesis by (intro beat [of "Some now"]) auto
  next
    case li with defs show ?thesis by (intro idle) auto
  next
    case s
    with defs el have "r' = r1" and res: "res = Ok [Broadcast (RaftRequestVote (current_term r1) (r_peer_id r1)
        (last_log_index r1) (last_log_term r1))]" by auto
    with s el show ?thesis by (intro stand) auto
  next
    case w
    show ?thesis
    proof (rule win [OF w(1)])
      show "start_election_at now ?r = (r1, True)" using el w(3) by simp
      show "append_leader_noop X r1 = (r', res2)" using defs el w no by (cases res2) auto
      show "\<exists>effs'. res2 = Ok effs' \<and>
        effs = Broadcast (RaftRequestVote (current_term r1) (r_peer_id r1) (last_log_index r1) (last_log_term r1)) # effs'"
        if "res = Ok effs" for effs using that defs el w no by (cases res2) auto
    qed
  next
    case f with defs show ?thesis by (intro idle) auto
  qed
qed

lemma vote_reply_form:
  assumes "raft_on_request_vote_response X t voter granted r = (r', res)"
  obtains (idle) "r' = r" "res = Ok []"
  | (down) "r' = step_down t r" "current_term r < t" "res = Ok []"
  | (count) "role r = Candidate" "r' = r\<lparr>votes_received := List.insert voter (votes_received r)\<rparr>" "res = Ok []"
  | (win) r1 where "role r = Candidate" "t = current_term r"
      "become_leader_if_majority (r\<lparr>votes_received := List.insert voter (votes_received r)\<rparr>) = (r1, True)"
      "append_leader_noop X r1 = (r', res)"
proof -
  let ?r = "r\<lparr>votes_received := List.insert voter (votes_received r)\<rparr>"
  obtain r1 b where bl: "become_leader_if_majority ?r = (r1, b)" by fastforce
  have nb: "\<not> b \<Longrightarrow> r1 = ?r" using become_leader_if_majority_def [of ?r] bl by (simp split: if_splits)
  consider "current_term r < t" | "\<not> current_term r < t" "role r \<noteq> Candidate \<or> t \<noteq> current_term r \<or> \<not> granted \<or> voter \<notin> set (r_participants r)"
    | "role r = Candidate" "t = current_term r" "granted" "voter \<in> set (r_participants r)" by blast
  then show thesis
  proof cases
    case 1
    with assms show ?thesis
      by (intro down) (auto simp: raft_on_request_vote_response_def receive_vote_def step_down_on_newer_term_def split: if_splits)
  next
    case 2
    with assms show ?thesis
      by (intro idle) (auto simp: raft_on_request_vote_response_def receive_vote_def step_down_on_newer_term_def split: if_splits)
  next
    case 3
    with assms bl have "(case (r1, b) of (r1, True) \<Rightarrow> append_leader_noop X r1 | (r1, False) \<Rightarrow> (r1, Ok [])) = (r', res)"
      by (simp add: raft_on_request_vote_response_def receive_vote_def)
    with 3 bl nb show ?thesis by (cases b) (auto intro: win count)
  qed
qed

lemma append_reply_form:
  assumes "raft_on_append_entries_response X t src success mi r = (r', res)"
  obtains (idle) "r' = r" "res = Ok []"
  | (down) "r' = step_down t r" "current_term r < t" "res = Ok []"
  | (ack) s where "role r = Leader" "t = current_term r" "success"
      "r' = committing (r\<lparr>match_indexes := (match_indexes r)(src \<mapsto>
        max (case match_indexes r src of Some m \<Rightarrow> m | None \<Rightarrow> 0) mi)\<rparr>) s"
      "\<And>effs. res = Ok effs \<Longrightarrow> \<exists>hs. effs = map CommitBlock hs"
  | (nack) effs where "role r = Leader" "t = current_term r" "\<not> success"
      "r' = r\<lparr>match_indexes := (match_indexes r)(src \<mapsto> min mi (last_log_index r))\<rparr>"
      "res = Ok effs" "set effs \<subseteq> set_option (append_entries_effect_for r' src)"
proof (cases "role r = Leader \<and> t = current_term r \<and> src \<in> set (r_participants r)")
  case False
  with assms idle down show ?thesis
    by (auto simp: raft_on_append_entries_response_def handle_leader_append_entries_response_def
        step_down_on_newer_term_def split: if_splits)
next
  case True
  then have h: "handle_leader_append_entries_response X t src success mi r = (r', res)"
    using assms by (simp add: raft_on_append_entries_response_def)
  show ?thesis
  proof (cases success)
    case False
    let ?r1 = "r\<lparr>match_indexes := (match_indexes r)(src \<mapsto> min mi (last_log_index r))\<rparr>"
    have "r' = ?r1" "\<exists>effs. res = Ok effs \<and> set effs \<subseteq> set_option (append_entries_effect_for ?r1 src)"
      using False True h
      by (cases "append_entries_effect_for ?r1 src"; auto simp: handle_leader_append_entries_response_def Let_def split: if_splits)+
    with True False nack show ?thesis by blast
  next
    case ok: True
    define r1 where "r1 = r\<lparr>match_indexes := (match_indexes r)(src \<mapsto> max (case match_indexes r src of Some m \<Rightarrow> m | None \<Rightarrow> 0) mi)\<rparr>"
    define r2 where "r2 = r1\<lparr>commit_index := find_commit r1 (rev (log r1))\<rparr>"
    obtain s pr where p: "persist_log X r2 = (r2\<lparr>raft_log_store := s\<rparr>, pr)"
      using persist_form [of X r2] by (metis prod.collapse)
    obtain hs where adv: "advance_commit_index r1 = (r2, map CommitBlock hs)"
      unfolding advance_commit_index_sel(3) r2_def using commit_effects_form by blast
    have out: "(r', res) = (if commit_index r2 \<noteq> commit_index r1 then (case pr of Err e \<Rightarrow> (r2\<lparr>raft_log_store := s\<rparr>, Err e)
        | Ok _ \<Rightarrow> (r2\<lparr>raft_log_store := s\<rparr>, Ok (map CommitBlock hs))) else (r2, Ok (map CommitBlock hs)))"
      using True ok h unfolding handle_leader_append_entries_response_def Let_def r1_def [symmetric] adv prod.case p
      by (cases pr) auto
    then have "\<exists>s. r' = r2\<lparr>raft_log_store := s\<rparr>" using store_same [of r2] by (cases pr) (auto split: if_splits)
    then have "\<exists>s. r' = committing r1 s" by (simp add: r2_def)
    moreover have "\<exists>hs. effs = map CommitBlock hs" if "res = Ok effs" for effs
      using out that by (auto split: if_splits sum.splits)
    ultimately show ?thesis using True ok ack unfolding r1_def by blast
  qed
qed

lemma receive_append_form:
  assumes "receive_append_entries_at draw t leader src now r = (r1, b)"
  shows "r1 = r \<and> \<not> b \<or> role r1 = Follower \<and> current_term r1 = t \<and> current_term r \<le> t"
  using assms by (auto simp: receive_append_entries_at_def step_down_def Let_def split: if_splits option.splits)

lemma accepts_frame:
  "log_frame r r1 \<Longrightarrow> accepts pi pt es r1 = accepts pi pt es r"
  by (simp add: accepts_def term_at_def log_entry_def log_frame_def)

lemma merged_sel [simp]:
  "log (merged pi es lc r) = merge_log (unat pi) es (log r)"
  "commit_index (merged pi es lc r) = max (commit_index r) (min lc (last_log_index (merged pi es lc r)))"
  "role (merged pi es lc r) = role r" "current_term (merged pi es lc r) = current_term r"
  by (simp_all add: merged_def Let_def last_log_index_def)

lemma move_staged_form:
  "\<exists>pb. move_staged_blocks effs bl r = r\<lparr>pending_blocks := pb\<rparr>"
  by (rule move_staged_blocks_pending)

lemma append_form:
  assumes wf: "raft_wf r" and room: "unat pi + length rbs < 2 ^ 64"
    and step: "raft_on_append_entries X draw t leader pi pt rbs lc src now r = (r', res)"
  obtains (refuse) es where "log r' = log r" "commit_index r' = commit_index r" "es = [] \<or> es = map rb_entry rbs"
      "r' = r \<or> role r' = Follower \<and> current_term r' = t \<and> current_term r \<le> t"
      "res = Ok [append_entries_response r' src False (matching_index_for r' pi pt es)]"
  | (accept) "role r' = Follower" "current_term r' = t" "current_term r \<le> t" "accepts pi pt (map rb_entry rbs) r"
      "log r' = merge_log (unat pi) (map rb_entry rbs) (log r)"
      "commit_index r' = max (commit_index r) (min lc (last_log_index r'))"
      "\<And>effs. res = Ok effs \<Longrightarrow> \<exists>effs'. effs = effs' @ [append_entries_response r' src True
          (if rbs = [] then pi else le_index (rb_entry (last rbs)))] \<and>
        set effs' \<subseteq> range RollbackBlock \<union> range StageRaftEntries \<union> range CommitBlock"
proof -
  let ?es = "map rb_entry rbs"
  obtain r1 b where rc: "receive_append_entries_at draw t leader src now r = (r1, b)" by fastforce
  have f1: "log_frame r r1" using receive_append_entries_frame [of r draw t leader src now] rc by simp
  have wf1: "raft_wf r1"
    using frame_wf [OF wf f1] receive_append_entries_members [OF wf_members [OF wf]] rc by (metis fst_conv)
  note r1 = receive_append_form [OF rc]
  note h = step [unfolded raft_on_append_entries_def handle_append_entries_def, simplified, unfolded rc]
  show thesis
  proof (cases "\<exists>es bl. b \<and> validate_replicated_entries X rbs Map.empty [] = Ok (es, bl)")
    case False
    then have "r' = r1" "res = Ok [append_entries_response r1 src False (matching_index_for r1 pi pt [])]"
      using h by (cases b; cases "validate_replicated_entries X rbs Map.empty []"; auto)+
    with refuse [of "[]"] f1 r1 show ?thesis by (auto simp: log_frame_def)
  next
    case True
    then obtain es bl where v: "b" "validate_replicated_entries X rbs Map.empty [] = Ok (es, bl)" by blast
    have es: "es = ?es" using validate_length [OF v(2)] by simp
    have len: "unat pi + length ?es < 2 ^ 64" using room by simp
    note spec = append_entries_spec [OF raft_wfD(1,2) [OF wf1] len, of pt lc]
    show ?thesis
    proof (cases "accepts pi pt ?es r1")
      case False
      with h v es spec have "r' = r1" "res = Ok [append_entries_response r1 src False (matching_index_for r1 pi pt ?es)]"
        by (auto simp: Let_def)
      with refuse [of ?es] f1 r1 show ?thesis by (auto simp: log_frame_def)
    next
      case acc: True
      let ?m = "merged pi ?es lc r1"
      obtain effs' where ae: "append_entries pi pt ?es lc r1 = (?m, Some effs')"
        and effs': "set effs' \<subseteq> range RollbackBlock \<union> range StageRaftEntries \<union> range CommitBlock"
        using acc spec by (auto simp: commit_effects_def)
      obtain pb where mv: "move_staged_blocks effs' bl ?m = ?m\<lparr>pending_blocks := pb\<rparr>"
        using move_staged_form by blast
      let ?r3 = "?m\<lparr>pending_blocks := pb\<rparr>"
      obtain s pr where pers: "persist_log X ?r3 = (?r3\<lparr>raft_log_store := s\<rparr>, pr)"
        using persist_form [of X ?r3] by (metis prod.collapse)
      have r1': "role r1 = Follower" "current_term r1 = t" "current_term r \<le> t" using r1 v(1) by auto
      define ix where "ix = (if ?es = [] then pi else le_index (last ?es))"
      have ix: "ix = (if rbs = [] then pi else le_index (rb_entry (last rbs)))" by (simp add: ix_def last_map)
      define q where "q = append_entries_response ?r3 src True ix"
      define changed where "changed \<longleftrightarrow> pi < ix \<or> commit_index ?r3 \<noteq> commit_index r1"
      from v(1) have "b = True" by simp
      with h have "(r', res) = (if changed then (case persist_log X ?r3 of (r4, Err e) \<Rightarrow> (r4, Err e)
          | (r4, Ok _) \<Rightarrow> (r4, Ok (effs' @ [q]))) else (?r3, Ok (effs' @ [q])))"
        unfolding changed_def q_def
        by (simp only: v(2) es Let_def ae mv ix_def [symmetric] prod.case sum.case option.case bool.case AppendEntriesRequest.select_convs)
      then have out: "(r', res) = (if changed then (case pr of Err e \<Rightarrow> (?r3\<lparr>raft_log_store := s\<rparr>, Err e)
          | Ok _ \<Rightarrow> (?r3\<lparr>raft_log_store := s\<rparr>, Ok (effs' @ [q]))) else (?r3, Ok (effs' @ [q])))"
        unfolding pers by (cases pr) simp_all
      from out have r': "\<exists>s. r' = ?r3\<lparr>raft_log_store := s\<rparr>" using store_same [of ?r3] by (cases pr) (auto split: if_splits)
      from out have res: "res = Ok effs \<Longrightarrow> effs = effs' @ [q]" for effs by (auto split: if_splits sum.splits)
      from r' obtain s' where r'': "r' = ?r3\<lparr>raft_log_store := s'\<rparr>" by blast
      have last: "last_log_index r' = last_log_index ?m" by (simp add: r'' last_log_index_def)
      show ?thesis
      proof (rule accept)
        show "accepts pi pt ?es r" using acc accepts_frame [OF f1] by simp
        show "\<exists>effs'. effs = effs' @ [append_entries_response r' src True
            (if rbs = [] then pi else le_index (rb_entry (last rbs)))] \<and>
          set effs' \<subseteq> range RollbackBlock \<union> range StageRaftEntries \<union> range CommitBlock" if "res = Ok effs" for effs
          using res [OF that] effs' by (auto simp: q_def ix append_entries_response_def r'')
      qed (use f1 r1' last in \<open>simp_all add: r'' log_frame_def\<close>)
    qed
  qed
qed

section \<open>All handlers\<close>

text \<open>A peer that has just won an election, before it appends its no-op entry.\<close>

definition crowned :: "RaftConsensus \<Rightarrow> RaftConsensus \<Rightarrow> bool" where
  "crowned r r1 \<longleftrightarrow> role r \<noteq> Leader \<and> role r1 = Leader \<and> log r1 = log r \<and> commit_index r1 = commit_index r \<and>
    r_peer_id r1 = r_peer_id r \<and> (\<forall>p m. match_indexes r1 p = Some m \<longrightarrow> p = r_peer_id r \<or> m = 0)"

lemma reset_match_indexes_form:
  "reset_match_indexes me ix ps m p = Some v \<Longrightarrow> m p = Some v \<or> p = me \<or> v = 0"
  by (induction me ix ps m rule: reset_match_indexes.induct) (auto split: if_splits)

lemma become_leader_form:
  assumes "become_leader_if_majority r = (r1, b)"
  shows "if b then crowned (r\<lparr>role := Candidate\<rparr>) r1 \<and> current_term r1 = current_term r else r1 = r"
proof (cases "majority r \<le> length (votes_received r)")
  case True
  have "p = r_peer_id r \<or> v = 0" if "match_indexes r1 p = Some v" for p v
    using reset_match_indexes_form [of "r_peer_id r" "last_log_index r" "r_participants r" Map.empty p v] that assms True
    by (auto simp: become_leader_if_majority_def)
  moreover have "role r1 = Leader" "log r1 = log r" "commit_index r1 = commit_index r" "r_peer_id r1 = r_peer_id r"
      "current_term r1 = current_term r" "b"
    using assms True by (auto simp: become_leader_if_majority_def)
  ultimately show ?thesis by (auto simp: crowned_def)
qed (use assms in \<open>auto simp: become_leader_if_majority_def\<close>)

lemma update_participants_sel [simp]:
  "log (update_participants known r) = log r" "commit_index (update_participants known r) = commit_index r"
  "role (update_participants known r) = role r" "current_term (update_participants known r) = current_term r"
  "r_peer_id (update_participants known r) = r_peer_id r"
  by (simp_all add: update_participants_def Let_def)

lemma update_participants_matches:
  "match_indexes (update_participants known r) p = Some m \<Longrightarrow> match_indexes r p = Some m"
  by (simp add: update_participants_def Let_def split: if_splits)

lemma start_election_form:
  assumes "role r \<noteq> Leader" and "start_election_at now (update_participants known r) = (r1, b)"
  shows "if b then crowned r r1
    else role r1 = Candidate \<and> log r1 = log r \<and> commit_index r1 = commit_index r \<and> current_term r1 = current_term r + 1"
  using become_leader_form [OF assms(2) [unfolded start_election_at_def]] assms(1)
  by (cases b) (simp_all add: crowned_def)

fun is_append :: "ConsensusEffect \<Rightarrow> bool" where
  "is_append (SendRaftAppendEntries _ _ _ _ _ _) = True"
| "is_append _ = False"

fun is_answer :: "ConsensusEffect \<Rightarrow> bool" where
  "is_answer (Send _ (RaftAppendEntriesResponse _ _ _)) = True"
| "is_answer _ = False"

abbreviation neither :: "ConsensusEffect \<Rightarrow> bool" where
  "neither e \<equiv> \<not> is_append e \<and> \<not> is_answer e"

text \<open>
  Every step of a peer is one of six: it leaves log and commit index alone (and may send
  heartbeats), appends an entry of its own as a leader, counts an acknowledgement, notes a
  rejection, or refuses or accepts the entries of a leader.
\<close>

lemma own_step:
  assumes "append_own_entry X e r1 = (r', res)"
  shows "\<exists>s. r' = committing (with_entry e r1) s \<and>
    (\<forall>effs e'. res = Ok effs \<longrightarrow> e' \<in> set effs \<longrightarrow>
      neither e' \<or> e' \<in> set (append_entries_effects_for_followers (with_entry e r1)))"
  using own_form [OF assms] by fastforce

lemma step_cases [consumes 3, case_names calm own ack nack refuse accept]:
  assumes wf: "raft_wf r" and room: "raft_room ev r" and step: "raft_step X ev r = (r', res)"
  obtains "log r' = log r" "commit_index r' = commit_index r"
      "role r' = Leader \<longrightarrow> still_leader r r' \<and> (\<forall>p m. match_indexes r' p = Some m \<longrightarrow> match_indexes r p = Some m)"
      "still_leader r r' \<longrightarrow> role r' = Leader"
      "\<forall>effs e. res = Ok effs \<longrightarrow> e \<in> set effs \<longrightarrow>
        neither e \<or> role r' = Leader \<and> e \<in> set (append_entries_effects_for_followers r')"
  | r1 e s where "crowned r r1 \<or> r1 = r \<and> role r = Leader"
      "le_term e = current_term r1" "le_index e = last_log_index r1 + 1"
      "r' = committing (with_entry e r1) s"
      "\<forall>effs e'. res = Ok effs \<longrightarrow> e' \<in> set effs \<longrightarrow>
        neither e' \<or> e' \<in> set (append_entries_effects_for_followers (with_entry e r1))"
  | src mi s where "ev = AppendReply (current_term r) src True mi" "role r = Leader"
      "r' = committing (r\<lparr>match_indexes := (match_indexes r)(src \<mapsto>
        max (case match_indexes r src of Some m \<Rightarrow> m | None \<Rightarrow> 0) mi)\<rparr>) s"
      "\<forall>effs e. res = Ok effs \<longrightarrow> e \<in> set effs \<longrightarrow> neither e"
  | src mi effs where "ev = AppendReply (current_term r) src False mi" "role r = Leader"
      "r' = r\<lparr>match_indexes := (match_indexes r)(src \<mapsto> min mi (last_log_index r))\<rparr>"
      "res = Ok effs" "set effs \<subseteq> set_option (append_entries_effect_for r' src)"
  | draw t leader pi pt rbs lc src now es where "ev = AppendEntries draw t leader pi pt rbs lc src now"
      "log r' = log r" "commit_index r' = commit_index r" "es = [] \<or> es = map rb_entry rbs"
      "r' = r \<or> role r' = Follower \<and> current_term r' = t \<and> current_term r \<le> t"
      "res = Ok [append_entries_response r' src False (matching_index_for r' pi pt es)]"
  | draw t leader pi pt rbs lc src now where "ev = AppendEntries draw t leader pi pt rbs lc src now"
      "role r' = Follower" "current_term r' = t" "current_term r \<le> t" "accepts pi pt (map rb_entry rbs) r"
      "log r' = merge_log (unat pi) (map rb_entry rbs) (log r)"
      "commit_index r' = max (commit_index r) (min lc (last_log_index r'))"
      "\<forall>effs e. res = Ok effs \<longrightarrow> e \<in> set effs \<longrightarrow> neither e \<or>
        e = append_entries_response r' src True (if rbs = [] then pi else le_index (rb_entry (last rbs)))"
proof (cases ev)
  case (Tick now known)
  with step have "raft_on_tick X now known r = (r', res)" by simp
  then show ?thesis
  proof (cases rule: tick_form)
    case idle
    then show ?thesis by (intro that(1)) (auto dest: update_participants_matches)
  next
    case (beat h)
    then show ?thesis by (intro that(1)) (auto dest: update_participants_matches)
  next
    case stand
    with start_election_form [OF stand(1,2)] show ?thesis by (intro that(1)) auto
  next
    case (win r1 res')
    have "crowned r r1" using start_election_form [OF win(1,2)] by simp
    moreover obtain s where s: "r' = committing (with_entry (noop (current_term r1) (last_log_index r1 + 1)) r1) s"
      "\<forall>effs e'. res' = Ok effs \<longrightarrow> e' \<in> set effs \<longrightarrow> neither e' \<or>
        e' \<in> set (append_entries_effects_for_followers (with_entry (noop (current_term r1) (last_log_index r1 + 1)) r1))"
      using own_step [OF win(3) [unfolded append_leader_noop_def]] by blast
    moreover have "\<forall>effs e'. res = Ok effs \<longrightarrow> e' \<in> set effs \<longrightarrow> neither e' \<or>
        e' \<in> set (append_entries_effects_for_followers (with_entry (noop (current_term r1) (last_log_index r1 + 1)) r1))"
      using win(4) s(2) by fastforce
    ultimately show ?thesis by (intro that(2) [OF _ _ _ s(1)]) (simp_all add: noop_def)
  qed
next
  case (RequestVote t cand li lt src)
  with step show ?thesis
    by (intro that(1)) (auto simp: raft_on_request_vote_def request_vote_def step_down_def Let_def split: if_splits option.splits)
next
  case (VoteReply t voter granted)
  with step have "raft_on_request_vote_response X t voter granted r = (r', res)" by simp
  then show ?thesis
  proof (cases rule: vote_reply_form)
    case (win r1)
    have "crowned r r1" using become_leader_form [OF win(3)] win(1) by (auto simp: crowned_def)
    moreover obtain s where s: "r' = committing (with_entry (noop (current_term r1) (last_log_index r1 + 1)) r1) s"
      "\<forall>effs e'. res = Ok effs \<longrightarrow> e' \<in> set effs \<longrightarrow> neither e' \<or>
        e' \<in> set (append_entries_effects_for_followers (with_entry (noop (current_term r1) (last_log_index r1 + 1)) r1))"
      using own_step [OF win(4) [unfolded append_leader_noop_def]] by blast
    ultimately show ?thesis by (intro that(2) [OF _ _ _ s]) (simp_all add: noop_def)
  qed (intro that(1); auto simp: step_down_def)+
next
  case (AppendEntries draw t leader pi pt rbs lc src now)
  with step room have "raft_on_append_entries X draw t leader pi pt rbs lc src now r = (r', res)" "unat pi + length rbs < 2 ^ 64"
    by simp_all
  from wf this(2,1) show ?thesis
  proof (cases rule: append_form)
    case (refuse es)
    with AppendEntries show ?thesis by (intro that(5)) auto
  next
    case accept
    with AppendEntries show ?thesis by (intro that(6)) fastforce+
  qed
next
  case (AppendReply t src success mi)
  with step have "raft_on_append_entries_response X t src success mi r = (r', res)" by simp
  then show ?thesis
  proof (cases rule: append_reply_form)
    case (ack s)
    with AppendReply show ?thesis by (intro that(3)) fastforce+
  next
    case (nack effs)
    with AppendReply show ?thesis by (intro that(4)) auto
  qed (intro that(1); auto simp: step_down_def)+
next
  case (ClientTx tx)
  with step show ?thesis
    by (intro that(1)) (auto simp: raft_on_client_transaction_def forward_client_transaction_def
        split: RaftRole.splits sum.splits option.splits)
next
  case (BlockCreated h)
  show ?thesis
  proof (cases "role r = Leader \<and> ensure_no_uncommitted_block r = Ok ()")
    case True
    define e where "e = \<lparr>le_term = current_term r, le_index = last_log_index r + 1, le_block_hash = h\<rparr>"
    have "append_own_entry X e r = (r', res)"
      using True BlockCreated step by (simp add: e_def raft_on_block_created_def append_local_block_def)
    from own_step [OF this] obtain s where s: "r' = committing (with_entry e r) s"
        "\<forall>effs e'. res = Ok effs \<longrightarrow> e' \<in> set effs \<longrightarrow> neither e' \<or>
          e' \<in> set (append_entries_effects_for_followers (with_entry e r))"
      by blast
    show ?thesis by (rule that(2) [OF _ _ _ s]) (use True in \<open>simp_all add: e_def\<close>)
  next
    case False
    with BlockCreated step have "r' = r" "\<forall>effs. res = Ok effs \<longrightarrow> effs = []"
      by (auto simp: raft_on_block_created_def append_local_block_def split: RaftRole.splits sum.splits)
    then show ?thesis by (intro that(1)) fastforce+
  qed
next
  case (TakePending h)
  with step show ?thesis by (intro that(1)) (auto simp: take_pending_block_def)
qed

end
