(* ===== verification/Raft_System.thy ===== *)
theory Raft_System
  imports Raft_Moves "HOL-Library.Sublist"
begin

text \<open>
  The cluster of \<^verbatim>\<open>Raft_Cluster\<close> with its append-entries traffic: a request or a reply is
  delivered only if some peer sent it, and may still be lost, delayed, duplicated or reordered.
  All peers start with an empty log. Ghost fields remember every log prefix a peer ever had, the
  log each candidate stood with, and which prefixes a peer held in the term of their last entry.
  The parameter \<open>ok\<close> restricts which deliveries a run contains.
\<close>

section \<open>The step relation\<close>

text \<open>
  A request: sender, receiver, term, previous index and term, entries, commit index of the
  sender. A reply: sender, receiver, term, success, match index, and the term of the request
  it answers, which the message itself does not carry.
\<close>

datatype append_wire = AppendWire PeerId PeerId u64 u64 u64 "RaftLogEntry list" u64

datatype reply_wire = ReplyWire PeerId PeerId u64 bool u64 u64

record system =
  core :: cluster
  appends :: "append_wire set"
  replies :: "reply_wire set"
  logs :: "RaftLogEntry list set"
  campaigns :: "(u64 \<times> PeerId \<times> RaftLogEntry list) set"
  held :: "(PeerId \<times> RaftLogEntry list) set"

abbreviation peer :: "system \<Rightarrow> PeerId \<Rightarrow> RaftConsensus" where
  "peer c n \<equiv> nodes (core c) n"

definition effects_of :: "raft_error + ConsensusEffect list \<Rightarrow> ConsensusEffect set" where
  "effects_of res = (case res of Err _ \<Rightarrow> {} | Ok effs \<Rightarrow> set effs)"

definition append_wires :: "PeerId \<Rightarrow> ConsensusEffect set \<Rightarrow> append_wire set" where
  "append_wires n E = {AppendWire n p t pi pt es lc |p t pi pt es lc. SendRaftAppendEntries p t pi pt es lc \<in> E}"

definition reply_wires :: "PeerId \<Rightarrow> u64 \<Rightarrow> ConsensusEffect set \<Rightarrow> reply_wire set" where
  "reply_wires n rt E = {ReplyWire n p t b mi rt |p t b mi. Send p (RaftAppendEntriesResponse t b mi) \<in> E}"

fun request_term :: "raft_event \<Rightarrow> u64" where
  "request_term (AppendEntries draw t leader pi pt rbs lc src now) = t"
| "request_term _ = 0"

fun delivered :: "system \<Rightarrow> PeerId \<Rightarrow> raft_event \<Rightarrow> bool" where
  "delivered c n (AppendEntries draw t leader pi pt rbs lc src now) =
    (leader = src \<and> AppendWire src n t pi pt (map rb_entry rbs) lc \<in> appends c)"
| "delivered c n (AppendReply t src success mi) = (\<exists>rt. ReplyWire src n t success mi rt \<in> replies c)"
| "delivered c n _ = True"

definition after_event :: "('a) raft_ext_scheme \<Rightarrow> PeerId set \<Rightarrow> PeerId \<Rightarrow> raft_event \<Rightarrow> system \<Rightarrow> system" where
  "after_event X U n ev c =
    (let r = peer c n; (r', res) = raft_step X ev r
     in \<lparr>core = after_step X U n ev (core c),
         appends = appends c \<union> append_wires n (effects_of res),
         replies = replies c \<union> reply_wires n (request_term ev) (effects_of res),
         logs = logs c \<union> {l. prefix l (log r')},
         campaigns = campaigns c \<union> {(current_term r', n, log r) |_::unit. role r' \<noteq> Follower \<and> \<not> still_leader r r'},
         held = held c \<union> {(n, l) |l. prefix l (log r') \<and> l \<noteq> [] \<and> last_term l = current_term r'}\<rparr>)"

inductive system_step ::
    "('a) raft_ext_scheme \<Rightarrow> PeerId set \<Rightarrow> (system \<Rightarrow> PeerId \<Rightarrow> raft_event \<Rightarrow> bool) \<Rightarrow> system \<Rightarrow> system \<Rightarrow> bool"
  for X U ok where
  event: "n \<in> U \<Longrightarrow> deliverable U (sent (core c)) n ev \<Longrightarrow> delivered c n ev \<Longrightarrow> ok c n ev \<Longrightarrow>
    term_room (peer c n) \<Longrightarrow> length (log (peer c n)) + 1 < 2 ^ 64 \<Longrightarrow> system_step X U ok c (after_event X U n ev c)"

definition fresh_system :: "PeerId set \<Rightarrow> system \<Rightarrow> bool" where
  "fresh_system U c \<longleftrightarrow> initial U (core c) \<and> (\<forall>n \<in> U. log (peer c n) = []) \<and>
    appends c = {} \<and> replies c = {} \<and> logs c = {[]} \<and> campaigns c = {} \<and> held c = {}"

inductive running ::
    "('a) raft_ext_scheme \<Rightarrow> PeerId set \<Rightarrow> (system \<Rightarrow> PeerId \<Rightarrow> raft_event \<Rightarrow> bool) \<Rightarrow> system \<Rightarrow> bool" for X U ok where
  start: "fresh_system U c \<Longrightarrow> running X U ok c"
| step: "running X U ok c \<Longrightarrow> system_step X U ok c c' \<Longrightarrow> running X U ok c'"

inductive_cases system_stepE: "system_step X U ok c c'"

lemma system_step_core: "system_step X U ok c c' \<Longrightarrow> cluster_step X U (core c) (core c')"
  by (erule system_stepE) (auto simp: after_event_def Let_def split: prod.split intro!: cluster_step.handle)

lemma running_reachable: "running X U ok c \<Longrightarrow> reachable X U (core c)"
  by (induction rule: running.induct)
    (auto simp: fresh_system_def intro: reachable.intros system_step_core)

section \<open>One event\<close>

text \<open>What the proofs below know of an event: the peer before and after, and the new state.\<close>

definition event_of ::
    "('a) raft_ext_scheme \<Rightarrow> PeerId set \<Rightarrow> PeerId \<Rightarrow> raft_event \<Rightarrow> system \<Rightarrow> system \<Rightarrow> RaftConsensus \<Rightarrow>
     raft_error + ConsensusEffect list \<Rightarrow> bool" where
  "event_of X U n ev c c' r' res \<longleftrightarrow> n \<in> U \<and> deliverable U (sent (core c)) n ev \<and> delivered c n ev \<and>
    term_room (peer c n) \<and> length (log (peer c n)) + 1 < 2 ^ 64 \<and> raft_step X ev (peer c n) = (r', res) \<and>
    c' = after_event X U n ev c"

lemma system_step_event:
  assumes "system_step X U ok c c'"
  obtains n ev r' res where "event_of X U n ev c c' r' res" "ok c n ev"
  proof -
  from assms obtain n ev where 1: "n \<in> U" "deliverable U (sent (core c)) n ev" "delivered c n ev" "ok c n ev"
      "term_room (peer c n)" "length (log (peer c n)) + 1 < 2 ^ 64" "c' = after_event X U n ev c"
    by (auto elim: system_stepE)
  moreover obtain r' res where "raft_step X ev (peer c n) = (r', res)" by fastforce
  ultimately show thesis using that by (simp add: event_of_def)
qed

lemma event_sel:
  assumes "event_of X U n ev c c' r' res"
  shows "nodes (core c') = (nodes (core c))(n := r')"
    and "sent (core c') = sent (core c) \<union> wires U n res"
    and "ballots (core c') = ballots (core c) \<union> new_ballots n r'"
    and "leaders (core c') = leaders (core c) \<union> {(current_term r', n) |_::unit. role r' = Leader}"
    and "appends c' = appends c \<union> append_wires n (effects_of res)"
    and "replies c' = replies c \<union> reply_wires n (request_term ev) (effects_of res)"
    and "logs c' = logs c \<union> {l. prefix l (log r')}"
    and "campaigns c' = campaigns c \<union>
      {(current_term r', n, log (peer c n)) |_::unit. role r' \<noteq> Follower \<and> \<not> still_leader (peer c n) r'}"
    and "held c' = held c \<union> {(n, l) |l. prefix l (log r') \<and> l \<noteq> [] \<and> last_term l = current_term r'}"
proof -
  have st: "raft_step X ev (peer c n) = (r', res)" and c': "c' = after_event X U n ev c"
    using assms by (simp_all add: event_of_def)
  note sel = after_step_sel [OF st, of U]
  show "nodes (core c') = (nodes (core c))(n := r')" "sent (core c') = sent (core c) \<union> wires U n res"
    "ballots (core c') = ballots (core c) \<union> new_ballots n r'"
    "leaders (core c') = leaders (core c) \<union> {(current_term r', n) |_::unit. role r' = Leader}"
    "appends c' = appends c \<union> append_wires n (effects_of res)"
    "replies c' = replies c \<union> reply_wires n (request_term ev) (effects_of res)"
    "logs c' = logs c \<union> {l. prefix l (log r')}"
    "campaigns c' = campaigns c \<union>
      {(current_term r', n, log (peer c n)) |_::unit. role r' \<noteq> Follower \<and> \<not> still_leader (peer c n) r'}"
    "held c' = held c \<union> {(n, l) |l. prefix l (log r') \<and> l \<noteq> [] \<and> last_term l = current_term r'}"
    unfolding c' after_event_def Let_def st by (simp_all add: sel)
qed

lemma event_term_mono:
  assumes "event_of X U n ev c c' r' res"
  shows "current_term (peer c n) \<le> current_term r'" "election_step ev (peer c n) r'" "vote_kept (peer c n) r'"
  using assms raft_step_election [of "peer c n" ev X] by (auto simp: event_of_def vote_kept_def)

section \<open>Segments and merges\<close>

lemma term_at_last_term:
  assumes "log_ok (log r)"
  shows "term_at r ix = (if unat ix \<le> length (log r) then Some (last_term (take (unat ix) (log r))) else None)"
proof (cases "ix = 0")
  case False
  then have "0 < unat ix" by (simp add: unat_gt_0)
  then show ?thesis
    using False assms by (auto simp: term_at_nth last_term_def last_conv_nth)
qed (simp add: term_at_nth assms last_term_def)

lemma effect_for_segment:
  assumes "log_ok (log r)" and "append_entries_effect_for r p = Some (SendRaftAppendEntries q t pi pt es lc)"
  shows "q = p" "t = current_term r" "segment_of (log r) pi pt es" "lc = commit_index r"
proof -
  from assms(1,2) obtain ix where ix: "unat ix \<le> length (log r)"
      "SendRaftAppendEntries q t pi pt es lc = SendRaftAppendEntries p (current_term r) ix
        (if ix = 0 then 0 else le_term (log r ! (unat ix - 1))) (take MAX_APPEND_ENTRIES (drop (unat ix) (log r))) (commit_index r)"
    by (rule append_entries_effect_for_segment)
  then show "q = p" "t = current_term r" "lc = commit_index r" by simp_all
  have "last_term (take (unat ix) (log r)) = (if ix = 0 then 0 else le_term (log r ! (unat ix - 1)))"
    using term_at_last_term [OF assms(1), of ix] term_at_nth [OF assms(1), of ix] ix(1) by (auto split: if_splits)
  moreover have "take k (drop (unat ix) (log r)) = take (length (take k (drop (unat ix) (log r)))) (drop (unat ix) (log r))" for k
    by (cases "k \<le> length (drop (unat ix) (log r))") auto
  ultimately show "segment_of (log r) pi pt es" using ix by (auto simp: segment_of_def)
qed

lemma followers_segment:
  assumes "log_ok (log r)" and "SendRaftAppendEntries q t pi pt es lc \<in> set (append_entries_effects_for_followers r)"
  shows "q \<noteq> r_peer_id r" "t = current_term r" "segment_of (log r) pi pt es" "lc = commit_index r"
proof -
  from assms(2) obtain p where "p \<noteq> r_peer_id r" "append_entries_effect_for r p = Some (SendRaftAppendEntries q t pi pt es lc)"
    by (auto simp: append_entries_effects_for_followers_def List.map_filter_def)
  with effect_for_segment [OF assms(1) this(2)] show "q \<noteq> r_peer_id r" "t = current_term r"
    "segment_of (log r) pi pt es" "lc = commit_index r" by simp_all
qed

text \<open>Two logs agree wherever they have the same term at the same index.\<close>

definition agree :: "RaftLogEntry list \<Rightarrow> RaftLogEntry list \<Rightarrow> bool" where
  "agree l l' \<longleftrightarrow> (\<forall>i. i \<le> length l \<longrightarrow> i \<le> length l' \<longrightarrow> last_term (take i l) = last_term (take i l') \<longrightarrow> take i l = take i l')"

lemma last_term_take: "0 < i \<Longrightarrow> i \<le> length l \<Longrightarrow> last_term (take i l) = le_term (l ! (i - 1))"
  by (auto simp: last_term_def last_conv_nth)

lemma merge_agree:
  assumes ag: "agree l L" and seg: "segment_of L pi pt es" and pl: "unat pi \<le> length l"
    and pt: "last_term (take (unat pi) l) = pt"
  shows "merge_log (unat pi) es l = l \<or> merge_log (unat pi) es l = take (unat pi + length es) L"
    and "take (unat pi + length es) (merge_log (unat pi) es l) = take (unat pi + length es) L"
proof -
  let ?p = "unat pi" and ?k = "agree_len (drop (unat pi) l) es"
  have L: "?p + length es \<le> length L" "es = take (length es) (drop ?p L)" "last_term (take ?p L) = pt"
    using seg by (auto simp: segment_of_def)
  have k: "?k \<le> length es" "?p + ?k \<le> length l" using agree_len_le [of "drop ?p l" es] pl by auto
  have pre: "take (?p + ?k) l = take (?p + ?k) L"
  proof (cases "?k = 0")
    case True
    with ag L pt pl show ?thesis by (simp add: agree_def)
  next
    case False
    then have "le_term (drop ?p l ! (?k - 1)) = le_term (es ! (?k - 1))" by (intro agree_len_terms) simp
    also have "es ! (?k - 1) = L ! (?p + ?k - 1)"
      using False k L(1) by (subst L(2)) (simp add: algebra_simps)
    finally have "last_term (take (?p + ?k) l) = last_term (take (?p + ?k) L)"
      using False k L(1) pl by (simp add: last_term_take algebra_simps)
    with ag k L(1) show ?thesis by (simp add: agree_def)
  qed
  have "take (?p + length es) L = take (?p + ?k) L @ drop ?k es"
  proof -
    have "take (?p + length es) L = take ?p L @ es" by (metis L(2) take_add)
    also have "\<dots> = take ?p L @ take ?k es @ drop ?k es" by simp
    also have "take ?k es = take ?k (drop ?p L)" by (subst L(2)) (simp add: min_absorb1 k)
    finally show ?thesis by (simp add: take_add)
  qed
  with pre have m: "merge_log ?p es l = (if ?k = length es then l else take (?p + length es) L)"
    by (simp add: merge_log_def Let_def)
  then show "merge_log ?p es l = l \<or> merge_log ?p es l = take (?p + length es) L" by simp
  show "take (?p + length es) (merge_log ?p es l) = take (?p + length es) L"
    using m pre by (cases "?k = length es") simp_all
qed

end
