(* ===== verification/Log_Matching.thy ===== *)
theory Log_Matching
  imports Raft_System
begin

text \<open>
  Log matching for a whole cluster: all log prefixes that any peers ever had and that end in an
  entry of the same term are prefixes of one another. The argument is Raft's: a term has one
  leader, a leader only appends to its log, and a follower's log becomes a prefix of a log its
  leader had.
\<close>

section \<open>The invariant\<close>

definition logs_inv :: "system \<Rightarrow> bool" where
  "logs_inv c \<longleftrightarrow> (\<forall>L \<in> logs c. \<forall>l. prefix l L \<longrightarrow> l \<in> logs c) \<and>
    (\<forall>L \<in> logs c. log_ok L \<and> sorted (map le_term L)) \<and>
    (\<forall>L \<in> logs c. L \<noteq> [] \<longrightarrow> (\<exists>m. (last_term L, m) \<in> leaders (core c))) \<and>
    (\<forall>L \<in> logs c. \<forall>L' \<in> logs c. L \<noteq> [] \<longrightarrow> L' \<noteq> [] \<longrightarrow> last_term L = last_term L' \<longrightarrow> prefix L L' \<or> prefix L' L)"

definition peer_log_inv :: "system \<Rightarrow> PeerId \<Rightarrow> bool" where
  "peer_log_inv c n \<longleftrightarrow> raft_wf (peer c n) \<and> r_peer_id (peer c n) = n \<and> log (peer c n) \<in> logs c \<and>
    (\<forall>e \<in> set (log (peer c n)). le_term e \<le> current_term (peer c n)) \<and>
    (role (peer c n) = Leader \<longrightarrow> log (peer c n) \<noteq> [] \<and> last_term (log (peer c n)) = current_term (peer c n) \<and>
      (\<forall>L \<in> logs c. L \<noteq> [] \<longrightarrow> last_term L = current_term (peer c n) \<longrightarrow> prefix L (log (peer c n))))"

text \<open>A peer that was leader of its current term is so still.\<close>

definition office_inv :: "PeerId set \<Rightarrow> system \<Rightarrow> bool" where
  "office_inv U c \<longleftrightarrow> (\<forall>t n. (t, n) \<in> leaders (core c) \<longrightarrow> n \<in> U \<and> t \<le> current_term (peer c n) \<and>
    (t = current_term (peer c n) \<longrightarrow> role (peer c n) = Leader))"

text \<open>A request carries a segment of a log its sender had as leader of the term.\<close>

definition append_inv :: "system \<Rightarrow> bool" where
  "append_inv c \<longleftrightarrow> (\<forall>src p t pi pt es lc. AppendWire src p t pi pt es lc \<in> appends c \<longrightarrow>
    src \<noteq> p \<and> (t, src) \<in> leaders (core c) \<and>
    (\<exists>L \<in> logs c. L \<noteq> [] \<and> last_term L = t \<and> segment_of L pi pt es)) \<and>
    (\<forall>src p t b mi rt. ReplyWire src p t b mi rt \<in> replies c \<longrightarrow> src \<noteq> p)"

definition log_inv :: "PeerId set \<Rightarrow> system \<Rightarrow> bool" where
  "log_inv U c \<longleftrightarrow> cluster_inv U (core c) \<and> logs_inv c \<and> (\<forall>n \<in> U. peer_log_inv c n) \<and> office_inv U c \<and> append_inv c"

lemma logs_invD:
  assumes "logs_inv c"
  shows "L \<in> logs c \<Longrightarrow> prefix l L \<Longrightarrow> l \<in> logs c"
    and "L \<in> logs c \<Longrightarrow> log_ok L" and "L \<in> logs c \<Longrightarrow> sorted (map le_term L)"
    and "L \<in> logs c \<Longrightarrow> L \<noteq> [] \<Longrightarrow> \<exists>m. (last_term L, m) \<in> leaders (core c)"
    and "L \<in> logs c \<Longrightarrow> L' \<in> logs c \<Longrightarrow> L \<noteq> [] \<Longrightarrow> L' \<noteq> [] \<Longrightarrow> last_term L = last_term L' \<Longrightarrow> prefix L L' \<or> prefix L' L"
  using assms by (simp_all add: logs_inv_def)

lemma prefix_same_length: "prefix a b \<Longrightarrow> length a = length b \<Longrightarrow> a = b"
  by (auto simp: prefix_def)

lemma logs_agree:
  assumes "logs_inv c" and "L \<in> logs c" and "L' \<in> logs c"
  shows "agree L L'"
  unfolding agree_def
proof (intro allI impI)
  fix i assume i: "i \<le> length L" "i \<le> length L'" "last_term (take i L) = last_term (take i L')"
  show "take i L = take i L'"
  proof (cases "i = 0")
    case False
    have "take i L \<in> logs c" "take i L' \<in> logs c" using assms logs_invD(1) take_is_prefix by blast+
    moreover have "take i L \<noteq> []" "take i L' \<noteq> []" using False i by auto
    ultimately have "prefix (take i L) (take i L') \<or> prefix (take i L') (take i L)"
      using i(3) by (intro logs_invD(5) [OF assms(1)])
    moreover have "length (take i L) = length (take i L')" using i by simp
    ultimately show ?thesis using prefix_same_length by metis
  qed simp
qed

lemma sorted_last_term: "sorted (map le_term L) \<Longrightarrow> e \<in> set L \<Longrightarrow> le_term e \<le> last_term L"
  by (cases L rule: rev_cases) (auto simp: last_term_def sorted_append)

lemma fresh_log_inv: "fresh_system U c \<Longrightarrow> log_inv U c"
  using initial_inv [of U "core c"]
  by (auto simp: fresh_system_def log_inv_def logs_inv_def office_inv_def append_inv_def peer_log_inv_def initial_def)
    (fastforce simp: new_with_log_def raft_wf_def)+

section \<open>One event\<close>

lemma event_room:
  assumes inv: "log_inv U c" and ev: "event_of X U n ev c c' r' res"
  shows "raft_room ev (peer c n)"
proof (cases ev)
  case (AppendEntries draw t leader pi pt rbs lc src now)
  with ev have "AppendWire src n t pi pt (map rb_entry rbs) lc \<in> appends c" by (simp add: event_of_def)
  with inv obtain L where "L \<in> logs c" "segment_of L pi pt (map rb_entry rbs)"
    unfolding log_inv_def append_inv_def by blast
  with inv have "log_ok L" "unat pi + length rbs \<le> length L"
    by (auto simp: log_inv_def logs_inv_def segment_of_def)
  with log_ok_length [of L] AppendEntries show ?thesis by simp
qed (use ev in \<open>simp_all add: event_of_def\<close>)

text \<open>The state that every proof about an event starts from.\<close>

lemma event_inv:
  assumes inv: "log_inv U c" and ev: "event_of X U n ev c c' r' res"
  shows "raft_wf (peer c n)" "raft_room ev (peer c n)" "raft_step X ev (peer c n) = (r', res)"
    and "cluster_inv U (core c')" "peer_log_inv c n" "n \<in> U" "raft_wf r'"
proof -
  show 1: "raft_wf (peer c n)" "peer_log_inv c n" "n \<in> U" "raft_step X ev (peer c n) = (r', res)"
    using inv ev by (auto simp: log_inv_def peer_log_inv_def event_of_def)
  show 2: "raft_room ev (peer c n)" by (rule event_room [OF assms])
  have "cluster_step X U (core c) (core c')"
    using ev by (intro system_step_core [where ok = "\<lambda>_ _ _. True"]) (auto simp: event_of_def intro: system_step.event)
  then show "cluster_inv U (core c')" using inv cluster_step_inv by (auto simp: log_inv_def)
  show "raft_wf r'" using good_raft_step [OF 1(1) 2, of X] 1(4) by (simp add: good_step_def step_ok_def)
qed

text \<open>A delivered request comes from another peer, the leader of its term.\<close>

lemma request_from_leader:
  assumes inv: "log_inv U c" and ev: "event_of X U n (AppendEntries draw t leader pi pt rbs lc src now) c c' r' res"
  shows "src \<noteq> n" "(t, src) \<in> leaders (core c)"
    and "\<exists>L \<in> logs c. L \<noteq> [] \<and> last_term L = t \<and> segment_of L pi pt (map rb_entry rbs)"
proof -
  have "AppendWire src n t pi pt (map rb_entry rbs) lc \<in> appends c" using ev by (simp add: event_of_def)
  with inv show "src \<noteq> n" "(t, src) \<in> leaders (core c)"
    "\<exists>L \<in> logs c. L \<noteq> [] \<and> last_term L = t \<and> segment_of L pi pt (map rb_entry rbs)"
    unfolding log_inv_def append_inv_def by blast+
qed

text \<open>The leader of a term has no entry of that term before it is elected.\<close>

lemma own_covers:
  assumes inv: "log_inv U c" and ev: "event_of X U n ev c c' r' res" and lead: "role r' = Leader"
    and L: "L \<in> logs c" "L \<noteq> []" "last_term L = current_term r'"
  shows "still_leader (peer c n) r'" "prefix L (log (peer c n))"
proof -
  note sel = event_sel [OF ev]
  from L inv obtain m where m: "(current_term r', m) \<in> leaders (core c)"
    using logs_invD(4) [of c L] by (auto simp: log_inv_def)
  have "(current_term r', n) \<in> leaders (core c')" "(current_term r', m) \<in> leaders (core c')"
    using m lead by (simp_all add: sel(4))
  then have "m = n" using one_leader [OF event_inv(4) [OF inv ev]] by blast
  with m inv have "current_term r' \<le> current_term (peer c n)"
      "current_term r' = current_term (peer c n) \<Longrightarrow> role (peer c n) = Leader"
    by (auto simp: log_inv_def office_inv_def)
  with event_term_mono(1) [OF ev] show still: "still_leader (peer c n) r'" by (auto dest: order_antisym)
  with event_inv(5) [OF inv ev] L show "prefix L (log (peer c n))" by (auto simp: peer_log_inv_def)
qed

text \<open>A step leaves the peer with a log that some peer had before, or it appends its own entry.\<close>

lemma event_log:
  assumes inv: "log_inv U c" and ev: "event_of X U n ev c c' r' res"
  obtains (known) "log r' \<in> logs c" "role r' = Leader \<longrightarrow> log r' = log (peer c n) \<and> still_leader (peer c n) r'"
      "\<forall>e \<in> set (log r'). le_term e \<le> current_term r'"
  | (own) e where "log r' = log (peer c n) @ [e]" "le_term e = current_term r'" "role r' = Leader"
proof -
  let ?r = "peer c n"
  have li: "logs_inv c" and L0: "log ?r \<in> logs c" and le: "\<forall>e \<in> set (log ?r). le_term e \<le> current_term ?r"
    using inv event_inv(5) [OF inv ev] by (auto simp: log_inv_def peer_log_inv_def)
  have old: "\<forall>e \<in> set (log ?r). le_term e \<le> current_term r'" using le event_term_mono(1) [OF ev] order_trans by blast
  from event_inv(1,2,3) [OF inv ev] show thesis
  proof (cases rule: step_cases)
    case calm
    show ?thesis by (rule known) (use calm(1,3) L0 old in simp_all)
  next
    case (own r1 e s)
    then show ?thesis by (intro that(2) [of e]) (auto simp: crowned_def)
  next
    case (ack src mi s)
    show ?thesis by (rule known) (use ack(2,3) L0 old in simp_all)
  next
    case (nack src mi effs)
    show ?thesis by (rule known) (use nack(2,3) L0 old in simp_all)
  next
    case (refuse draw t leader pi pt rbs lc src now es)
    show ?thesis by (rule known) (use refuse(2,5) L0 old in auto)
  next
    case (accept draw t leader pi pt rbs lc src now)
    obtain L where L: "L \<in> logs c" "L \<noteq> []" "last_term L = t" "segment_of L pi pt (map rb_entry rbs)"
      using request_from_leader(3) [OF inv ev [unfolded accept(1)]] by blast
    have "log_ok (log ?r)" using logs_invD(2) [OF li L0] .
    then have "unat pi \<le> length (log ?r)" "last_term (take (unat pi) (log ?r)) = pt"
      using accept(5) term_at_last_term by (auto simp: accepts_def split: if_splits)
    from merge_agree(1) [OF logs_agree [OF li L0 L(1)] L(4) this] accept(6)
    consider "log r' = log ?r" | "log r' = take (unat pi + length rbs) L" by auto
    then show ?thesis
    proof cases
      case 1
      with L0 old known accept(2) show ?thesis by simp
    next
      case 2
      have "\<forall>e \<in> set (log r'). le_term e \<le> current_term r'"
        using sorted_last_term [OF logs_invD(3) [OF li L(1)]] L(3) accept(3) by (auto simp: 2 dest: in_set_takeD)
      with 2 known accept(2) logs_invD(1) [OF li L(1)] take_is_prefix show ?thesis by auto
    qed
  qed
qed

section \<open>Preservation\<close>

lemma logs_known:
  assumes "log_inv U c" and "event_of X U n ev c c' r' res" and "log r' \<in> logs c"
  shows "logs c' = logs c"
  using assms logs_invD(1) [of c] by (auto simp: log_inv_def event_sel(7) [OF assms(2)])

lemma logs_own:
  assumes "log_inv U c" and "event_of X U n ev c c' r' res" and "log r' = log (peer c n) @ [e]"
  shows "logs c' = insert (log r') (logs c)"
proof -
  have "log (peer c n) \<in> logs c" using event_inv(5) [OF assms(1,2)] by (simp add: peer_log_inv_def)
  then have "prefix l (log (peer c n)) \<Longrightarrow> l \<in> logs c" for l
    using assms(1) logs_invD(1) [of c] by (auto simp: log_inv_def)
  then show ?thesis by (auto simp: event_sel(7) [OF assms(2)] assms(3))
qed

lemma logs_step:
  assumes inv: "log_inv U c" and ev: "event_of X U n ev c c' r' res"
  shows "logs_inv c'"
  using inv ev
proof (cases rule: event_log)
  case known
  have "leaders (core c) \<subseteq> leaders (core c')" by (auto simp: event_sel(4) [OF ev])
  then have "\<exists>m. (last_term L, m) \<in> leaders (core c')" if "L \<in> logs c" "L \<noteq> []" for L
    using inv that logs_invD(4) [of c L] by (auto simp: log_inv_def)
  with inv show ?thesis by (simp add: logs_inv_def log_inv_def logs_known [OF inv ev known(1)])
next
  case (own e)
  let ?r = "peer c n"
  have li: "logs_inv c" and L0: "log ?r \<in> logs c" and le: "\<forall>e \<in> set (log ?r). le_term e \<le> current_term ?r"
    using inv event_inv(5) [OF inv ev] by (auto simp: log_inv_def peer_log_inv_def)
  note l' = logs_own [OF inv ev own(1)]
  have lt: "last_term (log r') = current_term r'" "log r' \<noteq> []" using own by (simp_all add: last_term_def)
  have cover: "prefix L (log r')" if "L \<in> logs c" "L \<noteq> []" "last_term L = current_term r'" for L
    using own_covers(2) [OF inv ev own(3) that] own(1) by simp
  have "prefix l L \<Longrightarrow> L \<in> logs c' \<Longrightarrow> l \<in> logs c'" for l L
    using logs_invD(1) [OF li] L0 own(1) unfolding l' by auto
  moreover have "log_ok L \<and> sorted (map le_term L)" if "L \<in> logs c'" for L
  proof (cases "L = log r'")
    case True
    have "log_ok (log r')" using event_inv(7) [OF inv ev] by (rule raft_wfD(1))
    moreover have "sorted (map le_term (log r'))"
      using logs_invD(3) [OF li L0] le event_term_mono(1) [OF ev] own(1,2) by (auto simp: sorted_append)
    ultimately show ?thesis using True by simp
  qed (use that li logs_invD(2,3) l' in auto)
  moreover have "\<exists>m. (last_term L, m) \<in> leaders (core c')" if "L \<in> logs c'" "L \<noteq> []" for L
    using that lt own(3) logs_invD(4) [OF li, of L] unfolding l' event_sel(4) [OF ev] by auto
  moreover have "prefix L L' \<or> prefix L' L"
    if "L \<in> logs c'" "L' \<in> logs c'" "L \<noteq> []" "L' \<noteq> []" "last_term L = last_term L'" for L L'
  proof (cases "L = log r' \<or> L' = log r'")
    case True
    with that cover lt l' show ?thesis by (metis insert_iff prefix_order.refl)
  next
    case False
    with that l' have "L \<in> logs c" "L' \<in> logs c" by auto
    with that show ?thesis by (intro logs_invD(5) [OF li])
  qed
  ultimately show ?thesis unfolding logs_inv_def by blast
qed

lemma peer_log_step:
  assumes inv: "log_inv U c" and ev: "event_of X U n ev c c' r' res"
  shows "peer_log_inv c' n"
proof -
  let ?r = "peer c n"
  have old: "peer_log_inv c n" by (rule event_inv(5) [OF inv ev])
  have id: "r_peer_id r' = n" using event_term_mono(2) [OF ev] old by (simp add: election_step_def peer_log_inv_def)
  note base = id event_inv(7) [OF inv ev] event_sel(1) [OF ev]
  from inv ev show ?thesis
  proof (cases rule: event_log)
    case known
    with old base show ?thesis unfolding peer_log_inv_def logs_known [OF inv ev known(1)] by auto
  next
    case (own e)
    have "prefix L (log r')" if "L \<in> logs c'" "L \<noteq> []" "last_term L = current_term r'" for L
      using that own_covers(2) [OF inv ev own(3), of L] own(1) unfolding logs_own [OF inv ev own(1)] by auto
    moreover have "\<forall>e \<in> set (log r'). le_term e \<le> current_term r'"
      using old own(1,2) event_term_mono(1) [OF ev] order_trans by (fastforce simp: peer_log_inv_def)
    ultimately show ?thesis
      using base own by (simp add: peer_log_inv_def logs_own [OF inv ev own(1)] last_term_def)
  qed
qed

lemma other_log_step:
  assumes inv: "log_inv U c" and ev: "event_of X U n ev c c' r' res" and m: "m \<in> U" "m \<noteq> n"
  shows "peer_log_inv c' m"
proof -
  have old: "peer_log_inv c m" and same: "peer c' m = peer c m"
    using inv m by (simp_all add: log_inv_def event_sel(1) [OF ev])
  from inv ev show ?thesis
  proof (cases rule: event_log)
    case known
    with old show ?thesis unfolding peer_log_inv_def same logs_known [OF inv ev known(1)] by simp
  next
    case (own e)
    have "last_term (log r') \<noteq> current_term (peer c m)" if "role (peer c m) = Leader"
    proof
      assume "last_term (log r') = current_term (peer c m)"
      moreover have "(current_term (peer c m), m) \<in> leaders (core c')"
        using inv m that by (auto simp: log_inv_def cluster_inv_def leader_inv_def event_sel(4) [OF ev])
      moreover have "(current_term r', n) \<in> leaders (core c')" using own(3) by (simp add: event_sel(4) [OF ev])
      ultimately have "m = n" using one_leader [OF event_inv(4) [OF inv ev]] own(1,2) by (metis last_snoc last_term_def snoc_eq_iff_butlast)
      with m show False by simp
    qed
    with old show ?thesis unfolding peer_log_inv_def same logs_own [OF inv ev own(1)] by auto
  qed
qed

lemma office_step:
  assumes inv: "log_inv U c" and ev: "event_of X U n ev c c' r' res"
  shows "office_inv U c'"
proof -
  let ?r = "peer c n"
  have kept: "role r' = Leader" if t: "(current_term r', n) \<in> leaders (core c)"
  proof -
    have eq: "current_term r' = current_term ?r" and lead: "role ?r = Leader"
      using t inv event_term_mono(1) [OF ev] by (auto simp: log_inv_def office_inv_def dest: order_antisym)
    have no: False if "ev = AppendEntries draw (current_term r') leader pi pt rbs lc src now" for draw leader pi pt rbs lc src now
    proof -
      have "src \<noteq> n" "(current_term r', src) \<in> leaders (core c)"
        using request_from_leader(1,2) [OF inv ev [unfolded that]] by auto
      with t one_leader [of U "core c"] inv show False by (auto simp: log_inv_def)
    qed
    from event_inv(1,2,3) [OF inv ev] show ?thesis
    proof (cases rule: step_cases)
      case calm
      with eq lead show ?thesis by simp
    next
      case (own r1 e s)
      then show ?thesis by (auto simp: crowned_def)
    next
      case (refuse draw t leader pi pt rbs lc src now es)
      with no lead show ?thesis by auto
    next
      case (accept draw t leader pi pt rbs lc src now)
      with no show ?thesis by auto
    qed (use lead in simp_all)
  qed
  have "m \<in> U \<and> t \<le> current_term (peer c' m) \<and> (t = current_term (peer c' m) \<longrightarrow> role (peer c' m) = Leader)"
    if "(t, m) \<in> leaders (core c')" for t m
  proof (cases "(t, m) \<in> leaders (core c)")
    case True
    with inv have "m \<in> U" "t \<le> current_term (peer c m)" "t = current_term (peer c m) \<longrightarrow> role (peer c m) = Leader"
      by (auto simp: log_inv_def office_inv_def)
    with True kept event_term_mono(1) [OF ev] show ?thesis by (cases "m = n") (auto simp: event_sel(1) [OF ev])
  next
    case False
    with that event_inv(6) [OF inv ev] show ?thesis by (auto simp: event_sel(1,4) [OF ev])
  qed
  then show ?thesis by (simp add: office_inv_def)
qed

lemma reply_others: "log_inv U c \<Longrightarrow> ReplyWire src p t b mi rt \<in> replies c \<Longrightarrow> src \<noteq> p"
  unfolding log_inv_def append_inv_def by blast

text \<open>What a peer sends: segments of its own log, as leader, to others.\<close>

lemma append_sent:
  assumes inv: "log_inv U c" and ev: "event_of X U n ev c c' r' res"
    and sent: "SendRaftAppendEntries p t pi pt es lc \<in> effects_of res"
  shows "role r' = Leader \<and> t = current_term r' \<and> segment_of (log r') pi pt es \<and> lc \<le> commit_index r' \<and> p \<noteq> n"
proof -
  let ?r = "peer c n"
  obtain effs where effs: "res = Ok effs" "SendRaftAppendEntries p t pi pt es lc \<in> set effs"
    using sent by (cases res) (auto simp: effects_of_def)
  have ok: "log_ok (log r')" by (rule raft_wfD(1) [OF event_inv(7) [OF inv ev]])
  have id: "r_peer_id ?r = n" "r_peer_id r' = n"
    using event_inv(5) [OF inv ev] event_term_mono(2) [OF ev] by (simp_all add: peer_log_inv_def election_step_def)
  from event_inv(1,2,3) [OF inv ev] show ?thesis
  proof (cases rule: step_cases)
    case calm
    then have "role r' = Leader" and f: "SendRaftAppendEntries p t pi pt es lc \<in> set (append_entries_effects_for_followers r')"
      using effs calm(5) by fastforce+
    with followers_segment [OF ok f] id show ?thesis by simp
  next
    case (own r1 e s)
    let ?r1 = "with_entry e r1"
    have f: "SendRaftAppendEntries p t pi pt es lc \<in> set (append_entries_effects_for_followers ?r1)"
      using effs own(5) by fastforce
    have l: "log ?r1 = log r'" "current_term ?r1 = current_term r'" "commit_index ?r1 \<le> commit_index r'" "r_peer_id ?r1 = n"
        "role r' = Leader"
      using own(1) find_commit_ge [of ?r1 "rev (log ?r1)"] id by (auto simp: own(4) crowned_def)
    from l(1) ok have "log_ok (log ?r1)" by simp
    from followers_segment [OF this f] l show ?thesis by simp
  next
    case (ack src mi s)
    with effs show ?thesis by fastforce
  next
    case (nack src mi effs')
    with effs have f: "append_entries_effect_for r' src = Some (SendRaftAppendEntries p t pi pt es lc)"
      by (cases "append_entries_effect_for r' src") auto
    have "\<exists>rt. ReplyWire src n (current_term ?r) False mi rt \<in> replies c" using ev nack(1) by (simp add: event_of_def)
    then have "src \<noteq> n" using reply_others [OF inv] by blast
    with effect_for_segment [OF ok f] nack show ?thesis by simp
  next
    case (refuse draw t leader pi pt rbs lc src now es)
    with effs show ?thesis by (auto simp: append_entries_response_def)
  next
    case (accept draw t leader pi pt rbs lc src now)
    with effs show ?thesis by (fastforce simp: append_entries_response_def)
  qed
qed

lemma reply_form:
  assumes inv: "log_inv U c" and ev: "event_of X U n ev c c' r' res"
    and sent: "Send p (RaftAppendEntriesResponse t b mi) \<in> effects_of res"
  obtains (refuse) draw rt pi pt rbs lc now es where "ev = AppendEntries draw rt p pi pt rbs lc p now"
      "log r' = log (peer c n)" "es = [] \<or> es = map rb_entry rbs" "t = current_term r'"
      "mi = matching_index_for r' pi pt es"
  | (accept) draw rt pi pt rbs lc now where "ev = AppendEntries draw rt p pi pt rbs lc p now"
      "t = current_term r'" "accepts pi pt (map rb_entry rbs) (peer c n)"
      "log r' = merge_log (unat pi) (map rb_entry rbs) (log (peer c n))"
      "mi = (if rbs = [] then pi else le_index (rb_entry (last rbs)))"
proof -
  obtain effs where effs: "res = Ok effs" "Send p (RaftAppendEntriesResponse t b mi) \<in> set effs"
    using sent by (cases res) (auto simp: effects_of_def)
  have no: "Send p (RaftAppendEntriesResponse t b mi) \<notin> set (append_entries_effects_for_followers q)" for q
    by (auto simp: append_entries_effects_for_followers_def append_entries_effect_for_def List.map_filter_def Let_def
        split: option.splits)
  have del: "delivered c n ev" using ev by (simp add: event_of_def)
  from event_inv(1,2,3) [OF inv ev] show thesis
  proof (cases rule: step_cases)
    case calm
    with effs no show ?thesis by fastforce
  next
    case (own r1 e s)
    with effs no show ?thesis by fastforce
  next
    case (ack src mi s)
    with effs show ?thesis by fastforce
  next
    case (nack src mi' effs')
    with effs have f: "append_entries_effect_for r' src = Some (Send p (RaftAppendEntriesResponse t b mi))"
      by (cases "append_entries_effect_for r' src") auto
    then show ?thesis by (auto simp: append_entries_effect_for_def Let_def split: option.splits)
  next
    case (refuse draw rt leader pi pt rbs lc src now es)
    then have "src = p" "leader = p" "t = current_term r'" "mi = matching_index_for r' pi pt es"
      using effs del by (auto simp: append_entries_response_def)
    with refuse(1,2,4) that(1) show ?thesis by blast
  next
    case (accept draw rt leader pi pt rbs lc src now)
    have "Send p (RaftAppendEntriesResponse t b mi) = append_entries_response r' src True
        (if rbs = [] then pi else le_index (rb_entry (last rbs)))"
      using effs accept(8) by fastforce
    then have "src = p" "leader = p" "t = current_term r'" "mi = (if rbs = [] then pi else le_index (rb_entry (last rbs)))"
      using del accept(1) by (auto simp: append_entries_response_def)
    with accept(1,5,6) that(2) show ?thesis by blast
  qed
qed

lemma reply_sent:
  assumes "log_inv U c" and "event_of X U n ev c c' r' res"
    and "Send p (RaftAppendEntriesResponse t b mi) \<in> effects_of res"
  shows "\<exists>draw rt pi pt rbs lc now. ev = AppendEntries draw rt p pi pt rbs lc p now"
  using assms by (cases rule: reply_form) blast+

lemma append_step:
  assumes inv: "log_inv U c" and ev: "event_of X U n ev c c' r' res"
  shows "append_inv c'"
proof -
  note sel = event_sel [OF ev]
  have "src \<noteq> p \<and> (t, src) \<in> leaders (core c') \<and> (\<exists>L \<in> logs c'. L \<noteq> [] \<and> last_term L = t \<and> segment_of L pi pt es)"
    if w: "AppendWire src p t pi pt es lc \<in> appends c'" for src p t pi pt es lc
  proof (cases "AppendWire src p t pi pt es lc \<in> appends c")
    case True
    with inv have "src \<noteq> p" "(t, src) \<in> leaders (core c)"
        "\<exists>L \<in> logs c. L \<noteq> [] \<and> last_term L = t \<and> segment_of L pi pt es"
      unfolding log_inv_def append_inv_def by blast+
    then show ?thesis unfolding sel by blast
  next
    case False
    with w have "src = n" and "SendRaftAppendEntries p t pi pt es lc \<in> effects_of res"
      by (auto simp: sel append_wires_def)
    note snt = append_sent [OF inv ev this(2)]
    have "log r' \<in> logs c'" "role r' = Leader \<longrightarrow> log r' \<noteq> [] \<and> last_term (log r') = current_term r'"
      using peer_log_step [OF inv ev] by (auto simp: sel peer_log_inv_def)
    with snt \<open>src = n\<close> show ?thesis by (auto simp: sel)
  qed
  moreover have "src \<noteq> p" if w: "ReplyWire src p t b mi rt \<in> replies c'" for src p t b mi rt
  proof (cases "ReplyWire src p t b mi rt \<in> replies c")
    case True
    then show ?thesis by (rule reply_others [OF inv])
  next
    case False
    with w have "src = n" and "Send p (RaftAppendEntriesResponse t b mi) \<in> effects_of res"
      by (auto simp: sel reply_wires_def)
    from reply_sent [OF inv ev this(2)] obtain draw rt pi pt rbs lc now where
      "ev = AppendEntries draw rt p pi pt rbs lc p now" by blast
    with request_from_leader(1) [OF inv ev [unfolded this]] \<open>src = n\<close> show ?thesis by simp
  qed
  ultimately show ?thesis unfolding append_inv_def by blast
qed

lemma log_inv_step:
  assumes "log_inv U c" and "event_of X U n ev c c' r' res"
  shows "log_inv U c'"
  using peer_log_step [OF assms] other_log_step [OF assms] event_inv(4) [OF assms] logs_step [OF assms]
    office_step [OF assms] append_step [OF assms]
  unfolding log_inv_def by blast

lemma running_log_inv: "running X U ok c \<Longrightarrow> log_inv U c"
proof (induction rule: running.induct)
  case (step c c')
  from step.hyps(2) obtain n ev r' res where "event_of X U n ev c c' r' res" by (rule system_step_event)
  with step.IH show ?case by (rule log_inv_step)
qed (rule fresh_log_inv)

end
