(* ===== verification/Leader_Completeness.thy ===== *)
theory Leader_Completeness
  imports Log_Matching
begin

text \<open>
  Leader completeness: a log prefix that a majority of the peers held in the term of its last
  entry is a prefix of the log of every leader of a later term. A peer that held the prefix
  loses it only to a leader that lacked it already, and the vote for the first such leader
  came from a peer that still had it, to which the candidate's log looked at least as recent.
\<close>

section \<open>Candidates\<close>

lemma candidate_step:
  assumes "raft_step X ev r = (r', res)" and "role r' \<noteq> Follower"
  shows "role r \<noteq> Follower \<and> current_term r' = current_term r \<or> current_term r' = current_term r + 1"
proof (cases ev)
  case (Tick now known)
  with assms have "raft_on_tick X now known r = (r', res)" by simp
  then show ?thesis
  proof (cases rule: tick_form)
    case stand
    then show ?thesis by (auto simp: start_election_at_def become_leader_if_majority_def split: if_splits)
  next
    case (win r1 res')
    then have "current_term r1 = current_term r + 1"
      by (auto simp: start_election_at_def become_leader_if_majority_def split: if_splits)
    moreover have "current_term r' = current_term r1"
      using own_form(1) [OF win(3) [unfolded append_leader_noop_def]] by auto
    ultimately show ?thesis by simp
  qed (use assms(2) in auto)
next
  case (VoteReply t voter granted)
  with assms have "raft_on_request_vote_response X t voter granted r = (r', res)" by simp
  then show ?thesis
  proof (cases rule: vote_reply_form)
    case (win r1)
    have "current_term r' = current_term r1" using own_form(1) [OF win(4) [unfolded append_leader_noop_def]] by auto
    with win(1,3) show ?thesis by (auto simp: become_leader_if_majority_def split: if_splits)
  qed (use assms(2) in \<open>auto simp: step_down_def\<close>)
next
  case (AppendEntries draw t leader pi pt rbs lc src now)
  with assms append_entries_handler_election [of draw t leader pi pt rbs lc src now r X] show ?thesis
    by (auto simp: election_step_def)
next
  case (AppendReply t src success mi)
  with assms append_reply_election [of t src success mi r X] show ?thesis by (auto simp: election_step_def)
next
  case (RequestVote t cand li lt src)
  with assms request_vote_election [of t cand li lt src r] show ?thesis
    by (auto simp: election_step_def raft_on_request_vote_def split: prod.splits)
next
  case (BlockCreated h)
  with assms show ?thesis
    by (auto simp: raft_on_block_created_def append_local_block_def dest!: own_form(1) split: RaftRole.splits sum.splits)
next
  case (ClientTx tx)
  with assms show ?thesis by (auto simp: raft_on_client_transaction_def split: RaftRole.splits sum.splits)
next
  case (TakePending h)
  with assms show ?thesis by (auto simp: take_pending_block_def)
qed

text \<open>
  A candidate's log does not change during its campaign, and only holds entries of earlier terms.
\<close>

definition campaign_inv :: "PeerId set \<Rightarrow> system \<Rightarrow> bool" where
  "campaign_inv U c \<longleftrightarrow>
    (\<forall>t n C. (t, n, C) \<in> campaigns c \<longrightarrow> n \<in> U \<and> C \<in> logs c \<and> t \<le> current_term (peer c n) \<and>
      (t = current_term (peer c n) \<longrightarrow> role (peer c n) = Candidate \<longrightarrow> C = log (peer c n)) \<and> (\<forall>e \<in> set C. le_term e < t)) \<and>
    (\<forall>t n C C'. (t, n, C) \<in> campaigns c \<longrightarrow> (t, n, C') \<in> campaigns c \<longrightarrow> C = C') \<and>
    (\<forall>t n. (t, n) \<in> leaders (core c) \<longrightarrow> (\<exists>C. (t, n, C) \<in> campaigns c)) \<and>
    (\<forall>n \<in> U. role (peer c n) = Candidate \<longrightarrow> (current_term (peer c n), n, log (peer c n)) \<in> campaigns c)"

text \<open>A log that ends in an entry of a term extends the log that term's leader stood with.\<close>

definition reign_inv :: "system \<Rightarrow> bool" where
  "reign_inv c \<longleftrightarrow> (\<forall>L m C. L \<in> logs c \<longrightarrow> L \<noteq> [] \<longrightarrow> (last_term L, m) \<in> leaders (core c) \<longrightarrow>
    (last_term L, m, C) \<in> campaigns c \<longrightarrow> prefix C L)"

text \<open>A vote request describes the log its sender stands with.\<close>

definition request_inv :: "system \<Rightarrow> bool" where
  "request_inv c \<longleftrightarrow> (\<forall>a p t cand li lt. (a, p, RaftRequestVote t cand li lt) \<in> sent (core c) \<longrightarrow>
    (\<exists>C. (t, a, C) \<in> campaigns c \<and> unat li = length C \<and> lt = last_term C))"

lemma campaign_invD:
  assumes "campaign_inv U c"
  shows "(t, n, C) \<in> campaigns c \<Longrightarrow> C \<in> logs c" "(t, n, C) \<in> campaigns c \<Longrightarrow> e \<in> set C \<Longrightarrow> le_term e < t"
    and "(t, n, C) \<in> campaigns c \<Longrightarrow> (t, n, C') \<in> campaigns c \<Longrightarrow> C = C'"
    and "(t, n) \<in> leaders (core c) \<Longrightarrow> \<exists>C. (t, n, C) \<in> campaigns c"
    and "(t, n, C) \<in> campaigns c \<Longrightarrow> n \<in> U" "(t, n, C) \<in> campaigns c \<Longrightarrow> t \<le> current_term (peer c n)"
    and "n \<in> U \<Longrightarrow> role (peer c n) = Candidate \<Longrightarrow> (current_term (peer c n), n, log (peer c n)) \<in> campaigns c"
  using assms unfolding campaign_inv_def by blast+

text \<open>What a step adds to the campaigns.\<close>

lemma new_campaign:
  assumes inv: "log_inv U c" "campaign_inv U c" and ev: "event_of X U n ev c c' r' res"
    and act: "role r' \<noteq> Follower" "\<not> still_leader (peer c n) r'"
  shows "(current_term r', n, log (peer c n)) \<in> campaigns c \<and> current_term r' = current_term (peer c n) \<and>
      role (peer c n) = Candidate \<or>
    current_term (peer c n) < current_term r' \<and> (\<forall>C. (current_term r', n, C) \<notin> campaigns c)"
proof -
  let ?r = "peer c n"
  have st: "raft_step X ev ?r = (r', res)" and n: "n \<in> U" using event_inv(3,6) [OF inv(1) ev] by auto
  from candidate_step [OF st act(1)] show ?thesis
  proof
    assume 1: "role ?r \<noteq> Follower \<and> current_term r' = current_term ?r"
    with act have "role ?r = Candidate" by (cases "role ?r") auto
    with 1 campaign_invD(7) [OF inv(2) n] show ?thesis by simp
  next
    assume "current_term r' = current_term ?r + 1"
    then have lt: "current_term ?r < current_term r'" using term_less_Suc ev by (simp add: event_of_def)
    with campaign_invD(6) [OF inv(2)] show ?thesis by (metis leD)
  qed
qed

lemma candidate_log:
  assumes inv: "log_inv U c" and ev: "event_of X U n ev c c' r' res" and "role r' = Candidate"
  shows "log r' = log (peer c n)"
  using event_inv(1,2,3) [OF inv ev]
  by (cases rule: step_cases) (use assms(3) in \<open>auto simp: crowned_def\<close>)

lemma still_leader_leads:
  assumes inv: "log_inv U c" and ev: "event_of X U n ev c c' r' res" and "still_leader (peer c n) r'"
  shows "role r' = Leader"
proof -
  have "(current_term r', n) \<in> leaders (core c')"
    using inv event_inv(6) [OF inv ev] assms(3)
    by (auto simp: log_inv_def cluster_inv_def leader_inv_def event_sel(4) [OF ev])
  with office_step [OF inv ev] have "role (peer c' n) = Leader \<or> current_term r' \<noteq> current_term (peer c' n)"
    unfolding office_inv_def by blast
  then show ?thesis by (simp add: event_sel(1) [OF ev])
qed

lemma campaign_step:
  assumes inv: "log_inv U c" "campaign_inv U c" and ev: "event_of X U n ev c c' r' res"
  shows "campaign_inv U c'"
proof -
  let ?r = "peer c n"
  let ?new = "role r' \<noteq> Follower \<and> \<not> still_leader ?r r'"
  note sel = event_sel [OF ev]
  note old = campaign_invD [OF inv(2)]
  have camp: "campaigns c' = campaigns c \<union> (if ?new then {(current_term r', n, log ?r)} else {})" by (auto simp: sel(8))
  have n: "n \<in> U" and mono: "current_term ?r \<le> current_term r'" and L0: "log ?r \<in> logs c"
      and le: "\<forall>e \<in> set (log ?r). le_term e \<le> current_term ?r"
    using event_inv(5,6) [OF inv(1) ev] event_term_mono(1) [OF ev] by (auto simp: peer_log_inv_def)
  have new: "C = log ?r \<and> log ?r \<in> logs c' \<and> (\<forall>e \<in> set (log ?r). le_term e < current_term r')"
    if "?new" "(current_term r', n, C) \<in> campaigns c'" for C
  proof -
    from new_campaign [OF inv ev] that(1) have "(\<forall>C. (current_term r', n, C) \<in> campaigns c \<longrightarrow> C = log ?r) \<and>
        (\<forall>e \<in> set (log ?r). le_term e < current_term r')"
      using old(2,3) le by fastforce
    with that L0 show ?thesis by (auto simp: camp sel(7))
  qed
  have 1: "m \<in> U \<and> C \<in> logs c' \<and> t \<le> current_term (peer c' m) \<and>
      (t = current_term (peer c' m) \<longrightarrow> role (peer c' m) = Candidate \<longrightarrow> C = log (peer c' m)) \<and> (\<forall>e \<in> set C. le_term e < t)"
    if t: "(t, m, C) \<in> campaigns c'" for t m C
  proof (cases "m = n \<and> t = current_term r' \<and> ?new")
    case True
    then have "C = log ?r" "log ?r \<in> logs c'" "\<forall>e \<in> set (log ?r). le_term e < current_term r'" using new t by blast+
    with True n candidate_log [OF inv(1) ev] show ?thesis by (simp add: sel(1))
  next
    case False
    then have o: "(t, m, C) \<in> campaigns c" using t by (auto simp: camp split: if_splits)
    have m: "m \<in> U" "t \<le> current_term (peer c m)" "C \<in> logs c" "\<forall>e \<in> set C. le_term e < t"
        "t = current_term (peer c m) \<longrightarrow> role (peer c m) = Candidate \<longrightarrow> C = log (peer c m)"
      using inv(2) o unfolding campaign_inv_def by blast+
    show ?thesis
    proof (cases "m = n")
      case True
      have "t \<noteq> current_term r'" if "role r' = Candidate"
        using False True that still_leader_leads [OF inv(1) ev] by auto
      with True m mono show ?thesis by (auto simp: sel(1,7))
    qed (use m in \<open>auto simp: sel(1,7)\<close>)
  qed
  have 2: "C = C'" if "(t, m, C) \<in> campaigns c'" "(t, m, C') \<in> campaigns c'" for t m C C'
  proof (cases "m = n \<and> t = current_term r' \<and> ?new")
    case True
    with that new have "C = log ?r" "C' = log ?r" by blast+
    then show ?thesis by simp
  next
    case False
    with that have "(t, m, C) \<in> campaigns c" "(t, m, C') \<in> campaigns c" by (auto simp: camp split: if_splits)
    then show ?thesis by (rule old(3))
  qed
  have 3: "\<exists>C. (t, m, C) \<in> campaigns c'" if "(t, m) \<in> leaders (core c')" for t m
  proof (cases "(t, m) \<in> leaders (core c)")
    case True
    with old(4) show ?thesis by (auto simp: camp)
  next
    case False
    with that have tm: "m = n" "t = current_term r'" "role r' = Leader" by (auto simp: sel(4))
    have "\<not> still_leader ?r r'"
      using False tm n inv(1) by (auto simp: log_inv_def cluster_inv_def leader_inv_def)
    with tm show ?thesis by (auto simp: camp)
  qed
  have 4: "(current_term (peer c' m), m, log (peer c' m)) \<in> campaigns c'" if "m \<in> U" "role (peer c' m) = Candidate" for m
  proof (cases "m = n")
    case True
    with that have "role r' = Candidate" by (simp add: sel(1))
    moreover from this have "\<not> still_leader ?r r'" using still_leader_leads [OF inv(1) ev] by auto
    ultimately show ?thesis using True candidate_log [OF inv(1) ev] by (auto simp: camp sel(1))
  qed (use that old(7) in \<open>auto simp: camp sel(1)\<close>)
  from 1 2 3 4 show ?thesis unfolding campaign_inv_def by blast
qed

lemma reign_step:
  assumes inv: "log_inv U c" "campaign_inv U c" "reign_inv c" and ev: "event_of X U n ev c c' r' res"
  shows "reign_inv c'"
  unfolding reign_inv_def
proof (intro allI impI)
  fix L m C assume L: "L \<in> logs c'" "L \<noteq> []" "(last_term L, m) \<in> leaders (core c')" "(last_term L, m, C) \<in> campaigns c'"
  let ?r = "peer c n"
  note sel = event_sel [OF ev]
  have one: "C0 = C" if "(last_term L, m, C0) \<in> campaigns c'" for C0
    using campaign_invD(3) [OF campaign_step [OF inv(1,2) ev] that L(4)] .
  have old: "prefix C L0" if "L0 \<in> logs c" "L0 \<noteq> []" "last_term L0 = last_term L" for L0
  proof -
    have "logs_inv c" using inv(1) by (simp add: log_inv_def)
    from logs_invD(4) [OF this that(1,2)] that(3) obtain m' where "(last_term L, m') \<in> leaders (core c)" by auto
    moreover from this have "m' = m" using one_leader [OF event_inv(4) [OF inv(1) ev] _ L(3)] by (simp add: sel(4))
    ultimately have "(last_term L, m) \<in> leaders (core c)" by simp
    moreover from this obtain C0 where "(last_term L, m, C0) \<in> campaigns c" using campaign_invD(4) [OF inv(2)] by blast
    ultimately show ?thesis using inv(3) that one [of C0] unfolding reign_inv_def sel(8) by auto
  qed
  show "prefix C L"
  proof (cases "L \<in> logs c")
    case True
    with old L(2) show ?thesis by simp
  next
    case False
    from inv(1) ev show ?thesis
    proof (cases rule: event_log)
      case known
      with False L(1) logs_known [OF inv(1) ev] show ?thesis by simp
    next
      case (own e)
      have L': "L = log r'" "last_term L = current_term r'"
        using False L(1) own by (auto simp: logs_own [OF inv(1) ev own(1)] last_term_def)
      have "(current_term r', n) \<in> leaders (core c')" using own(3) by (simp add: sel(4))
      then have m: "m = n" using one_leader [OF event_inv(4) [OF inv(1) ev] L(3)] L' by simp
      show ?thesis
      proof (cases "still_leader ?r r'")
        case True
        then have "prefix C (log ?r)"
          using event_inv(5) [OF inv(1) ev] L' by (intro old) (auto simp: peer_log_inv_def)
        then show ?thesis by (simp add: L' own(1))
      next
        case False
        then have "(last_term L, m, log ?r) \<in> campaigns c'" using own(3) L'(2) by (auto simp: sel(8) m)
        from one [OF this] show ?thesis by (simp add: L' own(1))
      qed
    qed
  qed
qed

lemma vote_request_form:
  assumes "raft_step X ev r = (r', res)" and "(a, p, RaftRequestVote t cand li lt) \<in> wires U n res"
  shows "a = n \<and> role r' \<noteq> Follower \<and> role r \<noteq> Leader \<and> t = current_term r' \<and> li = last_log_index r \<and> lt = last_log_term r"
proof -
  have loud: "\<not> quiet_result res" using quiet_wires [of res a p _ U n] assms(2) by blast
  have "\<exists>now known. ev = Tick now known"
  proof (rule ccontr)
    assume no: "\<not> ?thesis"
    have "\<nexists>t cand li lt src. ev = RequestVote t cand li lt src"
      using assms by (auto simp: raft_on_request_vote_def wires_def split: prod.splits)
    with no quiet_other_steps [of ev X r] loud assms(1) show False by simp
  qed
  then obtain now known where tick: "raft_on_tick X now known r = (r', res)" using assms(1) by auto
  have ll: "last_log_index q = last_log_index r" "last_log_term q = last_log_term r" if "log q = log r" for q
    using that by (simp_all add: last_log_index_def last_log_term_def)
  from tick show ?thesis
  proof (cases rule: tick_form)
    case idle
    with loud show ?thesis by simp
  next
    case (beat h)
    with loud quiet_sends(1) show ?thesis by simp
  next
    case stand
    have f: "role r' = Candidate" "log r' = log r" using start_election_form [OF stand(1,2)] by simp_all
    have "a = n" "t = current_term r'" "li = last_log_index r'" "lt = last_log_term r'"
      using assms(2) by (simp_all add: stand(3) wires_def)
    with f(1) stand(1) ll [OF f(2)] show ?thesis by (simp only: RaftRole.distinct) simp
  next
    case (win r1 res')
    obtain effs' where effs: "res' = Ok effs'"
        "res = Ok (Broadcast (RaftRequestVote (current_term r1) (r_peer_id r1) (last_log_index r1) (last_log_term r1)) # effs')"
      using assms(2) win(4) by (cases res) (auto simp: wires_def)
    have "quiet_result (Ok effs')"
      using quiet_own_entry [of X _ r1] win(3) by (metis append_leader_noop_def effs(1) snd_conv)
    then have "(a, p, RaftRequestVote t cand li lt) \<notin> wires U n (Ok effs')" using quiet_wires by blast
    with assms(2) have w: "a = n" "t = current_term r1" "li = last_log_index r1" "lt = last_log_term r1"
      by (auto simp: effs wires_def)
    have c: "role r1 = Leader" "log r1 = log r" using start_election_form [OF win(1,2)] by (simp_all add: crowned_def)
    have "current_term r' = current_term r1" "role r' = role r1"
      using own_form(1) [OF win(3) [unfolded append_leader_noop_def]] by auto
    with w ll [OF c(2)] c(1) win(1) show ?thesis by simp
  qed
qed

lemma request_step:
  assumes inv: "log_inv U c" "request_inv c" and ev: "event_of X U n ev c c' r' res"
  shows "request_inv c'"
  unfolding request_inv_def
proof (intro allI impI)
  fix a p t cand li lt assume w: "(a, p, RaftRequestVote t cand li lt) \<in> sent (core c')"
  note sel = event_sel [OF ev]
  show "\<exists>C. (t, a, C) \<in> campaigns c' \<and> unat li = length C \<and> lt = last_term C"
  proof (cases "(a, p, RaftRequestVote t cand li lt) \<in> sent (core c)")
    case True
    with inv(2) show ?thesis unfolding request_inv_def sel by blast
  next
    case False
    with w have "(a, p, RaftRequestVote t cand li lt) \<in> wires U n res" by (simp add: sel)
    from vote_request_form [OF event_inv(3) [OF inv(1) ev] this]
    have f: "a = n" "role r' \<noteq> Follower" "role (peer c n) \<noteq> Leader" "t = current_term r'"
        "li = last_log_index (peer c n)" "lt = last_log_term (peer c n)" by simp_all
    have "unat li = length (log (peer c n))"
      using f(5) unat_last_log_index raft_wfD(1) [OF event_inv(1) [OF inv(1) ev]] by simp
    with f show ?thesis
      by (intro exI [of _ "log (peer c n)"]) (simp add: sel(8) last_log_term_def last_term_def)
  qed
qed

section \<open>Votes\<close>

lemma up_to_date_step_down: "candidate_log_is_up_to_date (step_down t r) li lt = candidate_log_is_up_to_date r li lt"
  by (simp add: candidate_log_is_up_to_date_def last_log_index_def last_log_term_def step_down_def)

lemma election_vote:
  assumes "start_election_at now (update_participants known r) = (r1, b)"
  shows "voted_for r1 = Some (r_peer_id r) \<and> current_term r1 = current_term r + 1 \<and> role r1 \<noteq> Follower"
  using assms by (auto simp: start_election_at_def become_leader_if_majority_def split: if_splits)

lemma vote_form:
  assumes "raft_step X ev r = (r', res)" and "voted_for r' = Some m"
  shows "voted_for r = Some m \<and> current_term r' = current_term r \<or>
    (\<exists>t li lt src. ev = RequestVote t m li lt src \<and> current_term r' = t \<and> candidate_log_is_up_to_date r li lt) \<or>
    m = r_peer_id r \<and> role r' \<noteq> Follower \<and> role r \<noteq> Leader"
proof (cases ev)
  case (Tick now known)
  with assms(1) have "raft_on_tick X now known r = (r', res)" by simp
  then show ?thesis
  proof (cases rule: tick_form)
    case stand
    with election_vote [OF stand(2)] assms(2) show ?thesis by simp
  next
    case (win r1 res')
    have "voted_for r' = voted_for r1" "role r' = role r1"
      using own_form(1) [OF win(3) [unfolded append_leader_noop_def]] by auto
    with election_vote [OF win(2)] win(1) assms(2) show ?thesis by simp
  qed (use assms(2) in \<open>simp_all add: update_participants_def Let_def\<close>)
next
  case (RequestVote t cand li lt src)
  with assms show ?thesis
    by (auto simp: raft_on_request_vote_def request_vote_def up_to_date_step_down Let_def split: if_splits option.splits)
      (auto simp: step_down_def)
next
  case (VoteReply t voter granted)
  with assms(1) have "raft_on_request_vote_response X t voter granted r = (r', res)" by simp
  then show ?thesis
  proof (cases rule: vote_reply_form)
    case (win r1)
    have "voted_for r' = voted_for r1" "current_term r' = current_term r1"
      using own_form(1) [OF win(4) [unfolded append_leader_noop_def]] by auto
    with win(3) assms(2) show ?thesis by (auto simp: become_leader_if_majority_def split: if_splits)
  qed (use assms(2) in \<open>simp_all add: step_down_def\<close>)
next
  case (AppendEntries draw t leader pi pt rbs lc src now)
  obtain r1 b where rc: "receive_append_entries_at draw t leader src now r = (r1, b)" by fastforce
  have "voted_for r1 = voted_for r \<and> current_term r1 = current_term r \<or> voted_for r1 = None"
    using rc by (auto simp: receive_append_entries_at_def step_down_def Let_def split: if_splits option.splits)
  moreover have "election_frame r1 r'"
    using assms(1) AppendEntries handler_frame [OF rc] by (metis fst_conv raft_step.simps(4))
  ultimately show ?thesis using assms(2) by (auto simp: election_frame_def)
next
  case (AppendReply t src success mi)
  with assms(1) have "raft_on_append_entries_response X t src success mi r = (r', res)" by simp
  then show ?thesis by (cases rule: append_reply_form) (use assms(2) in \<open>simp_all add: step_down_def\<close>)
next
  case (BlockCreated h)
  with assms show ?thesis
    by (auto simp: raft_on_block_created_def append_local_block_def dest!: own_form(1) split: RaftRole.splits sum.splits)
next
  case (ClientTx tx)
  with assms show ?thesis by (auto simp: raft_on_client_transaction_def split: RaftRole.splits sum.splits)
next
  case (TakePending h)
  with assms show ?thesis by (auto simp: take_pending_block_def)
qed

section \<open>Prefixes held in the term of their last entry\<close>

text \<open>A leader of term \<open>u\<close>, later than the last entry of \<open>P\<close>, stood with a log without \<open>P\<close>.\<close>

definition betrayal :: "system \<Rightarrow> RaftLogEntry list \<Rightarrow> u64 \<Rightarrow> bool" where
  "betrayal c P u \<longleftrightarrow> last_term P < u \<and>
    (\<exists>m C. (u, m) \<in> leaders (core c) \<and> (u, m, C) \<in> campaigns c \<and> \<not> prefix P C)"

definition held_inv :: "PeerId set \<Rightarrow> system \<Rightarrow> bool" where
  "held_inv U c \<longleftrightarrow> (\<forall>v P. (v, P) \<in> held c \<longrightarrow> v \<in> U \<and> P \<in> logs c \<and> P \<noteq> [] \<and> last_term P \<le> current_term (peer c v) \<and>
    (prefix P (log (peer c v)) \<or> (\<exists>u \<le> current_term (peer c v). betrayal c P u)))"

text \<open>What a vote says of the prefixes the voter held, until its candidate is leader.\<close>

definition vote_inv :: "PeerId set \<Rightarrow> system \<Rightarrow> bool" where
  "vote_inv U c \<longleftrightarrow>
    (\<forall>n \<in> U. \<forall>p. voted_for (peer c n) = Some p \<longrightarrow> (n, current_term (peer c n), p) \<in> ballots (core c)) \<and>
    (\<forall>v u m. (v, u, m) \<in> ballots (core c) \<longrightarrow> (\<exists>C. (u, m, C) \<in> campaigns c \<and> ((u, m) \<notin> leaders (core c) \<longrightarrow>
      (\<forall>P. (v, P) \<in> held c \<longrightarrow> last_term P < u \<longrightarrow> prefix P C \<or> (\<exists>u' \<le> u. betrayal c P u')))))"

text \<open>What the majority that elected a leader says.\<close>

definition mandate_inv :: "PeerId set \<Rightarrow> system \<Rightarrow> bool" where
  "mandate_inv U c \<longleftrightarrow> (\<forall>u m. (u, m) \<in> leaders (core c) \<longrightarrow> (\<exists>C Q. (u, m, C) \<in> campaigns c \<and>
    sized_quorum (\<lambda>n. n div 2 + 1) U Q \<and> (\<forall>v \<in> Q. u \<le> current_term (peer c v) \<and>
      (\<forall>P. (v, P) \<in> held c \<longrightarrow> last_term P < u \<longrightarrow> prefix P C \<or> (\<exists>u' < u. betrayal c P u')))))"

definition history_inv :: "PeerId set \<Rightarrow> system \<Rightarrow> bool" where
  "history_inv U c \<longleftrightarrow> log_inv U c \<and> campaign_inv U c \<and> reign_inv c \<and> request_inv c \<and> held_inv U c \<and> vote_inv U c \<and> mandate_inv U c"

lemma fresh_history_inv: "fresh_system U c \<Longrightarrow> history_inv U c"
  using fresh_log_inv [of U c]
  by (auto simp: fresh_system_def history_inv_def campaign_inv_def reign_inv_def request_inv_def held_inv_def vote_inv_def
      mandate_inv_def initial_def) (fastforce simp: new_with_log_def)+

lemma betrayal_mono:
  assumes "event_of X U n ev c c' r' res" and "betrayal c P u"
  shows "betrayal c' P u"
  using assms(2) unfolding betrayal_def event_sel(4,8) [OF assms(1)] by blast

lemma agree_len_append: "agree_len (es @ zs) es = length es"
  by (induction es) auto

lemma merge_keeps_prefix:
  assumes P: "prefix P l" and comp: "prefix P L \<or> prefix L P" and seg: "segment_of L pi pt es"
    and m: "merge_log (unat pi) es l = l \<or> merge_log (unat pi) es l = take (unat pi + length es) L"
  shows "prefix P (merge_log (unat pi) es l)"
proof -
  let ?q = "unat pi + length es"
  have L: "?q \<le> length L" "es = take (length es) (drop (unat pi) L)" using seg by (auto simp: segment_of_def)
  show ?thesis
  proof (cases "prefix P (take ?q L)")
    case True
    with m P show ?thesis by auto
  next
    case False
    have "take ?q l = take ?q L"
    proof (cases "prefix L P")
      case True
      with P L(1) show ?thesis by (auto simp: prefix_def)
    next
      case not: False
      with comp have "prefix P L" by simp
      have "?q \<le> length P"
      proof (rule ccontr)
        assume "\<not> ?q \<le> length P"
        with \<open>prefix P L\<close> have "prefix P (take ?q L)" by (auto simp: prefix_def)
        with False show False ..
      qed
      with P \<open>prefix P L\<close> show ?thesis by (auto simp: prefix_def)
    qed
    then have "take ?q l = take (unat pi) l @ es" by (metis L(2) drop_take take_add add_diff_cancel_left' append_take_drop_id)
    then have "\<exists>zs. drop (unat pi) l = es @ zs"
      by (metis L(1) \<open>take ?q l = take ?q L\<close> append_take_drop_id take_add same_append_eq append.assoc)
    then have "agree_len (drop (unat pi) l) es = length es" by (metis agree_len_append)
    with P show ?thesis by (simp add: merge_log_def)
  qed
qed

text \<open>A step keeps a prefix the peer held, or its new leader stood without it.\<close>

lemma held_kept:
  assumes inv: "history_inv U c" and ev: "event_of X U n ev c c' r' res"
    and P: "P \<in> logs c" "P \<noteq> []" "last_term P \<le> current_term (peer c n)" "prefix P (log (peer c n))"
  shows "prefix P (log r') \<or> betrayal c P (current_term r')"
proof -
  let ?r = "peer c n"
  have li: "log_inv U c" "logs_inv c" "campaign_inv U c" "reign_inv c" and L0: "log ?r \<in> logs c"
    using inv event_inv(5) [of U c X n ev] ev by (auto simp: history_inv_def log_inv_def peer_log_inv_def)
  from event_inv(1,2,3) [OF li(1) ev] show ?thesis
  proof (cases rule: step_cases)
    case (own r1 e s)
    with P(4) show ?thesis by (auto simp: crowned_def)
  next
    case calm
    show ?thesis using P(4) by (simp add: calm(1))
  next
    case (ack src mi s)
    with P(4) show ?thesis by simp
  next
    case (nack src mi effs)
    with P(4) show ?thesis by simp
  next
    case (refuse draw t leader pi pt rbs lc src now es)
    show ?thesis using P(4) by (simp add: refuse(2))
  next
    case (accept draw t leader pi pt rbs lc src now)
    obtain L where L: "L \<in> logs c" "L \<noteq> []" "last_term L = t" "segment_of L pi pt (map rb_entry rbs)"
      and lead: "(t, src) \<in> leaders (core c)"
      using request_from_leader [OF li(1) ev [unfolded accept(1)]] by blast
    obtain C where C: "(t, src, C) \<in> campaigns c" using campaign_invD(4) [OF li(3) lead] by blast
    have CL: "prefix C L" using li(4) L lead C unfolding reign_inv_def by blast
    have pl: "unat pi \<le> length (log ?r)" "last_term (take (unat pi) (log ?r)) = pt"
      using accept(5) term_at_last_term [of ?r] logs_invD(2) [OF li(2) L0] by (auto simp: accepts_def split: if_splits)
    note m = merge_agree(1) [OF logs_agree [OF li(2) L0 L(1)] L(4) pl]
    show ?thesis
    proof (cases "prefix P L \<or> prefix L P")
      case True
      from merge_keeps_prefix [OF P(4) this L(4) m] accept(6) show ?thesis by simp
    next
      case False
      have "last_term P \<noteq> t" using False logs_invD(5) [OF li(2) P(1) L(1) P(2) L(2)] L(3) by auto
      then have "last_term P < t" using P(3) accept(4) by simp
      moreover have "\<not> prefix P C" using False CL prefix_order.trans by blast
      ultimately show ?thesis using lead C accept(3) by (auto simp: betrayal_def)
    qed
  qed
qed

lemma held_step:
  assumes inv: "history_inv U c" and ev: "event_of X U n ev c c' r' res"
  shows "held_inv U c'"
  unfolding held_inv_def
proof (intro allI impI)
  fix v P assume h: "(v, P) \<in> held c'"
  note sel = event_sel [OF ev]
  have li: "log_inv U c" and hi: "held_inv U c" using inv by (auto simp: history_inv_def)
  show "v \<in> U \<and> P \<in> logs c' \<and> P \<noteq> [] \<and> last_term P \<le> current_term (peer c' v) \<and>
    (prefix P (log (peer c' v)) \<or> (\<exists>u \<le> current_term (peer c' v). betrayal c' P u))"
  proof (cases "(v, P) \<in> held c")
    case True
    with hi have o: "v \<in> U" "P \<in> logs c" "P \<noteq> []" "last_term P \<le> current_term (peer c v)"
        "prefix P (log (peer c v)) \<or> (\<exists>u \<le> current_term (peer c v). betrayal c P u)"
      unfolding held_inv_def by blast+
    have mono: "current_term (peer c v) \<le> current_term (peer c' v)"
      using event_term_mono(1) [OF ev] by (simp add: sel(1))
    have "prefix P (log (peer c' v)) \<or> (\<exists>u \<le> current_term (peer c' v). betrayal c P u)"
    proof (cases "prefix P (log (peer c v))")
      case True
      with held_kept [OF inv ev o(2,3)] o(4) show ?thesis by (cases "v = n") (auto simp: sel(1))
    next
      case False
      with o(5) mono order_trans show ?thesis by blast
    qed
    with o mono betrayal_mono [OF ev] show ?thesis by (auto simp: sel(7))
  next
    case False
    with h event_inv(6) [OF li ev] show ?thesis by (auto simp: sel)
  qed
qed

text \<open>
  A candidate whose log is at least as recent as the voter's has the prefixes the voter has, or
  some earlier leader lacked them.
\<close>

lemma up_to_date_keeps:
  assumes inv: "history_inv U c" and n: "n \<in> U" and C: "(t, m, C) \<in> campaigns c"
    and up: "candidate_log_is_up_to_date (peer c n) li lt" and li: "unat li = length C" and lt: "lt = last_term C"
    and P: "P \<noteq> []" "prefix P (log (peer c n))"
  shows "prefix P C \<or> (\<exists>u < t. betrayal c P u)"
proof -
  let ?l = "log (peer c n)"
  have i: "logs_inv c" "campaign_inv U c" "reign_inv c" and l: "?l \<in> logs c" "?l \<noteq> []"
    using inv n P by (auto simp: history_inv_def log_inv_def peer_log_inv_def)
  have C': "C \<in> logs c" using campaign_invD(1) [OF i(2) C] .
  have eq: "last_log_term (peer c n) = last_term ?l" "unat (last_log_index (peer c n)) = length ?l"
    using unat_last_log_index logs_invD(2) [OF i(1) l(1)] by (auto simp: last_log_term_def last_term_def)
  from up consider "last_term ?l < last_term C" | "last_term C = last_term ?l" "length ?l \<le> length C"
    using eq li lt by (auto simp: candidate_log_is_up_to_date_def word_le_nat_alt)
  then show ?thesis
  proof cases
    case 1
    then have Cn: "C \<noteq> []" by (auto simp: last_term_def)
    obtain k where k: "(last_term C, k) \<in> leaders (core c)" using logs_invD(4) [OF i(1) C' Cn] by blast
    obtain D where D: "(last_term C, k, D) \<in> campaigns c" using campaign_invD(4) [OF i(2) k] by blast
    have DC: "prefix D C" using i(3) C' Cn k D unfolding reign_inv_def by blast
    have "last P \<in> set ?l" using P by (auto simp: prefix_def)
    then have "last_term P \<le> last_term ?l"
      using sorted_last_term [OF logs_invD(3) [OF i(1) l(1)]] P(1) by (simp add: last_term_def)
    with 1 have "last_term P < last_term C" by simp
    moreover have "last_term C < t" using campaign_invD(2) [OF i(2) C] Cn by (simp add: last_term_def)
    ultimately show ?thesis using k D DC prefix_order.trans unfolding betrayal_def by blast
  next
    case 2
    have "C \<noteq> []" using 2(2) l(2) by auto
    then have "prefix ?l C \<or> prefix C ?l" using logs_invD(5) [OF i(1) l(1) C' l(2)] 2(1) by simp
    moreover have "prefix C ?l \<Longrightarrow> C = ?l"
      using 2(2) prefix_length_le [of C ?l] by (intro prefix_same_length) auto
    ultimately have "prefix ?l C" by auto
    with P(2) prefix_order.trans show ?thesis by blast
  qed
qed

text \<open>What every vote says after a step, measured with the leaders before the step.\<close>

lemma ballot_says:
  assumes inv: "history_inv U c" and ev: "event_of X U n ev c c' r' res" and b: "(v, u, m) \<in> ballots (core c')"
  shows "\<exists>C. (u, m, C) \<in> campaigns c' \<and> ((u, m) \<notin> leaders (core c) \<longrightarrow>
    (\<forall>P. (v, P) \<in> held c' \<longrightarrow> last_term P < u \<longrightarrow> prefix P C \<or> (\<exists>u' \<le> u. betrayal c P u')))"
proof -
  note sel = event_sel [OF ev]
  let ?r = "peer c n"
  have i: "log_inv U c" "held_inv U c" "vote_inv U c" "wire_inv (core c)" "request_inv c"
    using inv by (auto simp: history_inv_def log_inv_def cluster_inv_def)
  have st: "raft_step X ev ?r = (r', res)" and n: "n \<in> U" and id: "r_peer_id ?r = n"
    using event_inv(3,5,6) [OF i(1) ev] by (auto simp: peer_log_inv_def)
  have held: "(v, P) \<in> held c" if "(v, P) \<in> held c'" "last_term P < u" for P
  proof -
    have "u \<le> current_term (peer c' v)"
      using event_inv(4) [OF i(1) ev] b unfolding cluster_inv_def ballot_inv_def by blast
    with that show ?thesis by (auto simp: sel(1,9))
  qed
  show ?thesis
  proof (cases "(v, u, m) \<in> ballots (core c)")
    case True
    with i(3) obtain C where "(u, m, C) \<in> campaigns c" "(u, m) \<notin> leaders (core c) \<longrightarrow>
        (\<forall>P. (v, P) \<in> held c \<longrightarrow> last_term P < u \<longrightarrow> prefix P C \<or> (\<exists>u' \<le> u. betrayal c P u'))"
      unfolding vote_inv_def by blast
    with held show ?thesis unfolding sel(8) by blast
  next
    case False
    then have vu: "v = n" "u = current_term r'" "voted_for r' = Some m" using b by (auto simp: sel(3))
    have mono: "current_term ?r \<le> u" using event_term_mono(1) [OF ev] vu(2) by simp
    have keep: "\<exists>C. (u, m, C) \<in> campaigns c' \<and> ((u, m) \<notin> leaders (core c) \<longrightarrow>
        (\<forall>P. (v, P) \<in> held c' \<longrightarrow> last_term P < u \<longrightarrow> prefix P C \<or> (\<exists>u' \<le> u. betrayal c P u')))"
      if C: "(u, m, C) \<in> campaigns c'"
        "\<And>P. P \<noteq> [] \<Longrightarrow> prefix P (log ?r) \<Longrightarrow> prefix P C \<or> (\<exists>u' < u. betrayal c P u')" for C
    proof (intro exI conjI impI allI)
      fix P assume "(v, P) \<in> held c'" "last_term P < u"
      then have "(n, P) \<in> held c" using held vu(1) by blast
      then have P: "P \<noteq> []" "prefix P (log ?r) \<or> (\<exists>u \<le> current_term ?r. betrayal c P u)"
        using i(2) unfolding held_inv_def by blast+
      show "prefix P C \<or> (\<exists>u' \<le> u. betrayal c P u')"
      proof (cases "prefix P (log ?r)")
        case True
        with C(2) [OF P(1)] show ?thesis by (auto intro: less_imp_le)
      next
        case False
        with P(2) obtain u' where "u' \<le> current_term ?r" "betrayal c P u'" by blast
        with mono show ?thesis by (auto intro: order_trans)
      qed
    qed (rule C(1))
    from vote_form [OF st vu(3)] show ?thesis
    proof (elim disjE)
      assume "voted_for ?r = Some m \<and> current_term r' = current_term ?r"
      then have "(n, u, m) \<in> ballots (core c)" using i(3) n vu(2) by (auto simp: vote_inv_def)
      with False vu(1) show ?thesis by simp
    next
      assume "\<exists>t li lt src. ev = RequestVote t m li lt src \<and> current_term r' = t \<and> candidate_log_is_up_to_date ?r li lt"
      then obtain li lt src where rv: "ev = RequestVote u m li lt src" "candidate_log_is_up_to_date ?r li lt"
        using vu(2) by auto
      then have w: "(src, n, RaftRequestVote u m li lt) \<in> sent (core c)" using ev by (simp add: event_of_def)
      then have "m = src" using i(4) unfolding wire_inv_def by blast
      with w i(5) obtain C where C: "(u, m, C) \<in> campaigns c" "unat li = length C" "lt = last_term C"
        unfolding request_inv_def by blast
      have "prefix P C \<or> (\<exists>u' < u. betrayal c P u')" if "P \<noteq> []" "prefix P (log ?r)" for P
        by (rule up_to_date_keeps [OF inv n C(1) rv(2) C(2,3) that])
      with C(1) show ?thesis by (intro keep [of C]) (auto simp: sel(8))
    next
      assume "m = r_peer_id ?r \<and> role r' \<noteq> Follower \<and> role ?r \<noteq> Leader"
      then show ?thesis by (intro keep [of "log ?r"]) (auto simp: sel(8) vu(2) id)
    qed
  qed
qed

lemma vote_step:
  assumes inv: "history_inv U c" and ev: "event_of X U n ev c c' r' res"
  shows "vote_inv U c'"
proof -
  note sel = event_sel [OF ev]
  have "(m, current_term (peer c' m), p) \<in> ballots (core c')" if "m \<in> U" "voted_for (peer c' m) = Some p" for m p
    using that inv by (cases "m = n") (auto simp: sel(1,3) history_inv_def vote_inv_def)
  moreover have "\<exists>C. (u, m, C) \<in> campaigns c' \<and> ((u, m) \<notin> leaders (core c') \<longrightarrow>
      (\<forall>P. (v, P) \<in> held c' \<longrightarrow> last_term P < u \<longrightarrow> prefix P C \<or> (\<exists>u' \<le> u. betrayal c' P u')))"
    if "(v, u, m) \<in> ballots (core c')" for v u m
    using ballot_says [OF inv ev that] betrayal_mono [OF ev] unfolding sel(4) by blast
  ultimately show ?thesis unfolding vote_inv_def by blast
qed

lemma mandate_step:
  assumes inv: "history_inv U c" and ev: "event_of X U n ev c c' r' res"
  shows "mandate_inv U c'"
  unfolding mandate_inv_def
proof (intro allI impI)
  fix u m assume l: "(u, m) \<in> leaders (core c')"
  note sel = event_sel [OF ev]
  have i: "log_inv U c" "campaign_inv U c" "mandate_inv U c" using inv by (auto simp: history_inv_def)
  note ci' = event_inv(4) [OF i(1) ev]
  show "\<exists>C Q. (u, m, C) \<in> campaigns c' \<and> sized_quorum (\<lambda>n. n div 2 + 1) U Q \<and> (\<forall>v \<in> Q. u \<le> current_term (peer c' v) \<and>
      (\<forall>P. (v, P) \<in> held c' \<longrightarrow> last_term P < u \<longrightarrow> prefix P C \<or> (\<exists>u' < u. betrayal c' P u')))"
  proof (cases "(u, m) \<in> leaders (core c)")
    case True
    then obtain C Q where CQ: "(u, m, C) \<in> campaigns c" "sized_quorum (\<lambda>n. n div 2 + 1) U Q"
        "\<forall>v \<in> Q. u \<le> current_term (peer c v) \<and>
          (\<forall>P. (v, P) \<in> held c \<longrightarrow> last_term P < u \<longrightarrow> prefix P C \<or> (\<exists>u' < u. betrayal c P u'))"
      using i(3) unfolding mandate_inv_def by blast
    have "u \<le> current_term (peer c' v) \<and>
        (\<forall>P. (v, P) \<in> held c' \<longrightarrow> last_term P < u \<longrightarrow> prefix P C \<or> (\<exists>u' < u. betrayal c' P u'))" if v: "v \<in> Q" for v
    proof
      have uv: "u \<le> current_term (peer c v)" using CQ(3) v by blast
      then show u': "u \<le> current_term (peer c' v)" using event_term_mono(1) [OF ev] by (auto simp: sel(1))
      show "\<forall>P. (v, P) \<in> held c' \<longrightarrow> last_term P < u \<longrightarrow> prefix P C \<or> (\<exists>u' < u. betrayal c' P u')"
      proof (intro allI impI)
        fix P assume "(v, P) \<in> held c'" "last_term P < u"
        with u' have "(v, P) \<in> held c" by (auto simp: sel(1,9))
        with CQ(3) v \<open>last_term P < u\<close> betrayal_mono [OF ev] show "prefix P C \<or> (\<exists>u' < u. betrayal c' P u')" by blast
      qed
    qed
    with CQ(1,2) show ?thesis unfolding sel(8) by blast
  next
    case False
    obtain Q where Q: "sized_quorum (\<lambda>n. n div 2 + 1) U Q" "\<forall>v \<in> Q. (v, u, m) \<in> ballots (core c')"
      using leader_quorum [of U "core c'" u m] ci' l by (auto simp: cluster_inv_def)
    note ci2 = campaign_step [OF i(1,2) ev]
    obtain C where C: "(u, m, C) \<in> campaigns c'" using campaign_invD(4) [OF ci2 l] by blast
    have "u \<le> current_term (peer c' v) \<and>
        (\<forall>P. (v, P) \<in> held c' \<longrightarrow> last_term P < u \<longrightarrow> prefix P C \<or> (\<exists>u' < u. betrayal c' P u'))" if v: "v \<in> Q" for v
    proof
      have b: "(v, u, m) \<in> ballots (core c')" using Q(2) v by blast
      then show "u \<le> current_term (peer c' v)" using ci' unfolding cluster_inv_def ballot_inv_def by blast
      show "\<forall>P. (v, P) \<in> held c' \<longrightarrow> last_term P < u \<longrightarrow> prefix P C \<or> (\<exists>u' < u. betrayal c' P u')"
      proof (intro allI impI)
        fix P assume P: "(v, P) \<in> held c'" "last_term P < u"
        have "\<not> betrayal c P u"
        proof
          assume "betrayal c P u"
          then obtain k where "(u, k) \<in> leaders (core c)" by (auto simp: betrayal_def)
          moreover from this have "k = m" using one_leader [OF ci' _ l] by (simp add: sel(4))
          ultimately show False using False by simp
        qed
        moreover have "prefix P C \<or> (\<exists>u' \<le> u. betrayal c P u')"
          using ballot_says [OF inv ev b] False P campaign_invD(3) [OF ci2 C] by blast
        ultimately show "prefix P C \<or> (\<exists>u' < u. betrayal c' P u')"
          using betrayal_mono [OF ev] order_le_less by blast
      qed
    qed
    with C Q(1) show ?thesis by blast
  qed
qed

lemma history_step:
  assumes "history_inv U c" and "event_of X U n ev c c' r' res"
  shows "history_inv U c'"
  using assms log_inv_step [of U c X n ev c' r' res] campaign_step [of U c X n ev c' r' res]
    reign_step [of U c X n ev c' r' res] request_step [of U c X n ev c' r' res]
    held_step [OF assms] vote_step [OF assms] mandate_step [OF assms]
  by (simp add: history_inv_def)

lemma running_history_inv: "running X U ok c \<Longrightarrow> history_inv U c"
proof (induction rule: running.induct)
  case (step c c')
  from step.hyps(2) obtain n ev r' res where "event_of X U n ev c c' r' res" by (rule system_step_event)
  with step.IH show ?case by (rule history_step)
qed (rule fresh_history_inv)

section \<open>Chosen prefixes\<close>

text \<open>A majority held the prefix in the term of its last entry.\<close>

definition chosen :: "PeerId set \<Rightarrow> system \<Rightarrow> RaftLogEntry list \<Rightarrow> bool" where
  "chosen U c P \<longleftrightarrow> (\<exists>Q. sized_quorum (\<lambda>n. n div 2 + 1) U Q \<and> (\<forall>v \<in> Q. (v, P) \<in> held c))"

lemma chosen_not_betrayed:
  assumes inv: "history_inv U c" and ch: "chosen U c P"
  shows "\<not> betrayal c P u"
proof (induction "unat u" arbitrary: u rule: less_induct)
  case less
  have i: "campaign_inv U c" "mandate_inv U c" using inv by (auto simp: history_inv_def)
  show ?case
  proof
    assume b: "betrayal c P u"
    then obtain m C where mC: "(u, m) \<in> leaders (core c)" "(u, m, C) \<in> campaigns c" "\<not> prefix P C" and lt: "last_term P < u"
      by (auto simp: betrayal_def)
    obtain C' Q' where Q': "(u, m, C') \<in> campaigns c" "sized_quorum (\<lambda>n. n div 2 + 1) U Q'"
        "\<forall>v \<in> Q'. \<forall>P. (v, P) \<in> held c \<longrightarrow> last_term P < u \<longrightarrow> prefix P C' \<or> (\<exists>u' < u. betrayal c P u')"
      using i(2) mC(1) unfolding mandate_inv_def by blast
    have "C' = C" using campaign_invD(3) [OF i(1) Q'(1) mC(2)] .
    obtain Q where Q: "sized_quorum (\<lambda>n. n div 2 + 1) U Q" "\<forall>v \<in> Q. (v, P) \<in> held c" using ch by (auto simp: chosen_def)
    have "Q \<inter> Q' \<noteq> {}" using Q(1) Q'(2) by (rule rq.quorum_inter)
    then obtain u' where "u' < u" "betrayal c P u'" using Q(2) Q'(3) lt mC(3) \<open>C' = C\<close> by blast
    with less show False by (auto simp: word_less_nat_alt)
  qed
qed

lemma chosen_in_logs:
  assumes "history_inv U c" and "chosen U c P"
  shows "P \<in> logs c" "P \<noteq> []"
proof -
  obtain Q where Q: "sized_quorum (\<lambda>n. n div 2 + 1) U Q" "\<forall>v \<in> Q. (v, P) \<in> held c" using assms(2) by (auto simp: chosen_def)
  have "Q \<inter> Q \<noteq> {}" using Q(1,1) by (rule rq.quorum_inter)
  with Q(2) assms(1) show "P \<in> logs c" "P \<noteq> []" unfolding history_inv_def held_inv_def by blast+
qed

text \<open>A log that ends in a term at least as late as a chosen prefix is comparable with it.\<close>

lemma chosen_comparable:
  assumes inv: "history_inv U c" and ch: "chosen U c P" and L: "L \<in> logs c" "L \<noteq> []" "last_term P \<le> last_term L"
  shows "prefix P L \<or> prefix L P"
proof (cases "last_term P = last_term L")
  case True
  have "logs_inv c" using inv by (simp add: history_inv_def log_inv_def)
  from logs_invD(5) [OF this chosen_in_logs(1) [OF inv ch] L(1) chosen_in_logs(2) [OF inv ch] L(2) True] show ?thesis .
next
  case False
  with L(3) have lt: "last_term P < last_term L" by simp
  have i: "campaign_inv U c" "reign_inv c" "logs_inv c" using inv by (auto simp: history_inv_def log_inv_def)
  obtain m where m: "(last_term L, m) \<in> leaders (core c)" using logs_invD(4) [OF i(3) L(1,2)] by blast
  obtain C where C: "(last_term L, m, C) \<in> campaigns c" using campaign_invD(4) [OF i(1) m] by blast
  have "prefix C L" using i(2) L m C unfolding reign_inv_def by blast
  moreover have "prefix P C" using chosen_not_betrayed [OF inv ch, of "last_term L"] lt m C by (auto simp: betrayal_def)
  ultimately show ?thesis using prefix_order.trans by blast
qed

lemma chosen_in_leader_log:
  assumes inv: "history_inv U c" and ch: "chosen U c P" and n: "n \<in> U" "role (peer c n) = Leader"
    "last_term P < current_term (peer c n)"
  shows "prefix P (log (peer c n))"
proof -
  have l: "log (peer c n) \<in> logs c" "log (peer c n) \<noteq> []" "last_term (log (peer c n)) = current_term (peer c n)"
    using inv n by (auto simp: history_inv_def log_inv_def peer_log_inv_def)
  then have "prefix P (log (peer c n)) \<or> prefix (log (peer c n)) P"
    using n(3) by (intro chosen_comparable [OF inv ch]) auto
  moreover have "\<not> prefix (log (peer c n)) P"
  proof
    assume "prefix (log (peer c n)) P"
    then have "last (log (peer c n)) \<in> set P" using l(2) by (auto simp: prefix_def)
    moreover have "sorted (map le_term P)"
      using inv chosen_in_logs(1) [OF inv ch] logs_invD(3) by (auto simp: history_inv_def log_inv_def)
    ultimately have "current_term (peer c n) \<le> last_term P"
      using sorted_last_term l(2,3) by (fastforce simp: last_term_def)
    with n(3) show False by simp
  qed
  ultimately show ?thesis by blast
qed

end
