(* ===== verification/State_Machine_Safety.thy ===== *)
theory State_Machine_Safety
  imports Leader_Completeness
begin

text \<open>
  State machine safety: the committed parts of two peers' logs never disagree. It holds for
  runs in which two deliveries do not happen, which the code does not guard against:
  a follower with entries beyond a batch gets a commit index beyond it (it then commits entries
  that its leader never sent), and a leader takes the rejection of a request of an earlier term
  for an answer to its current ones (the match index in it refers to a log it no longer has).
\<close>

section \<open>The two restrictions\<close>

text \<open>A commit index beyond the batch reaches no follower with entries beyond the batch.\<close>

fun covered :: "system \<Rightarrow> PeerId \<Rightarrow> raft_event \<Rightarrow> bool" where
  "covered c n (AppendEntries draw t leader pi pt rbs lc src now) \<longleftrightarrow>
    unat lc \<le> unat pi + length rbs \<or> length (log (peer c n)) \<le> unat pi + length rbs"
| "covered c n _ \<longleftrightarrow> True"

text \<open>A reply of the receiver's term answers a request of that term.\<close>

fun prompt :: "system \<Rightarrow> PeerId \<Rightarrow> raft_event \<Rightarrow> bool" where
  "prompt c n (AppendReply t src success mi) \<longleftrightarrow>
    (t = current_term (peer c n) \<longrightarrow> ReplyWire src n t success mi t \<in> replies c)"
| "prompt c n _ \<longleftrightarrow> True"

definition careful :: "system \<Rightarrow> PeerId \<Rightarrow> raft_event \<Rightarrow> bool" where
  "careful c n ev \<longleftrightarrow> covered c n ev \<and> prompt c n ev"

section \<open>The invariant\<close>

definition committed :: "PeerId set \<Rightarrow> system \<Rightarrow> RaftLogEntry list \<Rightarrow> bool" where
  "committed U c A \<longleftrightarrow> A = [] \<or> (\<exists>P. chosen U c P \<and> prefix A P)"

text \<open>The peer holds the first \<open>k\<close> entries of \<open>L\<close>, as far as they are of the last term of \<open>L\<close>.\<close>

definition holds_upto :: "system \<Rightarrow> PeerId \<Rightarrow> RaftLogEntry list \<Rightarrow> u64 \<Rightarrow> nat \<Rightarrow> bool" where
  "holds_upto c p L t k \<longleftrightarrow> k \<le> length L \<and>
    (\<forall>i \<le> k. 0 < i \<longrightarrow> last_term (take i L) = t \<longrightarrow> (p, take i L) \<in> held c)"

definition match_inv :: "PeerId set \<Rightarrow> system \<Rightarrow> bool" where
  "match_inv U c \<longleftrightarrow> (\<forall>n \<in> U. role (peer c n) = Leader \<longrightarrow> (\<forall>p mi. match_indexes (peer c n) p = Some mi \<longrightarrow>
    holds_upto c p (log (peer c n)) (current_term (peer c n)) (unat mi)))"

definition answer_inv :: "system \<Rightarrow> bool" where
  "answer_inv c \<longleftrightarrow> (\<forall>src p t b mi. ReplyWire src p t b mi t \<in> replies c \<longrightarrow>
    (\<exists>L \<in> logs c. L \<noteq> [] \<and> last_term L = t \<and> holds_upto c src L t (unat mi)))"

definition commit_inv :: "PeerId set \<Rightarrow> system \<Rightarrow> bool" where
  "commit_inv U c \<longleftrightarrow> (\<forall>n \<in> U. committed U c (take (unat (commit_index (peer c n))) (log (peer c n))))"

definition batch_inv :: "PeerId set \<Rightarrow> system \<Rightarrow> bool" where
  "batch_inv U c \<longleftrightarrow> (\<forall>src p t pi pt es lc. AppendWire src p t pi pt es lc \<in> appends c \<longrightarrow>
    (\<exists>L \<in> logs c. L \<noteq> [] \<and> last_term L = t \<and> unat lc \<le> length L \<and> committed U c (take (unat lc) L)))"

definition safety_inv :: "PeerId set \<Rightarrow> system \<Rightarrow> bool" where
  "safety_inv U c \<longleftrightarrow> history_inv U c \<and> match_inv U c \<and> answer_inv c \<and> commit_inv U c \<and> batch_inv U c"

lemma fresh_safety_inv: "fresh_system U c \<Longrightarrow> safety_inv U c"
  using fresh_history_inv [of U c]
  by (auto simp: fresh_system_def safety_inv_def match_inv_def answer_inv_def commit_inv_def batch_inv_def committed_def
      initial_def) (fastforce simp: new_with_log_def)+

section \<open>Monotonicity\<close>

lemma held_mono: "event_of X U n ev c c' r' res \<Longrightarrow> held c \<subseteq> held c'"
  by (simp add: event_sel(9))

lemma chosen_mono: "event_of X U n ev c c' r' res \<Longrightarrow> chosen U c P \<Longrightarrow> chosen U c' P"
  using held_mono unfolding chosen_def by blast

lemma committed_mono: "event_of X U n ev c c' r' res \<Longrightarrow> committed U c A \<Longrightarrow> committed U c' A"
  using chosen_mono unfolding committed_def by blast

lemma committed_prefix: "committed U c A \<Longrightarrow> prefix B A \<Longrightarrow> committed U c B"
  using prefix_order.trans unfolding committed_def by (metis prefix_Nil)

lemma holds_mono: "event_of X U n ev c c' r' res \<Longrightarrow> holds_upto c p L t k \<Longrightarrow> holds_upto c' p L t k"
  using held_mono unfolding holds_upto_def by blast

lemma holds_le: "holds_upto c p L t k \<Longrightarrow> j \<le> k \<Longrightarrow> holds_upto c p L t j"
  by (simp add: holds_upto_def)

lemma holds_extend: "holds_upto c p L t k \<Longrightarrow> prefix L L' \<Longrightarrow> holds_upto c p L' t k"
  by (auto simp: holds_upto_def prefix_def)

lemma holds_own:
  assumes "event_of X U n ev c c' r' res" and "k \<le> length L" and "take k L = take k (log r')" and "t = current_term r'"
  shows "holds_upto c' n L t k"
  unfolding holds_upto_def
proof (intro conjI allI impI)
  fix i assume i: "i \<le> k" "0 < i" "last_term (take i L) = t"
  have "take i L = take i (log r')" using assms(3) i(1) by (metis min_absorb1 take_take)
  moreover have "take i L \<noteq> []" using i assms(2) by auto
  ultimately show "(n, take i L) \<in> held c'"
    using i(3) assms(4) by (auto simp: event_sel(9) [OF assms(1)] take_is_prefix)
qed (rule assms(2))

section \<open>Answers\<close>

lemma matching_index_agree:
  assumes ok: "log_ok (log r)" "log_ok L" and ag: "agree (log r) L" and seg: "segment_of L pi pt es0"
    and es: "es = [] \<or> es = es0"
  shows "unat (matching_index_for r pi pt es) \<le> length L \<and>
    take (unat (matching_index_for r pi pt es)) (log r) = take (unat (matching_index_for r pi pt es)) L"
proof -
  have at: "unat ix \<le> length L \<and> take (unat ix) (log r) = take (unat ix) L"
    if "term_at r ix = Some (last_term (take (unat ix) L))" "unat ix \<le> length L" for ix
    using that ag term_at_last_term [OF ok(1), of ix] by (auto simp: agree_def split: if_splits)
  have seg': "unat pi + length es0 \<le> length L" "pt = last_term (take (unat pi) L)" "es0 = take (length es0) (drop (unat pi) L)"
    using seg by (auto simp: segment_of_def)
  let ?m = "map le_index (filter (\<lambda>e. term_at r (le_index e) = Some (le_term e)) es)"
  show ?thesis
  proof (cases "?m = []")
    case True
    then have "matching_index_for r pi pt es = (if term_at r pi = Some pt then pi else 0)"
      by (simp add: matching_index_for_def)
    with at [of pi] seg' show ?thesis by auto
  next
    case False
    then have "matching_index_for r pi pt es = Max (set ?m)" by (simp add: matching_index_for_def)
    moreover have "set ?m \<noteq> {}" using False by (simp only: set_empty not_False_eq_True)
    then have "Max (set ?m) \<in> set ?m" by (rule Max_in [OF finite_set])
    ultimately have "matching_index_for r pi pt es \<in> set ?m" by simp
    then obtain e where e: "matching_index_for r pi pt es = le_index e" "e \<in> set es"
        "term_at r (le_index e) = Some (le_term e)" by auto
    with es have "e \<in> set es0" by auto
    then obtain j where j: "j < length es0" "e = es0 ! j" by (auto simp: in_set_conv_nth)
    then have eL: "e = L ! (unat pi + j)" using seg'(1) by (subst (asm) seg'(3)) (simp add: algebra_simps)
    then have ix: "unat (le_index e) = Suc (unat pi + j)" using ok(2) j(1) seg'(1) by (simp add: log_ok_def)
    then have "le_term e = last_term (take (unat (le_index e)) L)"
      using eL j(1) seg'(1) by (simp add: last_term_take)
    with at [of "le_index e"] e ix j(1) seg'(1) show ?thesis by simp
  qed
qed

lemma batch_end:
  assumes "log_ok L" and "segment_of L pi pt (map rb_entry rbs)"
  shows "unat (if rbs = [] then pi else le_index (rb_entry (last rbs))) = unat pi + length rbs"
proof (cases "rbs = []")
  case False
  have seg: "unat pi + length rbs \<le> length L" "map rb_entry rbs = take (length rbs) (drop (unat pi) L)"
    using assms(2) by (auto simp: segment_of_def)
  have "rb_entry (last rbs) = last (map rb_entry rbs)" using False by (simp add: last_map)
  also have "\<dots> = L ! (unat pi + length rbs - 1)"
  proof -
    obtain k where "length rbs = Suc k" using False by (cases rbs) auto
    with seg(1) show ?thesis unfolding seg(2) by (subst last_conv_nth) (auto simp: min_absorb2)
  qed
  finally show ?thesis using assms(1) False seg(1) by (cases rbs) (auto simp: log_ok_def)
qed simp

lemma answer_step:
  assumes inv: "safety_inv U c" and ev: "event_of X U n ev c c' r' res"
  shows "answer_inv c'"
  unfolding answer_inv_def
proof (intro allI impI)
  fix src p t b mi assume w: "ReplyWire src p t b mi t \<in> replies c'"
  note sel = event_sel [OF ev]
  let ?r = "peer c n"
  have i: "log_inv U c" "logs_inv c" "answer_inv c" and L0: "log ?r \<in> logs c"
    using inv event_inv(5) [of U c X n ev] ev by (auto simp: safety_inv_def history_inv_def log_inv_def peer_log_inv_def)
  show "\<exists>L \<in> logs c'. L \<noteq> [] \<and> last_term L = t \<and> holds_upto c' src L t (unat mi)"
  proof (cases "ReplyWire src p t b mi t \<in> replies c")
    case True
    with i(3) obtain L where "L \<in> logs c" "L \<noteq> []" "last_term L = t" "holds_upto c src L t (unat mi)"
      unfolding answer_inv_def by blast
    with holds_mono [OF ev] show ?thesis by (auto simp: sel(7))
  next
    case False
    with w have src: "src = n" "t = request_term ev" and snt: "Send p (RaftAppendEntriesResponse t b mi) \<in> effects_of res"
      by (auto simp: sel(6) reply_wires_def)
    from reply_sent [OF i(1) ev snt] obtain draw pi pt rbs lc now where
        e: "ev = AppendEntries draw t p pi pt rbs lc p now" using src(2) by auto
    obtain L where L: "L \<in> logs c" "L \<noteq> []" "last_term L = t" "segment_of L pi pt (map rb_entry rbs)"
      using request_from_leader(3) [OF i(1) ev [unfolded e]] by blast
    have okL: "log_ok L" and ok: "log_ok (log ?r)" and ag: "agree (log ?r) L"
      using logs_invD(2) [OF i(2)] L(1) L0 logs_agree [OF i(2)] by auto
    from i(1) ev snt have "unat mi \<le> length L \<and> take (unat mi) L = take (unat mi) (log r') \<and> t = current_term r'"
    proof (cases rule: reply_form)
      case (refuse draw' rt pi' pt' rbs' lc' now' es)
      then have "mi = matching_index_for r' pi pt es" "es = [] \<or> es = map rb_entry rbs" using e by auto
      with matching_index_agree [of r' L pi pt "map rb_entry rbs" es] refuse(2,4) okL ok ag L(4) show ?thesis by auto
    next
      case (accept draw' rt pi' pt' rbs' lc' now')
      then have same: "rbs' = rbs" "pi' = pi" "pt' = pt" using e by auto
      have mi: "unat mi = unat pi + length rbs" unfolding accept(5) same by (rule batch_end [OF okL L(4)])
      have "unat pi \<le> length (log ?r)" "last_term (take (unat pi) (log ?r)) = pt"
        using accept(3) same term_at_last_term [OF ok] by (auto simp: accepts_def split: if_splits)
      from merge_agree(2) [OF ag L(4) this] accept(2,4) same mi L(4) show ?thesis by (auto simp: segment_of_def)
    qed
    with holds_own [OF ev, of "unat mi" L t] L src(1) show ?thesis by (auto simp: sel(7))
  qed
qed

section \<open>Match indexes\<close>

lemma match_step:
  assumes inv: "safety_inv U c" and ev: "event_of X U n ev c c' r' res" and ok: "careful c n ev"
  shows "match_inv U c'"
  unfolding match_inv_def
proof (intro ballI allI impI)
  fix a p mi assume a: "a \<in> U" "role (peer c' a) = Leader" and mi: "match_indexes (peer c' a) p = Some mi"
  note sel = event_sel [OF ev]
  let ?r = "peer c n"
  have i: "log_inv U c" "match_inv U c" "answer_inv c"
    using inv by (auto simp: safety_inv_def history_inv_def)
  show "holds_upto c' p (log (peer c' a)) (current_term (peer c' a)) (unat mi)"
  proof (cases "a = n")
    case False
    with a mi i(2) holds_mono [OF ev] show ?thesis by (auto simp: match_inv_def sel(1))
  next
    case True
    with a mi have l: "role r' = Leader" "match_indexes r' p = Some mi" and n: "n \<in> U" by (simp_all add: sel(1))
    have old: "holds_upto c' p (log ?r) (current_term ?r) (unat m)" if "role ?r = Leader" "match_indexes ?r p = Some m" for m
      using i(2) n that holds_mono [OF ev] by (auto simp: match_inv_def)
    have heard: "holds_upto c' src (log ?r) (current_term ?r) (unat m)"
      if "ev = AppendReply (current_term ?r) src b m" "role ?r = Leader" for src b m
    proof -
      have "ReplyWire src n (current_term ?r) b m (current_term ?r) \<in> replies c" using ok that by (simp add: careful_def)
      with i(3) obtain L where L: "L \<in> logs c" "L \<noteq> []" "last_term L = current_term ?r"
          "holds_upto c src L (current_term ?r) (unat m)"
        unfolding answer_inv_def by blast
      then have "prefix L (log ?r)" using event_inv(5) [OF i(1) ev] that(2) by (simp add: peer_log_inv_def)
      with L(4) holds_extend holds_mono [OF ev] show ?thesis by blast
    qed
    have self: "holds_upto c' n (log r') (current_term r') (unat m)" if "unat m \<le> length (log r')" for m
      by (rule holds_own [OF ev that]) simp_all
    have lastl: "unat (last_log_index ?r) = length (log ?r)"
      by (rule unat_last_log_index [OF raft_wfD(1) [OF event_inv(1) [OF i(1) ev]]])
    have "holds_upto c' p (log r') (current_term r') (unat mi)"
      using event_inv(1,2,3) [OF i(1) ev]
    proof (cases rule: step_cases)
      case calm
      have "role ?r = Leader" "current_term r' = current_term ?r" "match_indexes ?r p = Some mi"
        using calm(3) l by auto
      with old show ?thesis by (simp add: calm(1))
    next
      case (own r1 e s)
      have okl: "log_ok (log r')" by (rule raft_wfD(1) [OF event_inv(7) [OF i(1) ev]])
      have ix: "unat (le_index e) = length (log r')"
        using okl own(4) by (simp add: log_ok_snoc)
      have id: "r_peer_id r1 = n" using own(1) event_inv(5) [OF i(1) ev] by (auto simp: crowned_def peer_log_inv_def)
      show ?thesis
      proof (cases "p = n")
        case True
        with l(2) own(4) id have "mi = le_index e" by simp
        with ix self [of mi] True show ?thesis by simp
      next
        case False
        with l(2) own(4) id have m1: "match_indexes r1 p = Some mi" by simp
        from own(1) show ?thesis
        proof
          assume "crowned ?r r1"
          then have "mi = 0" using m1 False event_inv(5) [OF i(1) ev] by (auto simp: crowned_def peer_log_inv_def)
          then show ?thesis by (simp add: holds_upto_def)
        next
          assume "r1 = ?r \<and> role ?r = Leader"
          with old [of mi] m1 own(4) show ?thesis by (auto intro: holds_extend)
        qed
      qed
    next
      case (ack src m s)
      have "mi = m \<or> mi = 0 \<or> match_indexes ?r p = Some mi" "p = src \<or> match_indexes ?r p = Some mi"
        using l(2) ack(3) by (auto simp: max_def split: if_splits option.splits)
      with old [OF ack(2)] heard [OF ack(1,2)] ack(3) show ?thesis by (auto simp: holds_upto_def)
    next
      case (nack src m effs)
      show ?thesis
      proof (cases "p = src")
        case True
        with l(2) nack(3) have "unat mi \<le> unat m" by (auto simp: min_def word_le_nat_alt)
        with heard [OF nack(1,2)] holds_le True nack(3) show ?thesis by simp
      qed (use l(2) nack(3) old [OF nack(2)] in simp)
    next
      case (refuse draw t leader pi pt rbs lc src now es)
      then have "r' = ?r" using l(1) by auto
      with l old show ?thesis by simp
    next
      case (accept draw t leader pi pt rbs lc src now)
      with l show ?thesis by simp
    qed
    with True show ?thesis by (simp add: sel(1))
  qed
qed

section \<open>Commit indexes\<close>

lemma leader_chooses:
  assumes inv: "cluster_inv U (core c')" "match_inv U c'" and n: "n \<in> U" and r': "peer c' n = r'"
    and wf: "log_ok (log r')" and lead: "role r' = Leader"
    and e: "e \<in> set (log r')" "le_term e = current_term r'" "majority r' \<le> replicated_count r' (le_index e)"
  shows "chosen U c' (take (unat (le_index e)) (log r'))"
proof -
  obtain j where j: "j < length (log r')" "e = log r' ! j" using e(1) by (auto simp: in_set_conv_nth)
  then have ix: "unat (le_index e) = Suc j" using wf by (simp add: log_ok_def)
  have U: "distinct (r_participants r')" "set (r_participants r') = U"
    using inv(1) n lead r' by (auto simp: cluster_inv_def node_inv_def Let_def)
  let ?has = "\<lambda>p. case match_indexes r' p of Some mi \<Rightarrow> le_index e \<le> mi | None \<Rightarrow> False"
  have q: "sized_quorum (\<lambda>n. n div 2 + 1) U {p \<in> U. ?has p}"
    using majority_quorum [OF U(1), of ?has] e(3) U(2) by (simp add: replicated_count_def)
  have "(p, take (unat (le_index e)) (log r')) \<in> held c'" if p: "?has p" for p
  proof -
    obtain mi where mi: "match_indexes r' p = Some mi" "le_index e \<le> mi" using p by (auto split: option.splits)
    with inv(2) n lead r' have "holds_upto c' p (log r') (current_term r') (unat mi)" by (auto simp: match_inv_def)
    moreover have "unat (le_index e) \<le> unat mi" using mi(2) by (simp add: word_le_nat_alt)
    moreover have "last_term (take (unat (le_index e)) (log r')) = current_term r'" using ix j e(2) by (simp add: last_term_take)
    ultimately show ?thesis using ix by (simp add: holds_upto_def)
  qed
  with q show ?thesis unfolding chosen_def by blast
qed

lemma commit_advance:
  assumes inv: "safety_inv U c" and ev: "event_of X U n ev c c' r' res" and m: "match_inv U c'"
    and r': "r' = committing r2 s" "prefix (log (peer c n)) (log r2)" "commit_index r2 = commit_index (peer c n)" "role r2 = Leader"
  shows "committed U c' (take (unat (commit_index r')) (log r'))"
proof -
  have li: "log_inv U c" using inv by (simp add: safety_inv_def history_inv_def)
  have n: "n \<in> U" and wf: "log_ok (log r')" "unat (commit_index (peer c n)) \<le> length (log (peer c n))"
    using event_inv(6) [OF li ev] raft_wfD [OF event_inv(7) [OF li ev]] raft_wfD [OF event_inv(1) [OF li ev]] by simp_all
  have p: "peer c' n = r'" by (simp add: event_sel(1) [OF ev])
  have same: "majority r2 = majority r'" "replicated_count r2 ix = replicated_count r' ix" "current_term r2 = current_term r'"
      "log r2 = log r'" "role r' = Leader" for ix
    using r'(4) by (simp_all add: r'(1) majority_def replicated_count_def)
  from find_commit_cases [of r2 "rev (log r2)"] show ?thesis
  proof (elim disjE bexE conjE)
    assume "find_commit r2 (rev (log r2)) = commit_index r2"
    then have "take (unat (commit_index r')) (log r') = take (unat (commit_index (peer c n))) (log (peer c n))"
      using r' wf(2) by (auto simp: prefix_def)
    with inv n committed_mono [OF ev] show ?thesis by (auto simp: safety_inv_def commit_inv_def)
  next
    fix e assume e: "e \<in> set (rev (log r2))" "find_commit r2 (rev (log r2)) = le_index e" "le_term e = current_term r2"
      "majority r2 \<le> replicated_count r2 (le_index e)"
    then have "e \<in> set (log r')" "le_term e = current_term r'" "majority r' \<le> replicated_count r' (le_index e)"
      using same by simp_all
    from leader_chooses [OF event_inv(4) [OF li ev] m n p wf(1) same(5) this]
    have "chosen U c' (take (unat (le_index e)) (log r'))" .
    moreover have "commit_index r' = le_index e" using e(2) by (simp add: r'(1))
    ultimately show ?thesis unfolding committed_def by auto
  qed
qed

lemma commit_follow:
  assumes inv: "safety_inv U c" and ok: "careful c n ev"
    and ev: "event_of X U n ev c c' r' res" "ev = AppendEntries draw t leader pi pt rbs lc src now"
    and acc: "accepts pi pt (map rb_entry rbs) (peer c n)" "log r' = merge_log (unat pi) (map rb_entry rbs) (log (peer c n))"
  shows "committed U c (take (unat (min lc (last_log_index r'))) (log r'))"
proof -
  let ?r = "peer c n" and ?q = "unat pi + length rbs"
  have i: "log_inv U c" "logs_inv c" "batch_inv U c" and L0: "log ?r \<in> logs c"
    using inv event_inv(5) [OF _ ev(1)] by (auto simp: safety_inv_def history_inv_def log_inv_def peer_log_inv_def)
  obtain L where L: "L \<in> logs c" "L \<noteq> []" "last_term L = t" "segment_of L pi pt (map rb_entry rbs)"
    using request_from_leader(3) [OF i(1) ev(1) [unfolded ev(2)]] by blast
  have "AppendWire src n t pi pt (map rb_entry rbs) lc \<in> appends c" using ev by (simp add: event_of_def)
  with i(3) obtain M where M: "M \<in> logs c" "M \<noteq> []" "last_term M = t" "unat lc \<le> length M" "committed U c (take (unat lc) M)"
    unfolding batch_inv_def by blast
  have pl: "unat pi \<le> length (log ?r)" "last_term (take (unat pi) (log ?r)) = pt"
    using acc(1) term_at_last_term [of ?r] logs_invD(2) [OF i(2) L0] by (auto simp: accepts_def split: if_splits)
  note mg = merge_agree [OF logs_agree [OF i(2) L0 L(1)] L(4) pl, folded acc(2)]
  have last: "unat (last_log_index r') = length (log r')"
    by (rule unat_last_log_index [OF raft_wfD(1) [OF event_inv(7) [OF i(1) ev(1)]]])
  define k where "k = unat (min lc (last_log_index r'))"
  have k: "k \<le> unat lc" "k \<le> length (log r')" using last by (auto simp: k_def min_def word_le_nat_alt)
  have qL: "?q \<le> length L" using L(4) by (simp add: segment_of_def)
  have "length (log r') \<le> ?q" if "length (log ?r) \<le> ?q" using mg(1) that qL by auto
  then have kq: "k \<le> ?q" using ok k by (auto simp: careful_def ev(2))
  have "take k (log r') = take k L" using mg(2) kq by (metis length_map min_absorb1 take_take)
  also have "\<dots> = take k M"
    using logs_invD(5) [OF i(2) L(1) M(1) L(2) M(2)] L(3) M(3,4) k(1) kq qL by (auto simp: prefix_def)
  also have "prefix \<dots> (take (unat lc) M)" using k(1) by (simp add: take_is_prefix min_absorb1 prefix_def)
      (metis append_take_drop_id min_absorb1 take_take)
  finally show ?thesis using M(5) committed_prefix unfolding k_def by blast
qed

lemma commit_step:
  assumes inv: "safety_inv U c" and ev: "event_of X U n ev c c' r' res" and ok: "careful c n ev"
  shows "commit_inv U c'"
  unfolding commit_inv_def
proof
  fix a assume a: "a \<in> U"
  let ?r = "peer c n"
  note sel = event_sel [OF ev]
  have li: "log_inv U c" and old: "committed U c (take (unat (commit_index (peer c a))) (log (peer c a)))"
    using inv a by (auto simp: safety_inv_def history_inv_def commit_inv_def)
  note m = match_step [OF inv ev ok]
  show "committed U c' (take (unat (commit_index (peer c' a))) (log (peer c' a)))"
  proof (cases "a = n")
    case False
    with old committed_mono [OF ev] show ?thesis by (simp add: sel(1))
  next
    case True
    have old': "committed U c' (take (unat (commit_index ?r)) (log ?r))" using old True committed_mono [OF ev] by simp
    have "committed U c' (take (unat (commit_index r')) (log r'))"
      using event_inv(1,2,3) [OF li ev]
    proof (cases rule: step_cases)
      case calm
      show ?thesis unfolding calm(1,2) by (rule old')
    next
      case (own r1 e s)
      show ?thesis by (rule commit_advance [OF inv ev m own(4)]) (use own(1) in \<open>auto simp: crowned_def\<close>)
    next
      case (ack src mi s)
      show ?thesis by (rule commit_advance [OF inv ev m ack(3)]) (use ack(2) in auto)
    next
      case (nack src mi effs)
      with old' show ?thesis by simp
    next
      case (refuse draw t leader pi pt rbs lc src now es)
      show ?thesis unfolding refuse(2,3) by (rule old')
    next
      case (accept draw t leader pi pt rbs lc src now)
      have new: "committed U c' (take (unat (min lc (last_log_index r'))) (log r'))"
        using commit_follow [OF inv ok ev accept(1,5,6)] committed_mono [OF ev] by blast
      have "good_step ?r (r', res)" using good_raft_step [OF event_inv(1,2) [OF li ev], of X] event_inv(3) [OF li ev] by simp
      then have "take (unat (commit_index ?r)) (log r') = take (unat (commit_index ?r)) (log ?r)"
        by (simp add: good_step_def step_ok_def keeps_committed_def)
      with new old' show ?thesis unfolding accept(7) by (simp add: max_def)
    qed
    with True show ?thesis by (simp add: sel(1))
  qed
qed

lemma batch_step:
  assumes inv: "safety_inv U c" and ev: "event_of X U n ev c c' r' res" and ok: "careful c n ev"
  shows "batch_inv U c'"
  unfolding batch_inv_def
proof (intro allI impI)
  fix src p t pi pt es lc assume w: "AppendWire src p t pi pt es lc \<in> appends c'"
  note sel = event_sel [OF ev]
  have li: "log_inv U c" and bi: "batch_inv U c" using inv by (auto simp: safety_inv_def history_inv_def)
  show "\<exists>L \<in> logs c'. L \<noteq> [] \<and> last_term L = t \<and> unat lc \<le> length L \<and> committed U c' (take (unat lc) L)"
  proof (cases "AppendWire src p t pi pt es lc \<in> appends c")
    case True
    with bi obtain L where "L \<in> logs c" "L \<noteq> []" "last_term L = t" "unat lc \<le> length L" "committed U c (take (unat lc) L)"
      unfolding batch_inv_def by blast
    with committed_mono [OF ev] show ?thesis by (auto simp: sel(7))
  next
    case False
    with w have "SendRaftAppendEntries p t pi pt es lc \<in> effects_of res" by (auto simp: sel(5) append_wires_def)
    note snt = append_sent [OF li ev this]
    have l: "log r' \<noteq> []" "last_term (log r') = t" "log r' \<in> logs c'"
      using peer_log_step [OF li ev] snt by (auto simp: peer_log_inv_def sel(1))
    have "unat lc \<le> unat (commit_index r')" "unat (commit_index r') \<le> length (log r')"
      using snt raft_wfD(2) [OF event_inv(7) [OF li ev]] by (auto simp: word_le_nat_alt)
    moreover have "committed U c' (take (unat (commit_index r')) (log r'))"
      using commit_step [OF inv ev ok] event_inv(6) [OF li ev] by (auto simp: commit_inv_def sel(1) split: if_splits)
    moreover have "prefix (take (unat lc) (log r')) (take (unat (commit_index r')) (log r'))"
      using calculation(1) by (metis min_absorb1 take_is_prefix take_take)
    ultimately have "unat lc \<le> length (log r')" "committed U c' (take (unat lc) (log r'))"
      using committed_prefix by auto
    with l show ?thesis by blast
  qed
qed

lemma running_safety_inv: "running X U careful c \<Longrightarrow> safety_inv U c"
proof (induction rule: running.induct)
  case (step c c')
  from step.hyps(2) obtain n ev r' res where ev: "event_of X U n ev c c' r' res" "careful c n ev" by (rule system_step_event)
  have "history_inv U c'" using step.IH history_step [OF _ ev(1)] by (simp add: safety_inv_def)
  with match_step [OF step.IH ev] answer_step [OF step.IH ev(1)] commit_step [OF step.IH ev] batch_step [OF step.IH ev]
  show ?case by (simp add: safety_inv_def)
qed (rule fresh_safety_inv)

lemma committed_comparable:
  assumes inv: "history_inv U c" and "committed U c A" and "committed U c B"
  shows "prefix A B \<or> prefix B A"
proof (cases "A = [] \<or> B = []")
  case False
  with assms(2,3) obtain P Q where P: "chosen U c P" "prefix A P" and Q: "chosen U c Q" "prefix B Q" by (auto simp: committed_def)
  have "prefix P Q \<or> prefix Q P"
    using chosen_comparable [OF inv P(1) chosen_in_logs [OF inv Q(1)]] chosen_comparable [OF inv Q(1) chosen_in_logs [OF inv P(1)]]
    by (cases "last_term P \<le> last_term Q") auto
  with P(2) Q(2) show ?thesis by (metis prefix_order.trans prefix_same_cases)
qed auto

end
