(* ===== verification/Raft_Traces.thy ===== *)
theory Raft_Traces
  imports State_Machine_Safety
begin

text \<open>
  Concrete runs of a cluster, checked by evaluation: a script names for every step the peer and
  the event it handles, and the checker plays it on lists, refusing an event that the network
  could not deliver. A script that plays to its end is a run of the step relation.
\<close>

section \<open>Playing a script\<close>

record trace =
  t_nodes :: "(PeerId \<times> RaftConsensus) list"
  t_sent :: "(PeerId \<times> u64 \<times> ConsensusEffect) list"

definition t_peer :: "trace \<Rightarrow> PeerId \<Rightarrow> RaftConsensus" where
  "t_peer tr n = (case map_of (t_nodes tr) n of Some r \<Rightarrow> r | None \<Rightarrow> new_with_log 0 0 n [] 0 (InMemory InMemory_new))"

fun sent_by :: "trace \<Rightarrow> PeerId \<Rightarrow> (ConsensusEffect \<Rightarrow> bool) \<Rightarrow> bool" where
  "sent_by tr src f = list_ex (\<lambda>(s, _, eff). s = src \<and> f eff) (t_sent tr)"

fun can_deliver :: "PeerId list \<Rightarrow> trace \<Rightarrow> PeerId \<Rightarrow> raft_event \<Rightarrow> bool" where
  "can_deliver us tr n (Tick now known) = (list_all (\<lambda>p. p \<in> set us) (n # known) \<and> list_all (\<lambda>u. u \<in> set (n # known)) us)"
| "can_deliver us tr n (RequestVote t cand li lt src) =
    sent_by tr src (\<lambda>eff. eff = Broadcast (RaftRequestVote t cand li lt))"
| "can_deliver us tr n (VoteReply t voter granted) =
    sent_by tr voter (\<lambda>eff. eff = Send n (RaftRequestVoteResponse t granted))"
| "can_deliver us tr n (AppendEntries draw t leader pi pt rbs lc src now) =
    (leader = src \<and> sent_by tr src (\<lambda>eff. eff = SendRaftAppendEntries n t pi pt (map rb_entry rbs) lc))"
| "can_deliver us tr n (AppendReply t src success mi) =
    sent_by tr src (\<lambda>eff. eff = Send n (RaftAppendEntriesResponse t success mi))"
| "can_deliver us tr n _ = True"

definition room :: "RaftConsensus \<Rightarrow> bool" where
  "room r \<longleftrightarrow> current_term r < 1000 \<and> length (log r) < 1000"

definition play_event ::
    "('a) raft_ext_scheme \<Rightarrow> PeerId list \<Rightarrow> PeerId \<times> raft_event \<Rightarrow> trace \<Rightarrow> trace option" where
  "play_event X us e tr = (case e of (n, ev) \<Rightarrow>
    if n \<in> set us \<and> can_deliver us tr n ev \<and> room (t_peer tr n)
    then (case raft_step X ev (t_peer tr n) of (r', res) \<Rightarrow>
      Some \<lparr>t_nodes = AList.update n r' (t_nodes tr),
            t_sent = map (\<lambda>eff. (n, request_term ev, eff)) (case res of Err _ \<Rightarrow> [] | Ok effs \<Rightarrow> effs) @ t_sent tr\<rparr>)
    else None)"

text \<open>The whole script, with a further condition \<open>f\<close> on every delivery.\<close>

fun play ::
    "(trace \<Rightarrow> PeerId \<Rightarrow> raft_event \<Rightarrow> bool) \<Rightarrow> ('a) raft_ext_scheme \<Rightarrow> PeerId list \<Rightarrow> (PeerId \<times> raft_event) list \<Rightarrow>
     trace \<Rightarrow> trace option" where
  "play f X us [] tr = Some tr"
| "play f X us ((n, ev) # es) tr =
    (if f tr n ev then (case play_event X us (n, ev) tr of None \<Rightarrow> None | Some tr' \<Rightarrow> play f X us es tr') else None)"

definition start_trace :: trace where
  "start_trace = \<lparr>t_nodes = [], t_sent = []\<rparr>"

text \<open>The two restrictions of state machine safety on a trace.\<close>

fun covered_trace :: "trace \<Rightarrow> PeerId \<Rightarrow> raft_event \<Rightarrow> bool" where
  "covered_trace tr n (AppendEntries draw t leader pi pt rbs lc src now) \<longleftrightarrow>
    unat lc \<le> unat pi + length rbs \<or> length (log (t_peer tr n)) \<le> unat pi + length rbs"
| "covered_trace tr n _ \<longleftrightarrow> True"

fun prompt_trace :: "trace \<Rightarrow> PeerId \<Rightarrow> raft_event \<Rightarrow> bool" where
  "prompt_trace tr n (AppendReply t src success mi) \<longleftrightarrow>
    (src, t, Send n (RaftAppendEntriesResponse t success mi)) \<in> set (t_sent tr)"
| "prompt_trace tr n _ \<longleftrightarrow> True"

section \<open>Scripts are runs\<close>

definition start_system :: system where
  "start_system = \<lparr>core = test_cluster, appends = {}, replies = {}, logs = {[]}, campaigns = {}, held = {}\<rparr>"

lemma start_system_fresh: "finite U \<Longrightarrow> fresh_system U start_system"
  using test_cluster_initial [of U] by (simp add: fresh_system_def start_system_def test_cluster_def new_with_log_def)

fun on_wire :: "PeerId set \<Rightarrow> system \<Rightarrow> PeerId \<times> u64 \<times> ConsensusEffect \<Rightarrow> bool" where
  "on_wire U c (s, rt, eff) \<longleftrightarrow> wires_of U s eff \<subseteq> sent (core c) \<and> append_wires s {eff} \<subseteq> appends c \<and>
    reply_wires s rt {eff} \<subseteq> replies c"

definition mirrors :: "PeerId set \<Rightarrow> system \<Rightarrow> trace \<Rightarrow> bool" where
  "mirrors U c tr \<longleftrightarrow> (\<forall>n. peer c n = t_peer tr n) \<and> list_all (on_wire U c) (t_sent tr)"

lemma start_mirrors: "mirrors U start_system start_trace"
  by (simp add: mirrors_def start_system_def start_trace_def test_cluster_def t_peer_def)

lemma sent_by_wire:
  assumes "mirrors U c tr" and "sent_by tr src f"
  shows "\<exists>rt eff. f eff \<and> on_wire U c (src, rt, eff)"
  using assms by (fastforce simp: mirrors_def list_all_iff list_ex_iff)

lemma can_deliver_sound:
  assumes m: "mirrors (set us) c tr" and d: "can_deliver us tr n ev" and n: "n \<in> set us"
  shows "deliverable (set us) (sent (core c)) n ev" "delivered c n ev"
proof -
  show "deliverable (set us) (sent (core c)) n ev"
  proof (cases ev)
    case (Tick now known)
    with d show ?thesis by (auto simp: list_all_iff)
  next
    case (RequestVote t cand li lt src)
    with d sent_by_wire [OF m, of src] n show ?thesis by fastforce
  next
    case (VoteReply t voter granted)
    with d sent_by_wire [OF m, of voter] show ?thesis by fastforce
  qed auto
  show "delivered c n ev"
  proof (cases ev)
    case (AppendEntries draw t leader pi pt rbs lc src now)
    with d have "leader = src" "sent_by tr src (\<lambda>eff. eff = SendRaftAppendEntries n t pi pt (map rb_entry rbs) lc)"
      by simp_all
    with sent_by_wire [OF m this(2)] AppendEntries show ?thesis by (auto simp: append_wires_def)
  next
    case (AppendReply t src success mi)
    with d have "sent_by tr src (\<lambda>eff. eff = Send n (RaftAppendEntriesResponse t success mi))" by simp
    with sent_by_wire [OF m this] AppendReply show ?thesis by (auto simp: reply_wires_def)
  qed auto
qed

lemma room_sound: "room r \<Longrightarrow> term_room r \<and> length (log r) + 1 < 2 ^ 64"
  by (auto simp: room_def term_room_def word_less_nat_alt)

lemma on_wire_mono:
  "sent (core c) \<subseteq> sent (core c') \<Longrightarrow> appends c \<subseteq> appends c' \<Longrightarrow> replies c \<subseteq> replies c' \<Longrightarrow> on_wire U c w \<Longrightarrow> on_wire U c' w"
  by (cases w) auto

lemma play_event_sound:
  assumes run: "running X (set us) ok c" and m: "mirrors (set us) c tr"
    and play: "play_event X us (n, ev) tr = Some tr'" and ok: "ok c n ev"
  shows "\<exists>c'. running X (set us) ok c' \<and> mirrors (set us) c' tr' \<and> held c \<subseteq> held c'"
proof -
  from play have n: "n \<in> set us" "can_deliver us tr n ev" "room (t_peer tr n)"
    by (auto simp: play_event_def split: if_splits)
  obtain r' res where st: "raft_step X ev (t_peer tr n) = (r', res)" by fastforce
  have p: "peer c n = t_peer tr n" using m by (simp add: mirrors_def)
  note d = can_deliver_sound [OF m n(2,1)]
  define c' where "c' = after_event X (set us) n ev c"
  have "system_step X (set us) ok c c'"
    unfolding c'_def using n(1) d ok room_sound [OF n(3)] p by (intro system_step.event) auto
  then have run': "running X (set us) ok c'" by (rule running.step [OF run])
  have ev: "event_of X (set us) n ev c c' r' res"
    using n(1) d room_sound [OF n(3)] p st by (simp add: event_of_def c'_def)
  note sel = event_sel [OF ev]
  let ?effs = "case res of Err _ \<Rightarrow> [] | Ok effs \<Rightarrow> effs"
  have tr': "tr' = \<lparr>t_nodes = AList.update n r' (t_nodes tr), t_sent = map (\<lambda>eff. (n, request_term ev, eff)) ?effs @ t_sent tr\<rparr>"
    using play n st by (simp add: play_event_def)
  have "peer c' a = t_peer tr' a" for a
    using m by (simp add: sel(1) mirrors_def tr' t_peer_def update_conv')
  moreover have "on_wire (set us) c' (n, request_term ev, eff)" if "eff \<in> set ?effs" for eff
    using that by (cases res) (auto simp: sel wires_def effects_of_def append_wires_def reply_wires_def)
  moreover have "list_all (on_wire (set us) c') (t_sent tr)"
    using m on_wire_mono [of c c'] by (auto simp: mirrors_def list_all_iff sel)
  ultimately have "mirrors (set us) c' tr'" by (auto simp: mirrors_def tr' list_all_iff)
  with run' show ?thesis by (auto simp: sel(9))
qed

text \<open>The check \<open>f\<close> of a trace implies the restriction \<open>ok\<close> of a run.\<close>

definition checks :: "PeerId list \<Rightarrow> (trace \<Rightarrow> PeerId \<Rightarrow> raft_event \<Rightarrow> bool) \<Rightarrow> (system \<Rightarrow> PeerId \<Rightarrow> raft_event \<Rightarrow> bool) \<Rightarrow> bool" where
  "checks us f ok \<longleftrightarrow> (\<forall>c tr n ev. mirrors (set us) c tr \<longrightarrow> f tr n ev \<longrightarrow> ok c n ev)"

lemma play_sound:
  assumes sound: "checks us f ok"
    and "running X (set us) ok c" and "mirrors (set us) c tr" and "play f X us es tr = Some tr'"
  shows "\<exists>c'. running X (set us) ok c' \<and> mirrors (set us) c' tr' \<and> held c \<subseteq> held c'"
  using assms(2-)
proof (induction es arbitrary: c tr)
  case (Cons e es)
  obtain n ev where e: "e = (n, ev)" by fastforce
  with Cons.prems(3) obtain tr1 where tr1: "play_event X us (n, ev) tr = Some tr1" "play f X us es tr1 = Some tr'" "f tr n ev"
    by (auto split: option.splits if_splits)
  have "ok c n ev" using sound Cons.prems(2) tr1(3) unfolding checks_def by blast
  from play_event_sound [OF Cons.prems(1,2) tr1(1) this] obtain c1 where
    "running X (set us) ok c1" "mirrors (set us) c1 tr1" "held c \<subseteq> held c1" by blast
  with Cons.IH [OF this(1,2) tr1(2)] show ?case by blast
qed auto

lemma covered_checks: "checks us covered_trace covered"
  unfolding checks_def
proof (intro allI impI)
  fix c tr n ev assume "mirrors (set us) c tr" "covered_trace tr n ev"
  then show "covered c n ev" by (cases ev) (auto simp: mirrors_def)
qed

lemma prompt_checks: "checks us prompt_trace prompt"
  unfolding checks_def
proof (intro allI impI)
  fix c tr n ev assume m: "mirrors (set us) c tr" and p: "prompt_trace tr n ev"
  show "prompt c n ev"
  proof (cases ev)
    case (AppendReply t src success mi)
    with p have "(src, t, Send n (RaftAppendEntriesResponse t success mi)) \<in> set (t_sent tr)" by simp
    with m have "on_wire (set us) c (src, t, Send n (RaftAppendEntriesResponse t success mi))"
      unfolding mirrors_def list_all_iff by blast
    with AppendReply show ?thesis by (auto simp: reply_wires_def)
  qed auto
qed

lemma careful_checks: "checks us (\<lambda>tr n ev. covered_trace tr n ev \<and> prompt_trace tr n ev) careful"
  using covered_checks prompt_checks by (simp add: checks_def careful_def)

lemma script_runs:
  assumes "checks us f ok" and "play f X us es start_trace = Some tr"
  shows "\<exists>c. running X (set us) ok c \<and> mirrors (set us) c tr \<and> (\<forall>n. peer c n = t_peer tr n)"
proof -
  have "running X (set us) ok start_system" by (simp add: running.start start_system_fresh)
  from play_sound [OF assms(1) this start_mirrors assms(2)] show ?thesis by (auto simp: mirrors_def)
qed

section \<open>Two peers elect a leader and commit its first entry\<close>

definition noop_payload :: "u64 \<Rightarrow> u64 \<Rightarrow> RaftReplicatedBlock" where
  "noop_payload t i = \<lparr>rb_entry = noop t i, rb_block_file = [], rb_signature = [], rb_public_key = []\<rparr>"

definition pair_script :: "(PeerId \<times> raft_event) list" where
  "pair_script = [(PeerId 1, Tick 20000 [PeerId 2]), (PeerId 2, Tick 0 [PeerId 1]),
    (PeerId 2, RequestVote 1 (PeerId 1) 0 0 (PeerId 1)), (PeerId 1, VoteReply 1 (PeerId 2) True),
    (PeerId 2, AppendEntries 0 1 (PeerId 1) 0 0 [noop_payload 1 1] 0 (PeerId 1) 20000),
    (PeerId 1, AppendReply 1 (PeerId 2) True 1), (PeerId 1, Tick 30000 [PeerId 2]),
    (PeerId 2, AppendEntries 0 1 (PeerId 1) 1 1 [] 1 (PeerId 1) 30000)]"

lemmas raft_eval = raft_on_tick_def update_participants_def hash_set_from_def start_election_at_def
  become_leader_if_majority_def majority_def append_leader_noop_def append_own_entry_def last_log_index_def last_log_term_def
  advance_commit_index_def replicated_count_def persist_log_def InMemory_save_def new_with_log_def
  random_election_timeout_def random_range_incl_def DEFAULT_ELECTION_TIMEOUT_def DEFAULT_HEARTBEAT_INTERVAL_def
  DEFAULT_ELECTION_TIMEOUT_JITTER_def InMemory_new_def Let_def raft_on_request_vote_def request_vote_def
  candidate_log_is_up_to_date_def step_down_def raft_on_request_vote_response_def receive_vote_def
  raft_on_append_entries_def handle_append_entries_def receive_append_entries_at_def leader_timed_out_def
  append_entries_response_def append_entries_def entries_are_contiguous_after_def commit_effects_def matching_index_for_def
  term_at_def log_entry_def heartbeat_due_def append_entries_effects_for_followers_def append_entries_effect_for_def
  raft_on_append_entries_response_def handle_leader_append_entries_response_def MAX_APPEND_ENTRIES_def
  List.map_filter_def noop_def is_noop_def raft_on_block_created_def append_local_block_def ensure_no_uncommitted_block_def
  t_peer_def start_trace_def play_event_def room_def noop_payload_def

lemma test_raft_ext_sel [simp]:
  "verify_message test_raft_ext pk s m = (if s = pk @ m then Ok () else Err SignatureVerificationFailed)"
  by (simp add: verify_message_def test_raft_ext_def block_ext.extend_def test_block_ext_def)

lemma held_now:
  assumes "running X U ok c" and "n \<in> U" and "prefix P (log (peer c n))" and "P \<noteq> []" and "last_term P = current_term (peer c n)"
  shows "(n, P) \<in> held c"
  using assms
proof (induction arbitrary: n P rule: running.induct)
  case (step c c')
  from step.hyps(2) obtain m ev r' res where "event_of X U m ev c c' r' res" by (rule system_step_event)
  note sel = event_sel [OF this]
  from step.prems step.IH [of n P] show ?case by (cases "n = m") (auto simp: sel)
qed (auto simp: fresh_system_def)

text \<open>The second peer takes over in term 2.\<close>

definition succession_script :: "(PeerId \<times> raft_event) list" where
  "succession_script = [(PeerId 2, Tick 50000 [PeerId 1]), (PeerId 1, RequestVote 2 (PeerId 2) 1 1 (PeerId 2)),
    (PeerId 2, VoteReply 2 (PeerId 1) True)]"

lemma pair_plays:
  "\<exists>tr tr'. play (\<lambda>tr n ev. covered_trace tr n ev \<and> prompt_trace tr n ev) test_raft_ext [PeerId 1, PeerId 2]
      pair_script start_trace = Some tr \<and>
    log (t_peer tr (PeerId 1)) = [noop 1 1] \<and> log (t_peer tr (PeerId 2)) = [noop 1 1] \<and>
    commit_index (t_peer tr (PeerId 1)) = 1 \<and> commit_index (t_peer tr (PeerId 2)) = 1 \<and>
    current_term (t_peer tr (PeerId 1)) = 1 \<and> current_term (t_peer tr (PeerId 2)) = 1 \<and>
    play (\<lambda>tr n ev. covered_trace tr n ev \<and> prompt_trace tr n ev) test_raft_ext [PeerId 1, PeerId 2]
      succession_script tr = Some tr' \<and> role (t_peer tr' (PeerId 2)) = Leader \<and> current_term (t_peer tr' (PeerId 2)) = 2"
  unfolding pair_script_def succession_script_def by (simp add: raft_eval)

lemma pair_runs:
  "\<exists>c. running test_raft_ext {PeerId 1, PeerId 2} careful c \<and> log (peer c (PeerId 1)) = [noop 1 1] \<and>
    log (peer c (PeerId 2)) = [noop 1 1] \<and> commit_index (peer c (PeerId 1)) = 1 \<and> commit_index (peer c (PeerId 2)) = 1"
  using pair_plays script_runs [OF careful_checks, of test_raft_ext "[PeerId 1, PeerId 2]" pair_script] by fastforce

lemma succession_runs:
  "\<exists>c. running test_raft_ext {PeerId 1, PeerId 2} careful c \<and> (\<forall>v \<in> {PeerId 1, PeerId 2}. (v, [noop 1 1]) \<in> held c) \<and>
    role (peer c (PeerId 2)) = Leader \<and> current_term (peer c (PeerId 2)) = 2"
proof -
  let ?us = "[PeerId 1, PeerId 2]"
  let ?f = "\<lambda>tr n ev. covered_trace tr n ev \<and> prompt_trace tr n ev"
  obtain tr tr' where tr: "play ?f test_raft_ext ?us pair_script start_trace = Some tr"
      "log (t_peer tr (PeerId 1)) = [noop 1 1]" "log (t_peer tr (PeerId 2)) = [noop 1 1]"
      "current_term (t_peer tr (PeerId 1)) = 1" "current_term (t_peer tr (PeerId 2)) = 1"
    and tr': "play ?f test_raft_ext ?us succession_script tr = Some tr'"
      "role (t_peer tr' (PeerId 2)) = Leader" "current_term (t_peer tr' (PeerId 2)) = 2"
    using pair_plays by blast
  obtain c where c: "running test_raft_ext (set ?us) careful c" "mirrors (set ?us) c tr" "\<forall>n. peer c n = t_peer tr n"
    using script_runs [OF careful_checks tr(1)] by blast
  have "(v, [noop 1 1]) \<in> held c" if "v \<in> set ?us" for v
    using that c(3) tr(2-5) by (intro held_now [OF c(1)]) (auto simp: last_term_def noop_def)
  moreover obtain c' where "running test_raft_ext (set ?us) careful c'" "mirrors (set ?us) c' tr'" "held c \<subseteq> held c'"
    using play_sound [OF careful_checks c(1,2) tr'(1)] by blast
  ultimately show ?thesis using tr'(2,3) unfolding mirrors_def by (intro exI [of _ c']) auto
qed

end
