(* ===== verification/Cluster_Safety.thy ===== *)
theory Cluster_Safety
  imports Raft_Traces
begin

text \<open>
  The safety properties of a Raft cluster: log matching, leader completeness and state machine
  safety, each with a run of a small cluster, and two runs which show that state machine safety
  needs both of its restrictions.
\<close>

section \<open>Externals and payloads of the runs\<close>

definition script_block :: "u8 \<Rightarrow> BlockFile" where
  "script_block k = \<lparr>bf_index = 1, bf_hash = BlockHash [k], bf_previous_hash = EMPTY_HASH, bf_transactions = [test_tx (AddCoin 10 BTC) 1 [k]]\<rparr>"

definition script_ext :: raft_ext where
  "script_ext = test_raft_ext\<lparr>sha256 := (\<lambda>bs. [last bs]),
    transactions_to_string := map (\<lambda>t. hd (signature t)),
    block_from_slice := (\<lambda>v. Some (script_block (last v)))\<rparr>"

lemma script_ext_sel [simp]:
  "verify_message script_ext pk s m = (if s = pk @ m then Ok () else Err SignatureVerificationFailed)"
  "verify_block_vec script_ext (BlockHash [k]) [k] [k] [] = Ok (script_block k)"
  by (simp_all add: verify_message_def verify_block_vec_def BlockFile_try_from_def verify_block_def calculate_hash_def test_tx_def
      script_ext_def script_block_def test_raft_ext_def block_ext.extend_def test_block_ext_def)

lemma short_hash [simp]: "BlockHash [k] \<noteq> EMPTY_HASH" "EMPTY_HASH \<noteq> BlockHash [k]"
  by (auto simp: EMPTY_HASH_def dest: arg_cong [of _ _ length])

definition block_payload :: "u64 \<Rightarrow> u64 \<Rightarrow> u8 \<Rightarrow> RaftReplicatedBlock" where
  "block_payload t i k = \<lparr>rb_entry = \<lparr>le_term = t, le_index = i, le_block_hash = BlockHash [k]\<rparr>,
    rb_block_file = [k], rb_signature = [k], rb_public_key = []\<rparr>"

abbreviation batch :: "RaftReplicatedBlock list" where
  "batch \<equiv> [noop_payload 1 1, block_payload 1 2 2, block_payload 1 3 3, block_payload 1 4 4, block_payload 1 5 5]"

definition reign_script :: "(PeerId \<times> raft_event) list" where
  "reign_script = [(PeerId 1, Tick 20000 [PeerId 2, PeerId 3]), (PeerId 2, Tick 0 [PeerId 1, PeerId 3]),
    (PeerId 3, Tick 0 [PeerId 1, PeerId 2]),
    (PeerId 2, RequestVote 1 (PeerId 1) 0 0 (PeerId 1)), (PeerId 1, VoteReply 1 (PeerId 2) True),
    (PeerId 1, BlockCreated (BlockHash [2])),
    (PeerId 2, AppendEntries 0 1 (PeerId 1) 0 0 [noop_payload 1 1, block_payload 1 2 2] 0 (PeerId 1) 20000),
    (PeerId 1, AppendReply 1 (PeerId 2) True 2),
    (PeerId 1, BlockCreated (BlockHash [3])),
    (PeerId 2, AppendEntries 0 1 (PeerId 1) 2 1 [block_payload 1 3 3] 2 (PeerId 1) 20000),
    (PeerId 1, AppendReply 1 (PeerId 2) True 3),
    (PeerId 1, BlockCreated (BlockHash [4])),
    (PeerId 2, AppendEntries 0 1 (PeerId 1) 3 1 [block_payload 1 4 4] 3 (PeerId 1) 20000),
    (PeerId 1, AppendReply 1 (PeerId 2) True 4),
    (PeerId 1, BlockCreated (BlockHash [5])),
    (PeerId 2, AppendEntries 0 1 (PeerId 1) 4 1 [block_payload 1 5 5] 4 (PeerId 1) 20000),
    (PeerId 1, AppendReply 1 (PeerId 2) True 5),
    (PeerId 1, BlockCreated (BlockHash [6]))]"

definition coup_script :: "(PeerId \<times> raft_event) list" where
  "coup_script = [(PeerId 2, Tick 40000 [PeerId 1, PeerId 3]), (PeerId 3, RequestVote 2 (PeerId 2) 5 1 (PeerId 2)),
    (PeerId 2, VoteReply 2 (PeerId 3) True),
    (PeerId 3, AppendEntries 0 2 (PeerId 2) 0 0 batch 4 (PeerId 2) 40000), (PeerId 2, AppendReply 2 (PeerId 3) True 5),
    (PeerId 2, Tick 50000 [PeerId 1, PeerId 3]),
    (PeerId 3, AppendEntries 0 2 (PeerId 2) 5 1 [noop_payload 2 6] 4 (PeerId 2) 50000),
    (PeerId 2, AppendReply 2 (PeerId 3) True 6), (PeerId 2, Tick 60000 [PeerId 1, PeerId 3]),
    (PeerId 1, AppendEntries 0 2 (PeerId 2) 0 0 batch 6 (PeerId 2) 60000)]"

lemma coup_plays:
  "\<exists>tr. play prompt_trace script_ext [PeerId 1, PeerId 2, PeerId 3] (reign_script @ coup_script) start_trace = Some tr \<and>
    commit_index (t_peer tr (PeerId 1)) = 6 \<and> commit_index (t_peer tr (PeerId 2)) = 6 \<and>
    log (t_peer tr (PeerId 1)) ! 5 = rb_entry (block_payload 1 6 6) \<and> log (t_peer tr (PeerId 2)) ! 5 = noop 2 6"
  unfolding reign_script_def coup_script_def by (simp add: raft_eval block_payload_def)

section \<open>A late rejection\<close>

abbreviation others :: "u32 \<Rightarrow> PeerId list" where
  "others n \<equiv> map PeerId (remove1 n [1, 2, 3, 4, 5])"

definition first_script :: "(PeerId \<times> raft_event) list" where
  "first_script = [(PeerId 1, Tick 20000 (others 1)), (PeerId 2, Tick 0 (others 2)), (PeerId 3, Tick 0 (others 3)),
    (PeerId 4, Tick 0 (others 4)), (PeerId 5, Tick 0 (others 5)),
    (PeerId 2, RequestVote 1 (PeerId 1) 0 0 (PeerId 1)), (PeerId 3, RequestVote 1 (PeerId 1) 0 0 (PeerId 1)),
    (PeerId 1, VoteReply 1 (PeerId 2) True), (PeerId 1, VoteReply 1 (PeerId 3) True),
    (PeerId 1, BlockCreated (BlockHash [2])),
    (PeerId 2, AppendEntries 0 1 (PeerId 1) 0 0 [noop_payload 1 1, block_payload 1 2 2] 0 (PeerId 1) 20000),
    (PeerId 1, AppendReply 1 (PeerId 2) True 2), (PeerId 1, Tick 30000 (others 1))]"

definition second_script :: "(PeerId \<times> raft_event) list" where
  "second_script = [(PeerId 4, Tick 40000 (others 4)), (PeerId 4, Tick 60000 (others 4)),
    (PeerId 3, RequestVote 2 (PeerId 4) 0 0 (PeerId 4)), (PeerId 5, RequestVote 2 (PeerId 4) 0 0 (PeerId 4)),
    (PeerId 4, VoteReply 2 (PeerId 3) True), (PeerId 4, VoteReply 2 (PeerId 5) True),
    (PeerId 1, AppendEntries 0 2 (PeerId 4) 0 0 [noop_payload 2 1] 0 (PeerId 4) 60000)]"

definition third_script :: "(PeerId \<times> raft_event) list" where
  "third_script = [(PeerId 1, Tick 80000 (others 1)),
    (PeerId 2, RequestVote 3 (PeerId 1) 1 2 (PeerId 1)), (PeerId 3, RequestVote 3 (PeerId 1) 1 2 (PeerId 1)),
    (PeerId 1, VoteReply 3 (PeerId 2) True), (PeerId 1, VoteReply 3 (PeerId 3) True),
    (PeerId 2, AppendEntries 0 1 (PeerId 1) 2 1 [] 0 (PeerId 1) 80000), (PeerId 1, AppendReply 3 (PeerId 2) False 2),
    (PeerId 3, AppendEntries 0 3 (PeerId 1) 0 0 [noop_payload 2 1, noop_payload 3 2] 0 (PeerId 1) 80000),
    (PeerId 1, AppendReply 3 (PeerId 3) True 2)]"

definition fourth_script :: "(PeerId \<times> raft_event) list" where
  "fourth_script = [(PeerId 4, RequestVote 3 (PeerId 1) 1 2 (PeerId 1)), (PeerId 4, Tick 100000 (others 4)),
    (PeerId 2, RequestVote 4 (PeerId 4) 1 2 (PeerId 4)), (PeerId 5, RequestVote 4 (PeerId 4) 1 2 (PeerId 4)),
    (PeerId 4, VoteReply 4 (PeerId 2) True), (PeerId 4, VoteReply 4 (PeerId 5) True),
    (PeerId 2, AppendEntries 0 4 (PeerId 4) 0 0 [noop_payload 2 1, noop_payload 4 2] 0 (PeerId 4) 100000),
    (PeerId 5, AppendEntries 0 4 (PeerId 4) 0 0 [noop_payload 2 1, noop_payload 4 2] 0 (PeerId 4) 100000),
    (PeerId 4, AppendReply 4 (PeerId 2) True 2), (PeerId 4, AppendReply 4 (PeerId 5) True 2)]"

lemma late_plays:
  "\<exists>tr. play covered_trace script_ext (map PeerId [1, 2, 3, 4, 5])
      (first_script @ second_script @ third_script @ fourth_script) start_trace = Some tr \<and>
    commit_index (t_peer tr (PeerId 1)) = 2 \<and> commit_index (t_peer tr (PeerId 4)) = 2 \<and>
    log (t_peer tr (PeerId 1)) ! 1 = noop 3 2 \<and> log (t_peer tr (PeerId 4)) ! 1 = noop 4 2"
  unfolding first_script_def second_script_def third_script_def fourth_script_def
  by (simp add: raft_eval block_payload_def)

section \<open>Properties\<close>

text \<open>
  C2. Log matching: in any state a cluster reaches from empty logs (fixed members, no restarts, no
  wrap of terms or indexes), whatever was lost, delayed, duplicated or reordered, if the logs of
  two peers have entries with the same term at the same index, then the logs are equal up to
  and including it, block hashes included.
\<close>
theorem log_matching:
  assumes "running X U ok c" and "a \<in> U" and "b \<in> U"
    and "i < length (log (peer c a))" and "i < length (log (peer c b))"
    and "le_term (log (peer c a) ! i) = le_term (log (peer c b) ! i)"
  shows "take (Suc i) (log (peer c a)) = take (Suc i) (log (peer c b))"
proof -
  have inv: "log_inv U c" by (rule running_log_inv [OF assms(1)])
  then have "agree (log (peer c a)) (log (peer c b))"
    using assms(2,3) by (intro logs_agree) (auto simp: log_inv_def peer_log_inv_def)
  moreover have "last_term (take (Suc i) (log (peer c a))) = last_term (take (Suc i) (log (peer c b)))"
    using assms(4-6) by (simp add: last_term_take)
  ultimately show ?thesis using assms(4,5) by (simp add: agree_def)
qed

theorem log_matching_witness:
  "\<exists>c. running test_raft_ext {PeerId 1, PeerId 2} careful c \<and> log (peer c (PeerId 1)) ! 0 = noop 1 1 \<and>
    take 1 (log (peer c (PeerId 1))) = take 1 (log (peer c (PeerId 2)))"
proof -
  obtain c where c: "running test_raft_ext {PeerId 1, PeerId 2} careful c"
    "log (peer c (PeerId 1)) = [noop 1 1]" "log (peer c (PeerId 2)) = [noop 1 1]" using pair_runs by blast
  from log_matching [OF c(1), of "PeerId 1" "PeerId 2" 0] c show ?thesis by (intro exI [of _ c]) simp
qed

text \<open>
  C3. Leader completeness: a log prefix that a majority of the peers held in the term of its last
  entry, at whatever times, is a prefix of the log of every leader of a later term, in any
  state a cluster reaches from empty logs.
\<close>
theorem leader_completeness:
  assumes "running X U ok c" and "sized_quorum (\<lambda>n. n div 2 + 1) U Q" and "\<forall>v \<in> Q. (v, P) \<in> held c"
    and "n \<in> U" and "role (peer c n) = Leader" and "last_term P < current_term (peer c n)"
  shows "prefix P (log (peer c n))"
  by (rule chosen_in_leader_log [OF running_history_inv [OF assms(1)] _ assms(4-6)])
    (use assms(2,3) in \<open>auto simp: chosen_def\<close>)

theorem leader_completeness_witness:
  "\<exists>c. running test_raft_ext {PeerId 1, PeerId 2} careful c \<and> current_term (peer c (PeerId 2)) = 2 \<and>
    prefix [noop 1 1] (log (peer c (PeerId 2)))"
proof -
  obtain c where c: "running test_raft_ext {PeerId 1, PeerId 2} careful c"
      "\<forall>v \<in> {PeerId 1, PeerId 2}. (v, [noop 1 1]) \<in> held c"
      "role (peer c (PeerId 2)) = Leader" "current_term (peer c (PeerId 2)) = 2"
    using succession_runs by blast
  moreover have "sized_quorum (\<lambda>n. n div 2 + 1) {PeerId 1, PeerId 2} {PeerId 1, PeerId 2}" by (simp add: sized_quorum_def)
  moreover have "last_term [noop 1 1] < current_term (peer c (PeerId 2))" using c(4) by (simp add: last_term_def noop_def)
  ultimately have "prefix [noop 1 1] (log (peer c (PeerId 2)))" by (intro leader_completeness) auto
  with c show ?thesis by blast
qed

text \<open>
  C1. State machine safety: in any state a cluster reaches from empty logs (fixed members, no
  restarts, no wrap), if no commit index reached a follower beyond the entries it came with
  and no leader counted the rejection of a request of an earlier term, then of the committed
  parts of any two peers' logs one is a prefix of the other.
\<close>
theorem state_machine_safety:
  assumes "running X U careful c" and "a \<in> U" and "b \<in> U"
  shows "prefix (take (unat (commit_index (peer c a))) (log (peer c a)))
      (take (unat (commit_index (peer c b))) (log (peer c b))) \<or>
    prefix (take (unat (commit_index (peer c b))) (log (peer c b)))
      (take (unat (commit_index (peer c a))) (log (peer c a)))"
  using running_safety_inv [OF assms(1)] assms(2,3) committed_comparable [of U c]
  by (simp add: safety_inv_def commit_inv_def)

theorem state_machine_safety_witness:
  "\<exists>c. running test_raft_ext {PeerId 1, PeerId 2} careful c \<and>
    commit_index (peer c (PeerId 1)) = 1 \<and> commit_index (peer c (PeerId 2)) = 1 \<and>
    (prefix (take 1 (log (peer c (PeerId 1)))) (take 1 (log (peer c (PeerId 2)))) \<or>
     prefix (take 1 (log (peer c (PeerId 2)))) (take 1 (log (peer c (PeerId 1)))))"
proof -
  obtain c where c: "running test_raft_ext {PeerId 1, PeerId 2} careful c"
    "commit_index (peer c (PeerId 1)) = 1" "commit_index (peer c (PeerId 2)) = 1" using pair_runs by blast
  from state_machine_safety [OF c(1), of "PeerId 1" "PeerId 2"] c show ?thesis by (intro exI [of _ c]) simp
qed

text \<open>
  C5. Without the restriction on commit indexes, peers commit different entries: peer 1 leads
  term 1, replicates five entries to peer 2 and appends a sixth block that reaches nobody; peer
  2 is elected by peer 3 in term 2, commits its own entry at index 6 and then sends peer 1 the
  first five entries with its commit index 6. Peer 1 commits its own block at index 6.
\<close>
theorem commits_can_diverge:
  "\<exists>c. running script_ext {PeerId 1, PeerId 2, PeerId 3} prompt c \<and>
    commit_index (peer c (PeerId 1)) = 6 \<and> commit_index (peer c (PeerId 2)) = 6 \<and>
    log (peer c (PeerId 1)) ! 5 = \<lparr>le_term = 1, le_index = 6, le_block_hash = BlockHash [6]\<rparr> \<and>
    log (peer c (PeerId 2)) ! 5 = noop 2 6"
proof -
  let ?us = "[PeerId 1, PeerId 2, PeerId 3]"
  obtain tr where tr: "play prompt_trace script_ext ?us (reign_script @ coup_script) start_trace = Some tr"
    and obs: "commit_index (t_peer tr (PeerId 1)) = 6" "commit_index (t_peer tr (PeerId 2)) = 6"
    "log (t_peer tr (PeerId 1)) ! 5 = rb_entry (block_payload 1 6 6)" "log (t_peer tr (PeerId 2)) ! 5 = noop 2 6"
    using coup_plays by blast
  from script_runs [OF prompt_checks tr] obs show ?thesis by (auto simp: block_payload_def)
qed

text \<open>
  C6. Without the restriction on replies, peers commit different entries: peer 1 leads term 1, is
  overwritten by the leader of term 2 and leads term 3; peer 2 then rejects a heartbeat of term
  1 whose last index it matches, peer 1 takes the answer for a match with its present log, and
  commits an entry that only two of five peers hold. Peer 4 is elected without those two and
  commits another entry at the same index.
\<close>
theorem late_rejection_diverges:
  "\<exists>c. running script_ext {PeerId 1, PeerId 2, PeerId 3, PeerId 4, PeerId 5} covered c \<and>
    commit_index (peer c (PeerId 1)) = 2 \<and> commit_index (peer c (PeerId 4)) = 2 \<and>
    log (peer c (PeerId 1)) ! 1 = noop 3 2 \<and> log (peer c (PeerId 4)) ! 1 = noop 4 2"
proof -
  let ?us = "map PeerId [1, 2, 3, 4, 5]"
  let ?es = "first_script @ second_script @ third_script @ fourth_script"
  obtain tr where tr: "play covered_trace script_ext ?us ?es start_trace = Some tr"
    and obs: "commit_index (t_peer tr (PeerId 1)) = 2" "commit_index (t_peer tr (PeerId 4)) = 2"
    "log (t_peer tr (PeerId 1)) ! 1 = noop 3 2" "log (t_peer tr (PeerId 4)) ! 1 = noop 4 2"
    using late_plays by blast
  from script_runs [OF covered_checks tr] obs show ?thesis by auto
qed

end
