(* ===== verification/Raft_Restart.thy ===== *)
theory Raft_Restart
  imports Raft_Safety
begin

text \<open>
  What a Raft peer has after a restart: the stored log and commit index, by
  \<^verbatim>\<open>new_with_storage\<close> of \<^verbatim>\<open>raft.rs\<close>, and what it no longer has: its term and its vote.
\<close>

section \<open>The store holds the state\<close>

definition persisted :: "('a) raft_ext_scheme \<Rightarrow> RaftConsensus \<Rightarrow> bool" where
  "persisted X r \<longleftrightarrow> store_available (raft_log_store r) \<and>
    (case Any_load X (raft_log_store r) of
       Err _ \<Rightarrow> False
     | Ok ld \<Rightarrow> rls_log ld = log r \<and>
         (case rls_commit_index ld of Some c \<Rightarrow> c = commit_index r | None \<Rightarrow> log r = [] \<and> commit_index r = 0))"

definition store_frame :: "RaftConsensus \<Rightarrow> RaftConsensus \<Rightarrow> bool" where
  "store_frame r r' \<longleftrightarrow> log_frame r r' \<and> raft_log_store r' = raft_log_store r"

lemma store_frame_persisted: "store_frame r r' \<Longrightarrow> persisted X r \<Longrightarrow> persisted X r'"
  unfolding store_frame_def log_frame_def persisted_def by (elim conjE) (simp only: simp_thms)

lemma persist_log_persisted:
  assumes "persist_log X r = (r', Ok ())" and "store_available (raft_log_store r)"
    and "raft_log_json X (log r') (commit_index r')"
  shows "persisted X r'"
proof -
  obtain s res where sv: "Any_save X (log r) (commit_index r) (raft_log_store r) = (s, res)" by fastforce
  have r': "r' = r\<lparr>raft_log_store := s\<rparr>" "res = Ok ()"
    using assms(1) sv by (cases res; auto simp: persist_log_def)+
  then have "Any_load X s = Ok \<lparr>rls_log = log r, rls_commit_index = Some (commit_index r)\<rparr>"
    using als.load_save_ok [OF assms(2) _ sv [unfolded r'(2)]] assms(3) by simp
  moreover have "store_available s" using als.available_save [OF assms(2), of X "log r" "commit_index r"] sv by simp
  ultimately show ?thesis by (simp add: persisted_def r'(1))
qed

lemma store_frames:
  "store_frame r r" "store_frame r (update_participants known r)" "store_frame r (step_down t r)"
  "store_frame r (step_down_on_newer_term t r)" "store_frame r (fst (start_election_at now r))"
  "store_frame r (fst (request_vote t cand li lt r))" "store_frame r (fst (receive_vote t voter granted r))"
  "store_frame r (fst (receive_append_entries_at draw t leader src now r))"
  by (auto simp: store_frame_def log_frame_def update_participants_def step_down_def step_down_on_newer_term_def
      start_election_at_def become_leader_if_majority_def request_vote_def receive_vote_def
      receive_append_entries_at_def Let_def split: option.split)

lemma store_frame_trans: "store_frame r1 r2 \<Longrightarrow> store_frame r2 r3 \<Longrightarrow> store_frame r1 r3"
  by (simp add: store_frame_def log_frame_def)

text \<open>A step is persisted when an \<open>Ok\<close> result leaves the store holding the new state.\<close>

definition persists :: "('a) raft_ext_scheme \<Rightarrow> RaftConsensus \<Rightarrow> RaftConsensus \<times> (raft_error + ConsensusEffect list) \<Rightarrow> bool" where
  "persists X r out \<longleftrightarrow> (persisted X r \<longrightarrow> is_ok (snd out) \<longrightarrow>
    raft_log_json X (log (fst out)) (commit_index (fst out)) \<longrightarrow> persisted X (fst out))"

lemma persists_frame: "store_frame r r' \<Longrightarrow> persists X r (r', res)"
  by (simp add: persists_def store_frame_persisted)

lemma persists_Err [simp]: "persists X r (r', Err e)"
  by (simp add: persists_def)

lemma persists_Ok: "persists X r (r', Ok a) \<Longrightarrow> persists X r (r', Ok b)"
  by (simp add: persists_def)

lemma persists_after_frame: "store_frame r r1 \<Longrightarrow> persists X r1 out \<Longrightarrow> persists X r out"
  by (simp add: persists_def store_frame_persisted)

lemma persists_by_save:
  assumes "raft_log_store r1 = raft_log_store r"
  shows "persists X r (case persist_log X r1 of (r2, Err e) \<Rightarrow> (r2, Err e) | (r2, Ok _) \<Rightarrow> (r2, Ok effs))"
proof -
  obtain r2 res where p: "persist_log X r1 = (r2, res)" by fastforce
  show ?thesis
  proof (cases res)
    case (Inr u)
    with p persist_log_persisted [of X r1 r2] assms show ?thesis by (simp add: persists_def persisted_def)
  qed (simp add: p persists_def)
qed

lemma own_entry_persists: "persists X r (append_own_entry X e r)"
proof -
  define r1 where "r1 = r\<lparr>log := log r @ [e], match_indexes := (match_indexes r)(r_peer_id r \<mapsto> le_index e)\<rparr>"
  obtain r2 cs where adv: "advance_commit_index r1 = (r2, cs)" by fastforce
  then have "raft_log_store r2 = raft_log_store r" by (auto simp: advance_commit_index_def Let_def r1_def)
  from persists_by_save [OF this] show ?thesis
    unfolding append_own_entry_def r1_def [symmetric] Let_def adv prod.case .
qed

lemma tick_persists: "persists X r (raft_on_tick X now known r)"
proof -
  let ?r = "update_participants known r"
  obtain r1 b where el: "start_election_at now ?r = (r1, b)" by fastforce
  have f1: "store_frame ?r r1" using store_frames(5) [of ?r now] el by simp
  have noop: "persists X ?r (append_leader_noop X r1)"
    unfolding append_leader_noop_def by (rule persists_after_frame [OF f1 own_entry_persists])
  obtain r2 res where nr: "append_leader_noop X r1 = (r2, res)" by fastforce
  have won: "persists X ?r (r2, Ok effs)" if "res = Ok es" for effs es
    using noop nr that by (auto intro: persists_Ok)
  have hb: "store_frame ?r (?r\<lparr>last_heartbeat_sent_at := Some now\<rparr>)" by (simp add: store_frame_def log_frame_def)
  have "persists X ?r (raft_on_tick X now known r)"
    using el nr
    by (cases res) (simp_all add: raft_on_tick_def Let_def persists_frame [OF f1] persists_frame [OF hb]
        persists_frame [OF store_frames(1)] won)
  then show ?thesis by (rule persists_after_frame [OF store_frames(2)])
qed

lemma append_reply_persists: "persists X r (raft_on_append_entries_response X t src success mi r)"
proof -
  let ?upd = "\<lambda>m. r\<lparr>match_indexes := (match_indexes r)(src \<mapsto> m)\<rparr>"
  have upd: "store_frame r (?upd m)" for m by (simp add: store_frame_def log_frame_def)
  let ?r1 = "?upd (max (case match_indexes r src of Some m \<Rightarrow> m | None \<Rightarrow> 0) mi)"
  obtain r2 cs where adv: "advance_commit_index ?r1 = (r2, cs)" by fastforce
  have r2: "raft_log_store r2 = raft_log_store r" "commit_index r2 = commit_index r \<Longrightarrow> store_frame r r2"
    using adv by (auto simp: advance_commit_index_def Let_def store_frame_def log_frame_def)
  have "persists X r (handle_leader_append_entries_response X t src success mi r)"
    unfolding handle_leader_append_entries_response_def Let_def adv prod.case
    by (simp add: persists_by_save [OF r2(1)] persists_frame [OF r2(2)] persists_frame [OF upd]
        persists_frame [OF store_frames(1)] persists_frame [OF store_frames(3)])
  then show ?thesis by (simp add: raft_on_append_entries_response_def persists_frame [OF store_frames(4)])
qed

lemma append_entries_persists:
  assumes wf: "raft_wf r" and room: "unat (rq_prev_log_index rq) + length (rq_entries rq) < 2 ^ 64"
  shows "persists X r (handle_append_entries X draw rq r)"
proof -
  let ?pi = "rq_prev_log_index rq"
  obtain r1 b where rc: "receive_append_entries_at draw (rq_term rq) (rq_leader_id rq) (rq_from rq) (rq_now rq) r = (r1, b)"
    by fastforce
  have f1: "store_frame r r1" using store_frames(8) [of r] rc by (metis fst_conv)
  have ok1: "log_ok (log r1)" "unat (commit_index r1) \<le> length (log r1)"
    using raft_wfD [OF wf] f1 by (simp_all add: store_frame_def log_frame_def)
  note idle = persists_frame [OF store_frames(1), of X r1]
  have "persists X r1 (handle_append_entries X draw rq r)"
  proof (cases "validate_replicated_entries X (rq_entries rq) Map.empty []")
    case (Inl e)
    with rc idle show ?thesis by (cases b) (simp_all add: handle_append_entries_def)
  next
    case (Inr p)
    then obtain es bl where v: "validate_replicated_entries X (rq_entries rq) Map.empty [] = Ok (es, bl)" by (cases p) auto
    have len: "unat ?pi + length es < 2 ^ 64" using validate_length [OF v] room by simp
    obtain r2 oe where ae: "append_entries ?pi (rq_prev_log_term rq) es (rq_leader_commit rq) r1 = (r2, oe)" by fastforce
    note spec = append_entries_spec [OF ok1 len, of "rq_prev_log_term rq" "rq_leader_commit rq"]
    show ?thesis
    proof (cases oe)
      case None
      then have "r2 = r1" using spec ae by (simp split: if_splits)
      with None rc v ae idle show ?thesis by (cases b) (simp_all add: handle_append_entries_def Let_def)
    next
      case (Some effs)
      let ?r3 = "move_staged_blocks effs bl r2"
      let ?am = "if es = [] then ?pi else le_index (last es)"
      have acc: "accepts ?pi (rq_prev_log_term rq) es r1" and r2: "r2 = merged ?pi es (rq_leader_commit rq) r1"
        using Some spec ae by (simp_all split: if_splits)
      have st: "raft_log_store ?r3 = raft_log_store r1"
        using move_staged_blocks_pending [of effs bl r2] by (auto simp: r2 merged_def Let_def)
      have "store_frame r1 ?r3" if "\<not> ?pi < ?am" "commit_index ?r3 = commit_index r1"
      proof -
        have "es = []"
        proof (rule ccontr)
          assume ne: "es \<noteq> []"
          then have "unat (le_index (last es)) = Suc (unat ?pi + (length es - 1))"
            using contiguous_unat [OF accepts_contiguous [OF acc] len, of "length es - 1"] by (simp add: last_conv_nth)
          with that(1) ne show False by (simp add: word_less_nat_alt)
        qed
        then have "log ?r3 = log r1"
          using move_staged_blocks_pending [of effs bl r2] by (auto simp: r2 merged_def merge_log_def Let_def)
        with that(2) st show ?thesis by (simp add: store_frame_def log_frame_def)
      qed
      then have frame: "persists X r1 (?r3, Ok effs')" if "\<not> (?pi < ?am \<or> commit_index ?r3 \<noteq> commit_index r1)" for effs'
        using that persists_frame by blast
      show ?thesis
      proof (cases "?pi < ?am \<or> commit_index ?r3 \<noteq> commit_index r1")
        case True
        then show ?thesis using Some rc v ae unfolding handle_append_entries_def
          by (cases b) (simp_all only: prod.case sum.case option.case bool.case Let_def if_True persists_by_save [OF st] idle)
      next
        case False
        with frame [OF False] show ?thesis using Some rc v ae unfolding handle_append_entries_def
          by (cases b) (simp_all only: prod.case sum.case option.case bool.case Let_def if_False idle)
      qed
    qed
  qed
  then show ?thesis by (rule persists_after_frame [OF f1])
qed

lemma raft_step_persists:
  assumes "raft_wf r" and "raft_room ev r"
  shows "persists X r (raft_step X ev r)"
proof (cases ev)
  case (Tick now known)
  with tick_persists show ?thesis by simp
next
  case (RequestVote t cand li lt src)
  obtain r1 resp where rv: "request_vote t cand li lt r = (r1, resp)" by fastforce
  then have "store_frame r r1" using store_frames(6) [of r t cand li lt] by simp
  with RequestVote rv show ?thesis by (simp add: raft_on_request_vote_def persists_frame)
next
  case (VoteReply t voter granted)
  obtain r1 b where rv: "receive_vote t voter granted r = (r1, b)" by fastforce
  have f1: "store_frame r r1" using store_frames(7) [of r t voter granted] rv by simp
  have "persists X r (append_leader_noop X r1)"
    unfolding append_leader_noop_def by (rule persists_after_frame [OF f1 own_entry_persists])
  with rv VoteReply show ?thesis
    by (cases b) (simp_all add: raft_on_request_vote_response_def persists_frame [OF f1] persists_frame [OF store_frames(4)])
next
  case (AppendEntries draw t leader pi pt es lc src now)
  with assms show ?thesis by (auto simp: raft_on_append_entries_def intro!: append_entries_persists)
next
  case (AppendReply t src success mi)
  with append_reply_persists show ?thesis by simp
next
  case (ClientTx tx)
  then show ?thesis
    by (auto simp: raft_on_client_transaction_def store_frames(1) intro!: persists_frame split: RaftRole.split sum.split)
next
  case (BlockCreated h)
  then show ?thesis
    by (auto simp: raft_on_block_created_def append_local_block_def own_entry_persists
        persists_frame [OF store_frames(1)] split: RaftRole.split sum.split)
next
  case (TakePending h)
  then show ?thesis
    by (auto simp: take_pending_block_def store_frame_def log_frame_def intro!: persists_frame)
qed

section \<open>Restarting\<close>

lemma reload_persisted:
  assumes "raft_wf r" and "persisted X r"
  shows "\<exists>rr. new_with_storage X draw now peer (raft_log_store r) ci = Ok rr \<and> log rr = log r \<and>
    commit_index rr = commit_index r \<and> current_term rr = 0 \<and> voted_for rr = None \<and> raft_wf rr"
proof -
  obtain ld where ld: "Any_load X (raft_log_store r) = Ok ld" "rls_log ld = log r"
      "case rls_commit_index ld of Some c \<Rightarrow> c = commit_index r | None \<Rightarrow> log r = [] \<and> commit_index r = 0"
    using assms(2) by (auto simp: persisted_def split: sum.splits)
  let ?rr = "new_with_log draw now peer (log r) (case rls_commit_index ld of Some c \<Rightarrow> c | None \<Rightarrow> ci) (raft_log_store r)"
  have "commit_index r \<le> last_log_index r"
    using raft_wfD(1,2) [OF assms(1)] by (simp add: word_le_nat_alt unat_last_log_index)
  then have "min (commit_index r) (last_log_index r) = commit_index r" by (simp add: min_absorb1)
  then have ci: "commit_index ?rr = commit_index r"
    using ld(3) by (auto simp: new_with_log_def last_log_index_def split: option.splits)
  then have "raft_wf ?rr" using raft_wfD(1,2) [OF assms(1)] by (simp add: raft_wf_def) (simp add: new_with_log_def)
  with ld ci show ?thesis by (auto simp: new_with_storage_def) (simp_all add: new_with_log_def)
qed

lemma test_raft_persisted: "persisted test_raft_ext (test_raft me [] 0)"
  by (simp add: persisted_def test_raft_def new_with_log_def InMemory_load_def InMemory_new_def)

section \<open>Properties\<close>

text \<open>
  C24. Restart recovers the log: if the store holds a peer's log and commit index before a
  handler call that returns \<open>Ok\<close>, it holds the new ones after it, and a peer created on that
  store has exactly this log and commit index, whatever fallback index it is given, and a
  well-formed state (but term zero and no vote).
\<close>
theorem restart_recovers_log:
  assumes "raft_wf r" and "raft_room ev r" and "persisted X r" and "raft_step X ev r = (r', Ok effs)"
    and "raft_log_json X (log r') (commit_index r')"
  shows "persisted X r' \<and> (\<exists>rr. new_with_storage X draw now peer (raft_log_store r') fallback = Ok rr \<and>
    log rr = log r' \<and> commit_index rr = commit_index r' \<and> current_term rr = 0 \<and> voted_for rr = None \<and> raft_wf rr)"
proof -
  have p: "persisted X r'" using raft_step_persists [OF assms(1,2), of X] assms(3-5) by (simp add: persists_def)
  have "raft_wf r'" using good_raft_step [OF assms(1,2), of X] assms(4) by (simp add: good_step_def step_ok_def)
  with reload_persisted [OF _ p] p show ?thesis by blast
qed

text \<open>The stored encoding of the witness's log; its decoder reads that log back.\<close>

definition test_log_ext :: "RaftLogEntry list \<Rightarrow> u64 \<Rightarrow> raft_ext" where
  "test_log_ext l ci = block_ext.extend (test_block_ext (\<lambda>_. None)) (raft_ext.fields (\<lambda>_. []) (\<lambda>_. Some (l, ci)))"

theorem restart_recovers_log_witness:
  "\<exists>r' effs rr. raft_step (test_log_ext [noop 1 1] 1) (Tick 20000 [])
      ((test_raft 1 [] 0)\<lparr>raft_log_store := File \<lparr>rl_contents = None, rl_readable = True,
        rl_parent_creatable = True, rl_writable = True\<rparr>\<rparr>) = (r', Ok effs) \<and>
    new_with_storage (test_log_ext [noop 1 1] 1) 0 0 (PeerId 1) (raft_log_store r') 0 = Ok rr \<and>
    log rr = [noop 1 1] \<and> commit_index rr = 1"
proof -
  let ?X = "test_log_ext [noop 1 1] 1"
  let ?r = "(test_raft 1 [] 0)\<lparr>raft_log_store := File \<lparr>rl_contents = None, rl_readable = True,
        rl_parent_creatable = True, rl_writable = True\<rparr>\<rparr>"
  have wf: "raft_wf ?r" using test_raft_wf(1) [of 1 0] by (simp add: raft_wf_def)
  have p: "persisted ?X ?r" by (simp add: persisted_def File_load_def)
  obtain r' effs where st: "raft_step ?X (Tick 20000 []) ?r = (r', Ok effs)" and r': "log r' = [noop 1 1]" "commit_index r' = 1"
    by (auto simp: raft_on_tick_def update_participants_def hash_set_from_def start_election_at_def
        become_leader_if_majority_def majority_def append_leader_noop_def append_own_entry_def last_log_index_def
        advance_commit_index_def replicated_count_def persist_log_def File_save_def test_raft_def new_with_log_def
        random_election_timeout_def random_range_incl_def DEFAULT_ELECTION_TIMEOUT_def
        DEFAULT_ELECTION_TIMEOUT_JITTER_def noop_def Let_def)
  have "raft_log_json ?X (log r') (commit_index r')"
    by (simp add: r' raft_log_json_def test_log_ext_def block_ext.defs raft_ext.defs)
  from restart_recovers_log [OF wf _ p st this, of 0 0 "PeerId 1" 0] st r' show ?thesis by auto
qed

text \<open>
  C37. A restart forgets the vote: term and vote are not stored, so a peer that granted its vote
  in a term and is restarted grants it in the same term to a different candidate.
\<close>
theorem restart_votes_again:
  assumes "raft_wf r" and "persisted X r" and "t \<noteq> 0"
    and "raft_on_request_vote t c1 li lt src1 r = (r1, Ok [Send src1 (RaftRequestVoteResponse t True)])"
  shows "\<exists>rr rr'. new_with_storage X draw now peer (raft_log_store r1) fallback = Ok rr \<and>
    raft_on_request_vote t c2 li lt src2 rr = (rr', Ok [Send src2 (RaftRequestVoteResponse t True)])"
proof -
  obtain r1' resp where rv: "request_vote t c1 li lt r = (r1', resp)" by fastforce
  then have r1: "r1' = r1" "resp = VoteGranted" using assms(4) by (auto simp: raft_on_request_vote_def)
  have "store_frame r r1" using store_frames(6) [of r t c1 li lt] rv r1 by simp
  then have p: "persisted X r1" and wf: "log r1 = log r" using store_frame_persisted [OF _ assms(2)]
    by (auto simp: store_frame_def log_frame_def)
  have "raft_wf r1"
    using request_vote_frame [of r t c1 li lt] request_vote_members [OF wf_members [OF assms(1)], of t c1 li lt]
      frame_wf [OF assms(1)] rv r1 by (metis fst_conv)
  then obtain rr where rr: "new_with_storage X draw now peer (raft_log_store r1) fallback = Ok rr" "log rr = log r1"
      "current_term rr = 0" "voted_for rr = None"
    using reload_persisted [OF _ p] by blast
  have "last_log_term r < lt \<or> lt = last_log_term r \<and> last_log_index r \<le> li"
    using rv r1(2) by (auto simp: request_vote_def candidate_log_is_up_to_date_def step_down_def last_log_term_def
        last_log_index_def Let_def split: if_splits option.splits)
  moreover have "last_log_term (step_down t rr) = last_log_term r" "last_log_index (step_down t rr) = last_log_index r"
    using rr(2) wf by (simp_all add: last_log_term_def last_log_index_def step_down_def)
  ultimately have "candidate_log_is_up_to_date (step_down t rr) li lt"
    unfolding candidate_log_is_up_to_date_def by (simp only:)
  then have "raft_on_request_vote t c2 li lt src2 rr =
      ((step_down t rr)\<lparr>voted_for := Some c2\<rparr>, Ok [Send src2 (RaftRequestVoteResponse t True)])"
    using rr(3) assms(3) by (simp add: raft_on_request_vote_def request_vote_def word_neq_0_conv step_down_def)
  with rr(1) show ?thesis by blast
qed

theorem restart_votes_again_witness:
  "\<exists>r1 rr rr'. raft_on_request_vote 4 (PeerId 2) 0 0 (PeerId 2) (test_raft 1 [] 0) =
      (r1, Ok [Send (PeerId 2) (RaftRequestVoteResponse 4 True)]) \<and>
    new_with_storage test_raft_ext 0 0 (PeerId 1) (raft_log_store r1) 0 = Ok rr \<and>
    raft_on_request_vote 4 (PeerId 3) 0 0 (PeerId 3) rr = (rr', Ok [Send (PeerId 3) (RaftRequestVoteResponse 4 True)])"
proof -
  have wf: "raft_wf (test_raft 1 [] 0)" by (rule test_raft_wf) simp
  obtain r1 where g: "raft_on_request_vote 4 (PeerId 2) 0 0 (PeerId 2) (test_raft 1 [] 0) =
      (r1, Ok [Send (PeerId 2) (RaftRequestVoteResponse 4 True)])"
    by (simp add: raft_on_request_vote_def request_vote_def candidate_log_is_up_to_date_def last_log_term_def
        last_log_index_def step_down_def)
  have four: "(4 :: u64) \<noteq> 0" by simp
  from restart_votes_again [OF wf test_raft_persisted four g, of 0 0 "PeerId 1" 0 "PeerId 3" "PeerId 3"] g show ?thesis by blast
qed

end
