(* ===== verification/Raft_Progress.thy ===== *)
theory Raft_Progress
  imports Raft_Restart
begin

text \<open>
  Progress of replication: a leader whose requests reach enough followers, and whose followers'
  answers come back, commits its log in one round.
\<close>

section \<open>A store that accepts writes\<close>

definition store_works :: "('a) raft_ext_scheme \<Rightarrow> AnyRaftLogStore \<Rightarrow> bool" where
  "store_works X s \<longleftrightarrow> (\<forall>l ci. is_ok (snd (Any_save X l ci s)))"

lemma store_works_save: "store_works X s \<Longrightarrow> store_works X (fst (Any_save X l ci s))"
  by (cases s) (auto simp: store_works_def File_save_def InMemory_save_def split: if_splits prod.split)

lemma persist_log_works:
  assumes "store_works X (raft_log_store r)"
  obtains s where "persist_log X r = (r\<lparr>raft_log_store := s\<rparr>, Ok ())" "store_works X s"
proof -
  obtain s res where sv: "Any_save X (log r) (commit_index r) (raft_log_store r) = (s, res)"
    by fastforce
  then have "is_ok res" "store_works X s"
    using assms store_works_save [OF assms, of "log r" "commit_index r"] by (auto simp: store_works_def) (metis snd_conv)
  then show thesis
    using that [of s] sv by (cases res) (auto simp: persist_log_def)
qed

section \<open>The answer of a follower\<close>

text \<open>A follower that listens to the leader of term \<open>t\<close>.\<close>

definition hears :: "u64 \<Rightarrow> PeerId \<Rightarrow> RaftConsensus \<Rightarrow> bool" where
  "hears t leader f \<longleftrightarrow> leader \<in> set (r_participants f) \<and> current_term f \<le> t \<and>
    (current_term f = t \<longrightarrow> leader_id f = None \<or> leader_id f = Some leader)"

lemma hears_receives:
  assumes "hears t leader f" "raft_wf f"
  obtains f1 where "receive_append_entries_at draw t leader leader now f = (f1, True)"
    "log f1 = log f" "commit_index f1 = commit_index f" "raft_log_store f1 = raft_log_store f" "current_term f1 = t" "raft_wf f1"
proof -
  obtain f1 b where f1: "receive_append_entries_at draw t leader leader now f = (f1, b)"
    by fastforce
  have "b \<and> current_term f1 = t \<and> log f1 = log f \<and> commit_index f1 = commit_index f \<and> raft_log_store f1 = raft_log_store f \<and>
      r_participants f1 = r_participants f \<and> r_peer_id f1 = r_peer_id f \<and> votes_received f1 = []"
    using assms(1) f1 by (auto simp: hears_def receive_append_entries_at_def step_down_def Let_def split: if_splits)
  then show thesis
    using that f1 assms(2) by (simp add: raft_wf_def)
qed

lemma last_index_length: "log_ok (log r) \<Longrightarrow> last_log_index r = word_of_nat (length (log r))"
  by (simp add: unat_last_log_index [symmetric])

lemma whole_batch:
  assumes "log_ok (log l)" "es = take n (drop (unat pi) (log l))" "unat pi \<le> length (log l)" "length (log l) \<le> unat pi + n"
  shows "(if es = [] then pi else le_index (last es)) = last_log_index l"
proof -
  have es: "es = drop (unat pi) (log l)"
    using assms(2,4) by simp
  show ?thesis
  proof (cases "unat pi = length (log l)")
    case True
    then show ?thesis
      using es last_index_length [OF assms(1)] by (simp flip: True)
  next
    case False
    then have "drop (unat pi) (log l) \<noteq> []"
      using assms(3) by simp
    then show ?thesis
      unfolding es by (auto simp: last_log_index_def)
  qed
qed

lemma follower_answers:
  assumes l: "raft_wf l" and f: "raft_wf f" "hears (current_term l) (r_peer_id l) f" "store_works X (raft_log_store f)"
    and m: "logs_match_below pi l f" "length (log l) \<le> unat pi + MAX_APPEND_ENTRIES"
    and eff: "append_entries_effect_for l p = Some (SendRaftAppendEntries p t pi pt es lc)"
    and v: "validate_replicated_entries X rbs Map.empty [] = Ok (es, blocks)"
  shows "\<exists>f' effs. raft_step X (AppendEntries draw t (r_peer_id l) pi pt rbs lc (r_peer_id l) now) f = (f', Ok effs) \<and>
    Send (r_peer_id l) (RaftAppendEntriesResponse (current_term l) True (last_log_index l)) \<in> set effs \<and>
    log f' = merge_log (unat pi) es (log f)"
proof -
  have ok: "log_ok (log l)"
    by (rule raft_wfD(1) [OF l])
  have seg: "unat pi \<le> length (log l) \<and> es = take MAX_APPEND_ENTRIES (drop (unat pi) (log l)) \<and>
      pt = (if pi = 0 then 0 else le_term (log l ! (unat pi - 1))) \<and> t = current_term l"
    by (rule append_entries_effect_for_segment [OF ok eff]) simp
  obtain f1 where rc: "receive_append_entries_at draw t (r_peer_id l) (r_peer_id l) now f = (f1, True)"
    and f1: "log f1 = log f" "commit_index f1 = commit_index f" "raft_log_store f1 = raft_log_store f"
      "current_term f1 = t" "raft_wf f1"
    using hears_receives [OF f(2,1)] seg by metis
  have "logs_match_below pi l f1"
    using m(1) f1(1,2) by (simp add: logs_match_below_def)
  then have acc: "accepts pi pt es f1"
    using seg by (intro batch_accepted [OF ok f1(5)]) simp_all
  have "unat pi + length es \<le> length (log l)"
    using seg by auto
  then have room: "unat pi + length es < 2 ^ 64"
    using log_ok_length [OF ok] by simp
  obtain effs where ae: "append_entries pi pt es lc f1 = (merged pi es lc f1, Some effs)"
    using acc append_entries_spec [OF raft_wfD(1,2) [OF f1(5)] room, of pt lc] by simp
  obtain pb where mv: "move_staged_blocks effs blocks (merged pi es lc f1) = (merged pi es lc f1)\<lparr>pending_blocks := pb\<rparr>"
    using move_staged_blocks_pending by blast
  let ?f3 = "(merged pi es lc f1)\<lparr>pending_blocks := pb\<rparr>"
  have sel: "log ?f3 = merge_log (unat pi) es (log f)" "current_term ?f3 = t" "raft_log_store ?f3 = raft_log_store f"
    by (simp_all add: merged_def Let_def f1)
  obtain s where pers: "persist_log X ?f3 = (?f3\<lparr>raft_log_store := s\<rparr>, Ok ())"
    using persist_log_works [of X ?f3] f(3) sel(3) by metis
  have ix: "(if es = [] then pi else le_index (last es)) = last_log_index l"
    using seg m(2) by (intro whole_batch [OF ok]) simp_all
  show ?thesis
    using rc v ae mv pers sel seg ix
    by (auto simp: raft_on_append_entries_def handle_append_entries_def append_entries_response_def Let_def)
qed

section \<open>The answers at the leader\<close>

lemma ack_step:
  assumes "role r = Leader" "p \<in> set (r_participants r)" "store_works X (raft_log_store r)"
  obtains r' effs c where "raft_step X (AppendReply (current_term r) p True mi) r = (r', Ok effs)"
    "log r' = log r" "role r' = Leader" "current_term r' = current_term r" "r_participants r' = r_participants r"
    "r_peer_id r' = r_peer_id r" "store_works X (raft_log_store r')"
    "match_indexes r' = (match_indexes r)(p \<mapsto> max (case match_indexes r p of Some m \<Rightarrow> m | None \<Rightarrow> 0) mi)"
    "commit_index r' = find_commit (r'\<lparr>commit_index := c\<rparr>) (rev (log r'))"
proof -
  define r1 where "r1 = r\<lparr>match_indexes := (match_indexes r)(p \<mapsto> max (case match_indexes r p of Some m \<Rightarrow> m | None \<Rightarrow> 0) mi)\<rparr>"
  define r2 where "r2 = r1\<lparr>commit_index := find_commit r1 (rev (log r1))\<rparr>"
  have adv: "advance_commit_index r1 = (r2, commit_effects (commit_index r1) r2)"
    by (simp add: advance_commit_index_def r2_def Let_def)
  obtain s where pers: "persist_log X r2 = (r2\<lparr>raft_log_store := s\<rparr>, Ok ())" "store_works X s"
    using persist_log_works [of X r2] assms(3) by (auto simp: r2_def r1_def)
  have r1_ci: "commit_index r = commit_index r1"
    by (simp add: r1_def)
  define r3 where "r3 = (if commit_index r2 \<noteq> commit_index r1 then r2\<lparr>raft_log_store := s\<rparr> else r2)"
  have step: "raft_step X (AppendReply (current_term r) p True mi) r = (r3, Ok (commit_effects (commit_index r1) r2))"
    using assms(1,2) pers(1) adv r1_ci
    by (simp add: raft_on_append_entries_response_def handle_leader_append_entries_response_def Let_def r3_def flip: r1_def)
  have sel: "log r3 = log r" "role r3 = Leader" "current_term r3 = current_term r" "r_participants r3 = r_participants r"
    "r_peer_id r3 = r_peer_id r" "match_indexes r3 = match_indexes r1" "commit_index r3 = commit_index r2" "log r1 = log r"
    "r_participants r1 = r_participants r" "current_term r1 = current_term r"
    using assms(1) by (simp_all add: r3_def r2_def r1_def)
  have store: "store_works X (raft_log_store r3)"
    using assms(3) pers(2) by (simp add: r3_def r2_def r1_def)
  have "find_commit (r3\<lparr>commit_index := commit_index r1\<rparr>) es = find_commit r1 es" for es
    by (induction es) (simp_all add: sel majority_def replicated_count_def)
  then have "commit_index r3 = find_commit (r3\<lparr>commit_index := commit_index r1\<rparr>) (rev (log r3))"
    by (simp add: sel) (simp add: r2_def sel)
  then show thesis
    using sel by (intro that [OF step sel(1-5) store]) (simp_all add: r1_def)
qed

text \<open>The leader after the answers of \<open>ps\<close>.\<close>

definition heard_from :: "PeerId list \<Rightarrow> u64 \<Rightarrow> RaftConsensus \<Rightarrow> RaftConsensus \<Rightarrow> bool" where
  "heard_from ps n r r' \<longleftrightarrow> log r' = log r \<and> role r' = Leader \<and> current_term r' = current_term r \<and>
    r_participants r' = r_participants r \<and> r_peer_id r' = r_peer_id r \<and>
    (\<forall>p \<in> insert (r_peer_id r) (set ps). \<exists>mi. match_indexes r' p = Some mi \<and> n \<le> mi)"

abbreviation acks :: "PeerId list \<Rightarrow> u64 \<Rightarrow> u64 \<Rightarrow> raft_event list" where
  "acks ps t n \<equiv> map (\<lambda>p. AppendReply t p True n) ps"

lemma acks_heard:
  assumes "role r = Leader" "match_indexes r (r_peer_id r) = Some (last_log_index r)" "set ps \<subseteq> set (r_participants r)"
    "store_works X (raft_log_store r)"
  shows "\<exists>r' hs. raft_run X (acks ps (current_term r) (last_log_index r)) r = (r', hs, True) \<and>
    heard_from ps (last_log_index r) r r' \<and> store_works X (raft_log_store r') \<and>
    (ps \<noteq> [] \<longrightarrow> (\<exists>c. commit_index r' = find_commit (r'\<lparr>commit_index := c\<rparr>) (rev (log r'))))"
  using assms(3)
proof (induction ps rule: rev_induct)
  case Nil
  then show ?case
    using assms by (simp add: heard_from_def)
next
  case (snoc p ps)
  then obtain r1 hs where r1: "raft_run X (acks ps (current_term r) (last_log_index r)) r = (r1, hs, True)"
    "heard_from ps (last_log_index r) r r1" "store_works X (raft_log_store r1)"
    by auto
  have "role r1 = Leader" "p \<in> set (r_participants r1)" "current_term r1 = current_term r"
    using r1(2) snoc.prems by (simp_all add: heard_from_def)
  then obtain r2 effs c where r2: "raft_step X (AppendReply (current_term r) p True (last_log_index r)) r1 = (r2, Ok effs)"
    "log r2 = log r1" "role r2 = Leader" "current_term r2 = current_term r1" "r_participants r2 = r_participants r1"
    "r_peer_id r2 = r_peer_id r1" "store_works X (raft_log_store r2)"
    "match_indexes r2 = (match_indexes r1)(p \<mapsto> max (case match_indexes r1 p of Some m \<Rightarrow> m | None \<Rightarrow> 0) (last_log_index r))"
    "commit_index r2 = find_commit (r2\<lparr>commit_index := c\<rparr>) (rev (log r2))"
    using ack_step [of r1 p X "last_log_index r"] r1(3) by metis
  have "\<exists>mi. match_indexes r2 q = Some mi \<and> last_log_index r \<le> mi" if "q \<in> insert (r_peer_id r) (set (ps @ [p]))" for q
    using r1(2) that by (auto simp: r2(8) heard_from_def)
  then have "heard_from (ps @ [p]) (last_log_index r) r r2"
    using r1(2) r2 by (simp add: heard_from_def)
  then show ?case
    using r1(1) r2(1,7,9) by (auto simp: raft_run_snoc)
qed

lemma heard_count:
  assumes "heard_from ps n r r'" "raft_wf r" "distinct ps" "r_peer_id r \<notin> set ps" "set ps \<subseteq> set (r_participants r)"
  shows "Suc (length ps) \<le> replicated_count r' n"
proof -
  let ?P = "\<lambda>p. case match_indexes r' p of Some mi \<Rightarrow> n \<le> mi | None \<Rightarrow> False"
  have "insert (r_peer_id r) (set ps) \<subseteq> set (filter ?P (r_participants r'))"
    using assms(1,2,5) by (auto simp: heard_from_def raft_wf_def)
  then have "card (insert (r_peer_id r) (set ps)) \<le> card (set (filter ?P (r_participants r')))"
    by (intro card_mono) auto
  also have "\<dots> = replicated_count r' n"
    using assms(1,2) by (subst distinct_card) (simp_all add: heard_from_def raft_wf_def replicated_count_def)
  finally show ?thesis
    using assms(3,4) by (simp add: distinct_card)
qed

lemma acks_room:
  assumes "length (log r) + 1 < 2 ^ 64" "role r = Leader" "match_indexes r (r_peer_id r) = Some (last_log_index r)"
    "set ps \<subseteq> set (r_participants r)" "store_works X (raft_log_store r)"
  shows "run_room X (acks ps (current_term r) (last_log_index r)) r"
  using assms(4)
proof (induction ps rule: rev_induct)
  case (snoc p ps)
  obtain r1 hs where r1: "raft_run X (acks ps (current_term r) (last_log_index r)) r = (r1, hs, True)"
    "heard_from ps (last_log_index r) r r1"
    using acks_heard [OF assms(2,3) _ assms(5), of ps] snoc.prems by auto
  then show ?case
    using snoc assms(1) run_room_snoc [of X "acks ps (current_term r) (last_log_index r)"] by (simp add: heard_from_def)
qed simp

lemma acks_commit:
  assumes wf: "raft_wf r" and room: "length (log r) + 1 < 2 ^ 64" and lead: "role r = Leader" "match_indexes r (r_peer_id r) = Some (last_log_index r)"
    and last: "log r \<noteq> []" "le_term (last (log r)) = current_term r"
    and ps: "ps \<noteq> []" "distinct ps" "r_peer_id r \<notin> set ps" "set ps \<subseteq> set (r_participants r)" "majority r \<le> Suc (length ps)"
    and store: "store_works X (raft_log_store r)"
  shows "\<exists>r' hs. raft_run X (acks ps (current_term r) (last_log_index r)) r = (r', hs, True) \<and> log r' = log r \<and>
    commit_index r' = last_log_index r \<and> hs = block_hashes (drop (unat (commit_index r)) (log r))"
proof -
  obtain r' hs c where r': "raft_run X (acks ps (current_term r) (last_log_index r)) r = (r', hs, True)"
    "heard_from ps (last_log_index r) r r'" "commit_index r' = find_commit (r'\<lparr>commit_index := c\<rparr>) (rev (log r'))"
    using acks_heard [OF lead ps(4) store] ps(1) by blast
  have same: "log r' = log r" "current_term r' = current_term r" "r_participants r' = r_participants r"
    using r'(2) by (simp_all add: heard_from_def)
  have ix: "le_index (last (log r)) = last_log_index r"
    using last(1) by (simp add: last_log_index_def)
  have "le_index (last (log r)) \<le> find_commit (r'\<lparr>commit_index := c\<rparr>) (rev (log r'))"
  proof (rule find_commit_max)
    show "sorted_wrt (\<lambda>x y. le_index y < le_index x) (rev (log r'))"
      using log_ok_sorted_rev [OF raft_wfD(1) [OF wf]] by (simp add: same)
    show "majority (r'\<lparr>commit_index := c\<rparr>) \<le> replicated_count (r'\<lparr>commit_index := c\<rparr>) (le_index (last (log r)))"
      using heard_count [OF r'(2) wf ps(2-4)] ps(5) by (simp add: ix majority_def replicated_count_def same)
  qed (use last same in simp_all)
  then have ge: "last_log_index r \<le> commit_index r'"
    using r'(3) ix by simp
  have good: "step_ok r r'" "hs = newly_committed r r'"
    using raft_run_good [OF wf acks_room [OF room lead ps(4) store] r'(1)] by simp_all
  have len: "unat (last_log_index r) = length (log r)"
    using raft_wfD(1) [OF wf] by (rule unat_last_log_index)
  have "unat (commit_index r') \<le> length (log r)"
    using good(1) same(1) by (simp add: step_ok_def raft_wf_def)
  then have "commit_index r' = last_log_index r"
    using ge len by (simp add: word_le_nat_alt word_unat_eq_iff)
  then show ?thesis
    using r'(1) same(1) good(2) len by (simp add: newly_committed_def)
qed

section \<open>Properties\<close>

text \<open>
  C14. One round of replication commits. A leader has an entry of its term at the end of its log; each of
  enough followers to make a majority with it listens to it, has a log that matches it up to the index
  the leader has for it, at most five entries behind, can validate the payload and can save. Then every
  such follower answers the leader's request with success and the leader's last index, and when
  these answers reach the leader, its whole log is committed: the commits it asks for are exactly the
  blocks after its old commit index, in log order.
\<close>

theorem round_commits:
  assumes "raft_wf l" "length (log l) + 1 < 2 ^ 64" "role l = Leader" "match_indexes l (r_peer_id l) = Some (last_log_index l)"
    and "log l \<noteq> []" "le_term (last (log l)) = current_term l" "store_works X (raft_log_store l)"
    and "ps \<noteq> []" "distinct ps" "r_peer_id l \<notin> set ps" "set ps \<subseteq> set (r_participants l)" "majority l \<le> Suc (length ps)"
    and "\<forall>p \<in> set ps. raft_wf (f p) \<and> hears (current_term l) (r_peer_id l) (f p) \<and> store_works X (raft_log_store (f p)) \<and>
      logs_match_below (pi p) l (f p) \<and> length (log l) \<le> unat (pi p) + 5 \<and>
      append_entries_effect_for l p = Some (SendRaftAppendEntries p (t p) (pi p) (pt p) (es p) (lc p)) \<and>
      validate_replicated_entries X (rbs p) Map.empty [] = Ok (es p, blocks p)"
  shows "(\<forall>p \<in> set ps. \<exists>f' effs.
      raft_step X (AppendEntries draw (t p) (r_peer_id l) (pi p) (pt p) (rbs p) (lc p) (r_peer_id l) now) (f p) = (f', Ok effs) \<and>
      Send (r_peer_id l) (RaftAppendEntriesResponse (current_term l) True (last_log_index l)) \<in> set effs) \<and>
    (\<exists>l'. raft_run X (map (\<lambda>p. AppendReply (current_term l) p True (last_log_index l)) ps) l =
        (l', block_hashes (drop (unat (commit_index l)) (log l)), True) \<and>
      commit_index l' = last_log_index l \<and> log l' = log l)"
proof (intro conjI ballI)
  fix p
  assume "p \<in> set ps"
  then have h: "raft_wf (f p)" "hears (current_term l) (r_peer_id l) (f p)" "store_works X (raft_log_store (f p))"
      "logs_match_below (pi p) l (f p)" "length (log l) \<le> unat (pi p) + MAX_APPEND_ENTRIES"
      "append_entries_effect_for l p = Some (SendRaftAppendEntries p (t p) (pi p) (pt p) (es p) (lc p))"
      "validate_replicated_entries X (rbs p) Map.empty [] = Ok (es p, blocks p)"
    using assms(13) by (auto simp: MAX_APPEND_ENTRIES_def)
  from follower_answers [OF assms(1) h] show "\<exists>f' effs.
      raft_step X (AppendEntries draw (t p) (r_peer_id l) (pi p) (pt p) (rbs p) (lc p) (r_peer_id l) now) (f p) = (f', Ok effs) \<and>
      Send (r_peer_id l) (RaftAppendEntriesResponse (current_term l) True (last_log_index l)) \<in> set effs"
    by blast
qed (use acks_commit [OF assms(1-6,8-12,7)] in blast)

definition test_new_leader :: RaftConsensus where
  "test_new_leader = (test_raft 1 [noop 1 1] 0)\<lparr>role := Leader, current_term := 1, match_indexes := [PeerId 1 \<mapsto> 1]\<rparr>"

definition test_noop_block :: RaftReplicatedBlock where
  "test_noop_block = \<lparr>rb_entry = noop 1 1, rb_block_file = [], rb_signature = [], rb_public_key = []\<rparr>"

theorem round_commits_witness:
  "\<exists>l'. raft_run test_raft_ext [AppendReply 1 (PeerId 2) True 1] test_new_leader = (l', [], True) \<and> commit_index l' = 1"
proof -
  let ?l = test_new_leader and ?f = "test_raft 2 [] 0"
  have log: "log ?l = [noop 1 1]" "last_log_index ?l = 1" "current_term ?l = 1" "role ?l = Leader" "r_peer_id ?l = PeerId 1"
    "r_participants ?l = [PeerId 1, PeerId 2, PeerId 3]" "match_indexes ?l = [PeerId 1 \<mapsto> 1]" "commit_index ?l = 0"
    by (simp_all add: test_new_leader_def last_log_index_def noop_def)
  have wf: "raft_wf ?l" "raft_wf ?f"
    using test_raft_wf(1) [of 2 0] by (simp_all add: raft_wf_def log_ok_def noop_def test_new_leader_def)
  have store: "store_works test_raft_ext (raft_log_store ?l)" "store_works test_raft_ext (raft_log_store ?f)"
    by (simp_all add: store_works_def test_new_leader_def test_raft_def new_with_log_def InMemory_save_def)
  have hears: "hears (current_term ?l) (r_peer_id ?l) ?f" "logs_match_below 0 ?l ?f"
    by (simp_all add: hears_def log logs_match_below_def same_terms_def)
  have sent: "append_entries_effect_for ?l (PeerId 2) = Some (SendRaftAppendEntries (PeerId 2) 1 0 0 [noop 1 1] 0)"
    by (simp add: append_entries_effect_for_def log term_at_def MAX_APPEND_ENTRIES_def noop_def)
  have valid: "validate_replicated_entries test_raft_ext [test_noop_block] Map.empty [] = Ok ([noop 1 1], Map.empty)"
    by (simp add: test_noop_block_def is_noop_def noop_def verify_message_def test_raft_ext_def block_ext.extend_def test_block_ext_def)
  have maj: "majority ?l \<le> Suc (length [PeerId 2])" and last: "le_term (last (log ?l)) = current_term ?l"
    by (simp_all add: majority_def log noop_def)
  have all: "\<forall>p \<in> set [PeerId 2]. raft_wf ?f \<and> hears (current_term ?l) (r_peer_id ?l) ?f \<and> store_works test_raft_ext (raft_log_store ?f) \<and>
      logs_match_below 0 ?l ?f \<and> length (log ?l) \<le> unat (0::u64) + 5 \<and>
      append_entries_effect_for ?l p = Some (SendRaftAppendEntries p 1 0 0 [noop 1 1] 0) \<and>
      validate_replicated_entries test_raft_ext [test_noop_block] Map.empty [] = Ok ([noop 1 1], Map.empty)"
    using wf(2) store(2) hears sent valid by (simp add: log)
  have none: "block_hashes (drop (unat (0::u64)) [noop 1 1]) = []"
    by (simp add: noop_def block_hashes_def is_noop_def)
  have "\<exists>l'. raft_run test_raft_ext (map (\<lambda>p. AppendReply (current_term ?l) p True (last_log_index ?l)) [PeerId 2]) ?l =
      (l', block_hashes (drop (unat (commit_index ?l)) (log ?l)), True) \<and> commit_index l' = last_log_index ?l \<and> log l' = log ?l"
    by (rule conjunct2 [OF round_commits [OF wf(1) _ _ _ _ last store(1) _ _ _ _ maj all, where draw = 0 and now = 0]])
      (simp_all add: log)
  then show ?thesis
    unfolding log none list.map by blast
qed

end
