(* ===== verification/Voting.thy ===== *)
theory Voting
  imports Messages Quorums
begin

text \<open>
  \<^verbatim>\<open>src/src/peer/consensus/voting.rs\<close>: one vote count per proposed block, the
  thresholds, and the handlers that turn votes into commit and rollback effects.
\<close>

section \<open>The vote count of one block\<close>

datatype ConsensusOutcome = Pending | Approved | Rejected

record VotingConsensus =
  participants :: "PeerId list"
  approvals :: "PeerId list"
  rejections :: "PeerId list"
  outcome :: "ConsensusOutcome option"

definition VotingConsensus_new :: "PeerId \<Rightarrow> PeerId list \<Rightarrow> VotingConsensus" where
  "VotingConsensus_new peer_id known_peers =
    \<lparr>participants = List.insert peer_id (hash_set_from known_peers), approvals = [], rejections = [],
     outcome = None\<rparr>"

definition already_voted :: "VotingConsensus \<Rightarrow> PeerId \<Rightarrow> bool" where
  "already_voted c p \<longleftrightarrow> p \<in> set (approvals c) \<or> p \<in> set (rejections c)"

definition evaluate_outcome :: "nat \<Rightarrow> nat \<Rightarrow> nat \<Rightarrow> ConsensusOutcome" where
  "evaluate_outcome total_peers approve_count reject_count =
    (let f = (total_peers - 1) div 3
     in if 2 * f + 1 \<le> approve_count then Approved
        else if f \<le> reject_count then Rejected
        else Pending)"

definition make_vote :: "PeerId \<Rightarrow> bool \<Rightarrow> VotingConsensus \<Rightarrow> VotingConsensus \<times> ConsensusOutcome" where
  "make_vote peer_id approve c =
    (case outcome c of
       Some o' \<Rightarrow> (c, o')
     | None \<Rightarrow>
         if peer_id \<notin> set (participants c) then (c, Pending)
         else
           let c1 = (if approve then c\<lparr>approvals := List.insert peer_id (approvals c)\<rparr>
                     else c\<lparr>rejections := List.insert peer_id (rejections c)\<rparr>);
               o' = evaluate_outcome (length (participants c1)) (length (approvals c1)) (length (rejections c1))
           in (if o' \<noteq> Pending then c1\<lparr>outcome := Some o'\<rparr> else c1, o'))"

section \<open>Handlers\<close>

type_synonym votings = "BlockHash \<rightharpoonup> VotingConsensus"

definition handle_voting_vote ::
    "PeerId \<Rightarrow> PeerId list \<Rightarrow> BlockHash \<Rightarrow> PeerId \<Rightarrow> bool \<Rightarrow> votings \<Rightarrow> votings \<times> ConsensusEffect list" where
  "handle_voting_vote peer_id known_peers block_hash from approve votings =
    (let c = (case votings block_hash of Some c \<Rightarrow> c | None \<Rightarrow> VotingConsensus_new peer_id known_peers);
         votings1 = votings(block_hash \<mapsto> c)
     in (if already_voted c from \<or> outcome c \<noteq> None then (votings1, [])
         else
           let (c2, o') = make_vote from approve c
           in (votings1(block_hash \<mapsto> c2),
               case o' of
                 Approved \<Rightarrow> [CommitBlock block_hash, Broadcast (BlockApproved block_hash)]
               | Rejected \<Rightarrow> [RollbackBlock block_hash, Broadcast (BlockReject block_hash)]
               | Pending \<Rightarrow> [])))"

definition voting_on_client_transaction :: "SignedTransaction \<Rightarrow> ConsensusEffect list" where
  "voting_on_client_transaction tx =
    [StageClientTransaction tx, BroadcastClientTransaction tx]"

definition voting_on_block_created :: "BlockHash \<Rightarrow> ConsensusEffect list" where
  "voting_on_block_created block_hash = [ProposeBlock block_hash]"

definition voting_on_local_block_proposed ::
    "PeerId \<Rightarrow> BlockHash \<Rightarrow> PeerId list \<Rightarrow> votings \<Rightarrow> votings \<times> ConsensusEffect list" where
  "voting_on_local_block_proposed peer_id block_hash known_peers votings =
    handle_voting_vote peer_id known_peers block_hash peer_id True votings"

definition voting_on_block_proposal_validated ::
    "PeerId \<Rightarrow> BlockHash \<Rightarrow> PeerId \<Rightarrow> bool \<Rightarrow> PeerId list \<Rightarrow> votings \<Rightarrow> votings \<times> ConsensusEffect list" where
  "voting_on_block_proposal_validated peer_id block_hash proposer valid known_peers votings =
    (let (votings1, effects) = handle_voting_vote peer_id known_peers block_hash proposer True votings
     in (if effects = []
         then let (votings2, effects2) = handle_voting_vote peer_id known_peers block_hash peer_id valid votings1
              in (votings2, effects @ effects2)
         else (votings1, effects)))"

definition voting_on_block_vote ::
    "PeerId \<Rightarrow> BlockHash \<Rightarrow> PeerId \<Rightarrow> bool \<Rightarrow> PeerId list \<Rightarrow> votings \<Rightarrow> votings \<times> ConsensusEffect list" where
  "voting_on_block_vote peer_id block_hash from approve known_peers votings =
    handle_voting_vote peer_id known_peers block_hash from approve votings"

section \<open>Specification vocabulary\<close>

abbreviation max_faulty :: "nat \<Rightarrow> nat" where
  "max_faulty n \<equiv> (n - 1) div 3"

definition outcome_justified :: "VotingConsensus \<Rightarrow> bool" where
  "outcome_justified c \<longleftrightarrow>
    (case outcome c of
       Some Approved \<Rightarrow> 2 * max_faulty (length (participants c)) + 1 \<le> length (approvals c)
     | Some Rejected \<Rightarrow> max_faulty (length (participants c)) \<le> length (rejections c) \<and>
         length (approvals c) \<le> 2 * max_faulty (length (participants c))
     | Some Pending \<Rightarrow> False
     | None \<Rightarrow> approvals c = [] \<and> rejections c = [] \<or>
         evaluate_outcome (length (participants c)) (length (approvals c)) (length (rejections c)) = Pending)"

definition voting_wf :: "VotingConsensus \<Rightarrow> bool" where
  "voting_wf c \<longleftrightarrow> distinct (participants c) \<and> participants c \<noteq> [] \<and>
    distinct (approvals c) \<and> distinct (rejections c) \<and>
    set (approvals c) \<subseteq> set (participants c) \<and> set (rejections c) \<subseteq> set (participants c) \<and>
    set (approvals c) \<inter> set (rejections c) = {} \<and> outcome_justified c"

definition votings_wf :: "votings \<Rightarrow> bool" where
  "votings_wf vs \<longleftrightarrow> (\<forall>h c. vs h = Some c \<longrightarrow> voting_wf c)"

text \<open>The calls a peer in voting mode makes of this module.\<close>

datatype vote_event =
    LocalProposal BlockHash "PeerId list"
  | ProposalValidated BlockHash PeerId bool "PeerId list"
  | VoteReceived BlockHash PeerId bool "PeerId list"

fun vote_step :: "PeerId \<Rightarrow> vote_event \<Rightarrow> votings \<Rightarrow> votings \<times> ConsensusEffect list" where
  "vote_step me (LocalProposal h known) vs = voting_on_local_block_proposed me h known vs"
| "vote_step me (ProposalValidated h proposer valid known) vs =
    voting_on_block_proposal_validated me h proposer valid known vs"
| "vote_step me (VoteReceived h from approve known) vs = voting_on_block_vote me h from approve known vs"

fun vote_run :: "PeerId \<Rightarrow> vote_event list \<Rightarrow> votings \<Rightarrow> votings \<times> ConsensusEffect list" where
  "vote_run me [] vs = (vs, [])"
| "vote_run me (e # es) vs =
    (let (vs1, effs1) = vote_step me e vs; (vs2, effs2) = vote_run me es vs1 in (vs2, effs1 @ effs2))"

definition decisions_on :: "BlockHash \<Rightarrow> ConsensusEffect list \<Rightarrow> ConsensusEffect list" where
  "decisions_on h effs = filter (\<lambda>e. e = CommitBlock h \<or> e = RollbackBlock h) effs"

fun decision_effects :: "BlockHash \<Rightarrow> ConsensusOutcome option \<Rightarrow> ConsensusEffect list" where
  "decision_effects h (Some Approved) = [CommitBlock h]"
| "decision_effects h (Some Rejected) = [RollbackBlock h]"
| "decision_effects h _ = []"

definition outcome_of :: "votings \<Rightarrow> BlockHash \<Rightarrow> ConsensusOutcome option" where
  "outcome_of vs h = (case vs h of Some c \<Rightarrow> outcome c | None \<Rightarrow> None)"

section \<open>Votes on one block\<close>

lemma VotingConsensus_new_wf: "voting_wf (VotingConsensus_new p ps)"
  by (auto simp: voting_wf_def VotingConsensus_new_def outcome_justified_def)
    (metis List.set_insert empty_iff insert_not_empty empty_set)

lemma VotingConsensus_new_sel [simp]:
  "outcome (VotingConsensus_new p ps) = None" "approvals (VotingConsensus_new p ps) = []"
  "rejections (VotingConsensus_new p ps) = []" "set (participants (VotingConsensus_new p ps)) = insert p (set ps)"
  by (simp_all add: VotingConsensus_new_def)

lemma evaluate_outcome_cases:
  "evaluate_outcome n a r = Approved \<longleftrightarrow> 2 * max_faulty n + 1 \<le> a"
  "evaluate_outcome n a r = Rejected \<longleftrightarrow> a \<le> 2 * max_faulty n \<and> max_faulty n \<le> r"
  "evaluate_outcome n a r = Pending \<longleftrightarrow> a \<le> 2 * max_faulty n \<and> r < max_faulty n"
  by (auto simp: evaluate_outcome_def Let_def)

lemma make_vote_cases:
  obtains (decided) x where "outcome c = Some x" "make_vote p a c = (c, x)"
  | (stranger) "outcome c = None" "p \<notin> set (participants c)" "make_vote p a c = (c, Pending)"
  | (counted) c1 x where "outcome c = None" "p \<in> set (participants c)"
      "c1 = (if a then c\<lparr>approvals := List.insert p (approvals c)\<rparr> else c\<lparr>rejections := List.insert p (rejections c)\<rparr>)"
      "x = evaluate_outcome (length (participants c)) (length (approvals c1)) (length (rejections c1))"
      "make_vote p a c = (if x \<noteq> Pending then c1\<lparr>outcome := Some x\<rparr> else c1, x)"
proof (cases "outcome c")
  case (Some x)
  then show thesis by (intro decided) (simp_all add: make_vote_def)
next
  case None
  show thesis
  proof (cases "p \<in> set (participants c)")
    case True
    with None show thesis by (intro counted [OF _ _ refl refl]) (auto simp: make_vote_def Let_def)
  qed (use None in \<open>intro stranger; simp add: make_vote_def\<close>)
qed

lemma outcome_justified_set:
  assumes "x = evaluate_outcome (length (participants c)) (length (approvals c)) (length (rejections c))"
    and "outcome c = None"
  shows "outcome_justified (if x \<noteq> Pending then c\<lparr>outcome := Some x\<rparr> else c)"
  using assms evaluate_outcome_cases [of "length (participants c)" "length (approvals c)" "length (rejections c)"]
  by (cases x) (auto simp: outcome_justified_def)

lemma make_vote_wf:
  assumes "voting_wf c" and "\<not> already_voted c p"
  shows "voting_wf (fst (make_vote p a c))"
proof (cases rule: make_vote_cases [of c p a])
  case (counted c1 x)
  have "outcome_justified (if x \<noteq> Pending then c1\<lparr>outcome := Some x\<rparr> else c1)"
    using counted by (intro outcome_justified_set) auto
  with counted assms show ?thesis
    by (auto simp: voting_wf_def already_voted_def)
qed (use assms in simp_all)

lemma make_vote_outcome:
  "outcome c = None \<Longrightarrow> outcome (fst (make_vote p a c)) =
    (if snd (make_vote p a c) = Pending then None else Some (snd (make_vote p a c)))"
  by (cases rule: make_vote_cases [of c p a]) auto

section \<open>The handlers\<close>

lemma handle_voting_vote_wf:
  "votings_wf vs \<Longrightarrow> votings_wf (fst (handle_voting_vote me known h p a vs))"
  using make_vote_wf VotingConsensus_new_wf
  by (auto simp: handle_voting_vote_def votings_wf_def Let_def split: option.split prod.split if_splits)
    (metis fst_conv)+

lemma handle_voting_vote_decides:
  assumes "handle_voting_vote me known h p a vs = (vs', effs)"
  shows "\<And>g. g \<noteq> h \<Longrightarrow> vs' g = vs g \<and> decisions_on g effs = []"
    and "outcome_of vs h \<noteq> None \<Longrightarrow> outcome_of vs' h = outcome_of vs h \<and> effs = []"
    and "outcome_of vs h = None \<Longrightarrow> decisions_on h effs = decision_effects h (outcome_of vs' h)"
    and "effs = [] \<longleftrightarrow> outcome_of vs' h = outcome_of vs h"
proof -
  let ?c = "case vs h of Some c \<Rightarrow> c | None \<Rightarrow> VotingConsensus_new me known"
  obtain c2 x where mv: "make_vote p a ?c = (c2, x)" by fastforce
  have oc: "outcome_of vs h = outcome ?c" by (simp add: outcome_of_def split: option.split)
  have o2: "outcome ?c = None \<Longrightarrow> outcome c2 = (if x = Pending then None else Some x)"
    using make_vote_outcome [of ?c p a] mv by simp
  show "vs' g = vs g \<and> decisions_on g effs = []" if "g \<noteq> h" for g
    using assms that mv by (auto simp: handle_voting_vote_def decisions_on_def Let_def split: if_splits ConsensusOutcome.splits)
  show "outcome_of vs' h = outcome_of vs h \<and> effs = []" if "outcome_of vs h \<noteq> None"
    using assms that by (auto simp: handle_voting_vote_def oc Let_def) (simp add: outcome_of_def)
  show "decisions_on h effs = decision_effects h (outcome_of vs' h)" if "outcome_of vs h = None"
    using assms that mv o2 unfolding oc
    by (auto simp: handle_voting_vote_def decisions_on_def outcome_of_def Let_def split: if_splits ConsensusOutcome.splits)
  show "effs = [] \<longleftrightarrow> outcome_of vs' h = outcome_of vs h"
    using assms mv o2 unfolding oc
    by (auto simp: handle_voting_vote_def outcome_of_def Let_def split: if_splits ConsensusOutcome.splits)
qed

lemma vote_step_wf: "votings_wf vs \<Longrightarrow> votings_wf (fst (vote_step me e vs))"
proof (cases e)
  case (ProposalValidated h proposer valid known)
  obtain vs1 effs where 1: "handle_voting_vote me known h proposer True vs = (vs1, effs)" by fastforce
  assume "votings_wf vs"
  then have "votings_wf vs1" using handle_voting_vote_wf [of vs me known h proposer True] 1 by simp
  then have "votings_wf (fst (handle_voting_vote me known h me valid vs1))" by (rule handle_voting_vote_wf)
  with \<open>votings_wf vs1\<close> 1 ProposalValidated show ?thesis
    by (simp add: voting_on_block_proposal_validated_def split: prod.split)
qed (simp_all add: voting_on_local_block_proposed_def voting_on_block_vote_def handle_voting_vote_wf)

definition decides_like :: "votings \<Rightarrow> votings \<times> ConsensusEffect list \<Rightarrow> bool" where
  "decides_like vs r \<longleftrightarrow> (\<forall>g. if outcome_of vs g = None
      then decisions_on g (snd r) = decision_effects g (outcome_of (fst r) g)
      else outcome_of (fst r) g = outcome_of vs g \<and> decisions_on g (snd r) = [])"

lemma decides_like_seq:
  assumes "decides_like vs (vs1, effs1)" and "decides_like vs1 (vs2, effs2)"
  shows "decides_like vs (vs2, effs1 @ effs2)"
  unfolding decides_like_def
proof
  fix g
  have 1: "decisions_on g (effs1 @ effs2) = decisions_on g effs1 @ decisions_on g effs2"
    by (simp add: decisions_on_def)
  have "outcome_of vs1 g = None \<Longrightarrow> decision_effects g (outcome_of vs1 g) = []" by simp
  with assms [unfolded decides_like_def, THEN spec, of g]
  show "if outcome_of vs g = None
      then decisions_on g (snd (vs2, effs1 @ effs2)) = decision_effects g (outcome_of (fst (vs2, effs1 @ effs2)) g)
      else outcome_of (fst (vs2, effs1 @ effs2)) g = outcome_of vs g \<and> decisions_on g (snd (vs2, effs1 @ effs2)) = []"
    by (auto simp: 1 split: if_splits)
qed

lemma handle_voting_vote_decides_like: "decides_like vs (handle_voting_vote me known h p a vs)"
proof -
  obtain vs' effs where 1: "handle_voting_vote me known h p a vs = (vs', effs)" by fastforce
  note d = handle_voting_vote_decides [OF 1]
  have "g \<noteq> h \<Longrightarrow> outcome_of vs' g = outcome_of vs g \<and> decisions_on g effs = []" for g
    using d(1) by (simp add: outcome_of_def)
  moreover have "decisions_on h [] = []" by (simp add: decisions_on_def)
  ultimately show ?thesis using d(2,3) unfolding decides_like_def 1 fst_conv snd_conv
    by (intro allI) (rename_tac g, case_tac "g = h", auto)
qed

lemma vote_step_decides_like: "decides_like vs (vote_step me e vs)"
proof (cases e)
  case (ProposalValidated h proposer valid known)
  obtain vs1 effs1 where 1: "handle_voting_vote me known h proposer True vs = (vs1, effs1)" by fastforce
  obtain vs2 effs2 where 2: "handle_voting_vote me known h me valid vs1 = (vs2, effs2)" by fastforce
  have "decides_like vs (vs1, effs1)" and "decides_like vs1 (vs2, effs2)"
    using handle_voting_vote_decides_like [of vs me known h proposer True]
      handle_voting_vote_decides_like [of vs1 me known h me valid] 1 2 by simp_all
  with decides_like_seq [OF this] 1 2 ProposalValidated show ?thesis
    by (auto simp: voting_on_block_proposal_validated_def)
qed (simp_all add: voting_on_local_block_proposed_def voting_on_block_vote_def handle_voting_vote_decides_like)

lemma vote_run_decides_like: "decides_like vs (vote_run me es vs)"
proof (induction es arbitrary: vs)
  case Nil
  show ?case by (auto simp: decides_like_def decisions_on_def)
next
  case (Cons e es)
  obtain vs1 effs1 where 1: "vote_step me e vs = (vs1, effs1)" by fastforce
  obtain vs2 effs2 where 2: "vote_run me es vs1 = (vs2, effs2)" by fastforce
  have "decides_like vs (vs1, effs1)" "decides_like vs1 (vs2, effs2)"
    using vote_step_decides_like [of vs me e] Cons [of vs1] 1 2 by simp_all
  then have "decides_like vs (vs2, effs1 @ effs2)" by (rule decides_like_seq)
  with 1 2 show ?case by simp
qed

lemma vote_run_wf: "votings_wf vs \<Longrightarrow> votings_wf (fst (vote_run me es vs))"
proof (induction es arbitrary: vs)
  case (Cons e es)
  obtain vs1 effs1 where 1: "vote_step me e vs = (vs1, effs1)" by fastforce
  then have "votings_wf vs1" using vote_step_wf [of vs me e] Cons.prems by simp
  with Cons.IH [of vs1] 1 show ?case by (auto split: prod.split)
qed simp

lemma vote_run_append:
  "vote_run me (es1 @ es2) vs =
    (let (vs1, effs1) = vote_run me es1 vs; (vs2, effs2) = vote_run me es2 vs1 in (vs2, effs1 @ effs2))"
  by (induction es1 arbitrary: vs) (auto simp: Let_def split: prod.splits)

lemma fst_vote_run_append:
  "fst (vote_run me (es1 @ es2) vs) = fst (vote_run me es2 (fst (vote_run me es1 vs)))"
  by (simp add: vote_run_append split: prod.split)

lemma vote_run_keeps_outcome:
  "outcome_of vs h = Some x \<Longrightarrow> outcome_of (fst (vote_run me es vs)) h = Some x"
  using vote_run_decides_like [of vs me es, unfolded decides_like_def, THEN spec, of h] by simp

section \<open>Quorums\<close>

lemma approval_size: "n \<notin> {2, 3, 6} \<Longrightarrow> n < 2 * (2 * max_faulty n + 1)"
proof (cases "n < 10")
  case True
  moreover assume "n \<notin> {2, 3, 6}"
  ultimately have "n \<in> {0, 1, 4, 5, 7, 8, 9}" by auto
  then show ?thesis by auto
next
  case False
  define f where "f = max_faulty n"
  have "n - 1 < 3 * f + 3" unfolding f_def by (simp add: div_mult_mod_eq [symmetric] mult.commute)
  moreover have "3 \<le> f" unfolding f_def using False div_le_mono [of 9 "n - 1" 3] by simp
  ultimately show ?thesis unfolding f_def [symmetric] by arith
qed

interpretation vq: quorum_system
  "\<lambda>U Q. card U \<notin> {2, 3, 6} \<and> sized_quorum (\<lambda>n. 2 * max_faulty n + 1) U Q"
proof unfold_locales
  fix U P Q :: "'b set"
  assume "card U \<notin> {2, 3, 6} \<and> sized_quorum (\<lambda>n. 2 * max_faulty n + 1) U P"
    "card U \<notin> {2, 3, 6} \<and> sized_quorum (\<lambda>n. 2 * max_faulty n + 1) U Q"
  then show "P \<inter> Q \<noteq> {}" by (intro sized_quorum_inter [of "\<lambda>n. 2 * max_faulty n + 1" U P Q]) (use approval_size [of "card U"] in simp_all)
qed (auto simp: sized_quorum_def)

lemma approved_quorum:
  assumes "voting_wf c" and "outcome c = Some Approved"
  shows "sized_quorum (\<lambda>n. 2 * max_faulty n + 1) (set (participants c)) (set (approvals c))"
  using assms by (auto simp: sized_quorum_def voting_wf_def outcome_justified_def distinct_card)

section \<open>Runs of votes of one kind\<close>

lemma make_vote_pending_step:
  assumes "outcome c = None" "p \<in> set (participants c)"
  shows "make_vote p a c =
    (let c1 = (if a then c\<lparr>approvals := List.insert p (approvals c)\<rparr> else c\<lparr>rejections := List.insert p (rejections c)\<rparr>);
         x = evaluate_outcome (length (participants c)) (length (approvals c1)) (length (rejections c1))
     in (if x \<noteq> Pending then c1\<lparr>outcome := Some x\<rparr> else c1, x))"
  using assms by (simp add: make_vote_def Let_def)

text \<open>A run of equal votes up to the threshold, on a block that has only votes of that kind.\<close>

lemma vote_run_same:
  assumes "vs h = Some c \<or> vs h = None \<and> c = VotingConsensus_new me known" and "outcome c = None"
    and "distinct ps" and "set ps \<subseteq> set (participants c) - set (approvals c) - set (rejections c)" and "ps \<noteq> []"
    and "if a then rejections c = [] \<and> length (approvals c) + length ps = 2 * max_faulty (length (participants c)) + 1
      else approvals c = [] \<and> length (rejections c) + length ps = max 1 (max_faulty (length (participants c)))"
  shows "outcome_of (fst (vote_run me (map (\<lambda>p. VoteReceived h p a known) ps) vs)) h =
    Some (if a then Approved else Rejected)"
  using assms
proof (induction ps arbitrary: vs c)
  case (Cons p ps)
  let ?n = "length (participants c)"
  define c1 where "c1 = (if a then c\<lparr>approvals := List.insert p (approvals c)\<rparr>
    else c\<lparr>rejections := List.insert p (rejections c)\<rparr>)"
  define x where "x = evaluate_outcome ?n (length (approvals c1)) (length (rejections c1))"
  define c2 where "c2 = (if x \<noteq> Pending then c1\<lparr>outcome := Some x\<rparr> else c1)"
  have c1: "participants c1 = participants c" "outcome c1 = None"
      "approvals c1 = (if a then p # approvals c else approvals c)"
      "rejections c1 = (if a then rejections c else p # rejections c)"
    using Cons.prems(2,4) by (auto simp: c1_def)
  have "make_vote p a c = (c2, x)"
    using Cons.prems(2,4) make_vote_pending_step [of c p a] c1(1) by (simp add: Let_def c2_def x_def c1_def)
  then obtain effs where step: "vote_step me (VoteReceived h p a known) vs = (vs(h \<mapsto> c2), effs)"
    using Cons.prems(1,2,4) by (auto simp: voting_on_block_vote_def handle_voting_vote_def already_voted_def Let_def)
  have ev: "x = (if ps = [] then if a then Approved else Rejected else Pending)"
    using Cons.prems(6) c1 evaluate_outcome_cases [of ?n "length (approvals c1)" "length (rejections c1)"]
    unfolding x_def by (cases ps; cases a) auto
  show ?case
  proof (cases "ps = []")
    case True
    with step ev show ?thesis by (simp add: outcome_of_def c2_def)
  next
    case False
    have "outcome_of (fst (vote_run me (map (\<lambda>p. VoteReceived h p a known) ps) (vs(h \<mapsto> c1)))) h =
        Some (if a then Approved else Rejected)"
      using Cons.prems False c1 by (intro Cons.IH [of _ c1]) (auto split: if_splits)
    with step ev False show ?thesis by (auto simp: c2_def split: prod.split)
  qed
qed simp

section \<open>Concrete inputs\<close>

abbreviation test_hash :: BlockHash where
  "test_hash \<equiv> BlockHash [1]"

section \<open>Properties\<close>

text \<open>
  The vote counts keep their invariant along every run of calls from an empty table: votes
  come from participants only, nobody is counted on both sides or twice, an approved block has
  at least \<open>2 f + 1\<close> approvals, a rejected one fewer than that and at least \<open>f\<close> rejections,
  and an undecided one has reached neither threshold.
\<close>
theorem vote_counts_wf:
  "votings_wf (fst (vote_run me es Map.empty))"
  by (rule vote_run_wf) (simp add: votings_wf_def)

text \<open>
  C15. A block is decided at most once: along any run, the commit and rollback effects emitted
  for a block are exactly the one that its final outcome asks for (none while it is undecided),
  and an outcome that was reached stays the same however the run goes on.
\<close>
theorem voting_decides_once:
  assumes "vote_run me (es @ es') Map.empty = (vs', effs')" and "vote_run me es Map.empty = (vs, effs)"
  shows "decisions_on h effs' = decision_effects h (outcome_of vs' h) \<and>
    (outcome_of vs h \<noteq> None \<longrightarrow> outcome_of vs' h = outcome_of vs h \<and> decisions_on h effs' = decisions_on h effs)"
proof -
  have 0: "outcome_of Map.empty h = None" by (simp add: outcome_of_def)
  obtain effs2 where run: "vote_run me es' vs = (vs', effs2)"
    using assms by (auto simp: vote_run_append split: prod.splits)
  have "decides_like Map.empty (vs', effs')" "decides_like Map.empty (vs, effs)" "decides_like vs (vs', effs2)"
    using vote_run_decides_like [of Map.empty me "es @ es'"] vote_run_decides_like [of Map.empty me es]
      vote_run_decides_like [of vs me es'] assms run by simp_all
  from this [unfolded decides_like_def, THEN spec, of h] 0 show ?thesis by (auto split: if_splits)
qed

theorem voting_decides_once_witness:
  "let es = [LocalProposal test_hash [PeerId 2, PeerId 3, PeerId 4], VoteReceived test_hash (PeerId 2) True []];
       es' = [VoteReceived test_hash (PeerId 3) True [], VoteReceived test_hash (PeerId 4) False []]
   in decisions_on test_hash (snd (vote_run (PeerId 1) (es @ es') Map.empty)) = [CommitBlock test_hash]"
  unfolding Let_def
  using voting_decides_once [of "PeerId 1"
      "[LocalProposal test_hash [PeerId 2, PeerId 3, PeerId 4], VoteReceived test_hash (PeerId 2) True []]"
      "[VoteReceived test_hash (PeerId 3) True [], VoteReceived test_hash (PeerId 4) False []]" _ _ _ _ test_hash]
  by (force simp: outcome_of_def voting_on_local_block_proposed_def voting_on_block_vote_def handle_voting_vote_def
      make_vote_def already_voted_def evaluate_outcome_def VotingConsensus_new_def hash_set_from_def)

text \<open>
  C30. Approval quorums: any two sets of participants whose approvals are enough for
  \<open>evaluate_outcome\<close> share a participant, exactly when the number of participants is not 2, 3
  or 6; at those sizes two disjoint sets of participants can approve two blocks.
\<close>
theorem approval_quorums_intersect:
  assumes "finite U"
  shows "(\<forall>P Q. P \<subseteq> U \<and> Q \<subseteq> U \<and> evaluate_outcome (card U) (card P) r = Approved \<and>
      evaluate_outcome (card U) (card Q) s = Approved \<longrightarrow> P \<inter> Q \<noteq> {}) \<longleftrightarrow> card U \<notin> {2, 3, 6}"
proof
  assume inter: "\<forall>P Q. P \<subseteq> U \<and> Q \<subseteq> U \<and> evaluate_outcome (card U) (card P) r = Approved \<and>
      evaluate_outcome (card U) (card Q) s = Approved \<longrightarrow> P \<inter> Q \<noteq> {}"
  show "card U \<notin> {2, 3, 6}"
  proof
    assume "card U \<in> {2, 3, 6}"
    then have "2 * (2 * max_faulty (card U) + 1) \<le> card U" by auto
    from disjoint_sized_sets [OF assms this] inter show False by (auto simp: evaluate_outcome_cases)
  qed
next
  assume "card U \<notin> {2, 3, 6}"
  then show "\<forall>P Q. P \<subseteq> U \<and> Q \<subseteq> U \<and> evaluate_outcome (card U) (card P) r = Approved \<and>
      evaluate_outcome (card U) (card Q) s = Approved \<longrightarrow> P \<inter> Q \<noteq> {}"
    using assms vq.quorum_inter [of U] by (auto simp: evaluate_outcome_cases sized_quorum_def)
qed

theorem approval_quorums_intersect_witness:
  "\<exists>P Q. P \<subseteq> {1::nat..6} \<and> Q \<subseteq> {1..6} \<and> evaluate_outcome 6 (card P) 0 = Approved \<and>
    evaluate_outcome 6 (card Q) 0 = Approved \<and> P \<inter> Q = {}"
  using approval_quorums_intersect [of "{1::nat..6}" 0 0] by auto

text \<open>
  Two blocks that are both approved under the same participants (not 2, 3 or 6 of them)
  were both approved by some participant: if every participant approves at most one of two
  competing blocks, at most one of them is approved, whichever peers count.
\<close>
theorem approved_blocks_share_voter:
  assumes "vs = fst (vote_run me es Map.empty)" and "vs' = fst (vote_run me' es' Map.empty)"
    and "vs h = Some c" and "outcome c = Some Approved" and "vs' h' = Some c'" and "outcome c' = Some Approved"
    and "set (participants c) = set (participants c')" and "card (set (participants c)) \<notin> {2, 3, 6}"
  shows "\<exists>p. p \<in> set (approvals c) \<and> p \<in> set (approvals c')"
proof -
  have wf: "voting_wf c" "voting_wf c'"
    using assms vote_run_wf [of Map.empty me es] vote_run_wf [of Map.empty me' es']
    by (auto simp: votings_wf_def)
  show ?thesis
    using vq.quorum_inter [of "set (participants c)" "set (approvals c)" "set (approvals c')"]
      approved_quorum [OF wf(1) assms(4)] approved_quorum [OF wf(2) assms(6)] assms(7,8)
    by auto
qed

theorem approved_blocks_share_voter_witness:
  "let run = (\<lambda>h. fst (vote_run (PeerId 1) [LocalProposal h []] Map.empty))
   in \<exists>c c' p. run (BlockHash [1]) (BlockHash [1]) = Some c \<and> run (BlockHash [2]) (BlockHash [2]) = Some c' \<and>
     p \<in> set (approvals c) \<and> p \<in> set (approvals c')"
proof -
  let ?c = "\<lparr>participants = [PeerId 1], approvals = [PeerId 1], rejections = [], outcome = Some Approved\<rparr>"
  have run: "fst (vote_run (PeerId 1) [LocalProposal h []] Map.empty) h = Some ?c" for h
    by (simp add: voting_on_local_block_proposed_def handle_voting_vote_def make_vote_def already_voted_def
        evaluate_outcome_def VotingConsensus_new_def hash_set_from_def)
  show ?thesis unfolding Let_def
    using approved_blocks_share_voter [OF refl refl run [of "BlockHash [1]"] _ run [of "BlockHash [2]"]] run by auto
qed

text \<open>
  The order of votes can decide a block: with \<open>2 f + 1\<close> approvals and \<open>f\<close> rejections (one
  rejection when \<open>f = 0\<close>) from different participants, a peer that sees the approvals first
  approves the block and a peer that sees the rejections first rejects it.
\<close>
theorem vote_order_decides:
  assumes "f = max_faulty (card (insert me (set known)))" and "distinct (yes @ no)"
    and "set (yes @ no) \<subseteq> insert me (set known)" and "length yes = 2 * f + 1" and "length no = max 1 f"
  shows "let ys = map (\<lambda>p. VoteReceived h p True known) yes; ns = map (\<lambda>p. VoteReceived h p False known) no
    in outcome_of (fst (vote_run me (ys @ ns) Map.empty)) h = Some Approved \<and>
       outcome_of (fst (vote_run me (ns @ ys) Map.empty)) h = Some Rejected"
proof -
  let ?c = "VotingConsensus_new me known" and ?v = "\<lambda>a. map (\<lambda>p. VoteReceived h p a known)"
  have n: "length (participants ?c) = card (insert me (set known))"
    by (simp add: VotingConsensus_new_def length_set_insert)
  have "yes \<noteq> []" "no \<noteq> []" using assms(4,5) by auto
  then have "outcome_of (fst (vote_run me (?v True yes) Map.empty)) h = Some Approved"
      and "outcome_of (fst (vote_run me (?v False no) Map.empty)) h = Some Rejected"
    using vote_run_same [of Map.empty h ?c me known yes True] vote_run_same [of Map.empty h ?c me known no False]
      assms n by auto
  moreover have "outcome_of (fst (vote_run me (es @ es') Map.empty)) h = Some x"
    if "outcome_of (fst (vote_run me es Map.empty)) h = Some x" for es es' x
    unfolding fst_vote_run_append by (rule vote_run_keeps_outcome [OF that])
  ultimately show ?thesis by (simp add: Let_def)
qed

theorem vote_order_decides_witness:
  "let ys = map (\<lambda>p. VoteReceived test_hash p True [PeerId 2, PeerId 3, PeerId 4]) [PeerId 1, PeerId 2, PeerId 3];
       ns = [VoteReceived test_hash (PeerId 4) False [PeerId 2, PeerId 3, PeerId 4]]
   in outcome_of (fst (vote_run (PeerId 1) (ys @ ns) Map.empty)) test_hash = Some Approved \<and>
      outcome_of (fst (vote_run (PeerId 1) (ns @ ys) Map.empty)) test_hash = Some Rejected"
  using vote_order_decides [of 1 "PeerId 1" "[PeerId 2, PeerId 3, PeerId 4]" "[PeerId 1, PeerId 2, PeerId 3]"
      "[PeerId 4]" test_hash] by (simp add: Let_def)

end
