(* ===== verification/Consensus.thy ===== *)
theory Consensus
  imports Voting Raft_Steps
begin

text \<open>
  \<^verbatim>\<open>src/src/peer/consensus.rs\<close>: the engine that dispatches every call to the voting
  handlers or to the Raft handlers, and the routing of messages to it.
\<close>

datatype ConsensusEngine = VotingEngine PeerId votings | RaftEngine RaftConsensus

datatype consensus_error = RaftFailure raft_error | MustBeValidatedByPeer string

type_synonym consensus_call = "(ConsensusEngine, consensus_error, ConsensusEffect list) step"

definition new_voting :: "PeerId \<Rightarrow> ConsensusEngine" where
  "new_voting peer_id = VotingEngine peer_id Map.empty"

definition new_raft :: "('a) raft_ext_scheme \<Rightarrow> nat \<Rightarrow> instant \<Rightarrow> PeerId \<Rightarrow> consensus_error + ConsensusEngine" where
  "new_raft X draw now peer_id =
    (case RaftConsensus_new X draw now peer_id of Err e \<Rightarrow> Err (RaftFailure e) | Ok r \<Rightarrow> Ok (RaftEngine r))"

definition new_raft_with_storage ::
    "('a) raft_ext_scheme \<Rightarrow> nat \<Rightarrow> instant \<Rightarrow> PeerId \<Rightarrow> AnyRaftLogStore \<Rightarrow> u64 \<Rightarrow> consensus_error + ConsensusEngine" where
  "new_raft_with_storage X draw now peer_id store ci =
    (case new_with_storage X draw now peer_id store ci of
       Err e \<Rightarrow> Err (RaftFailure e)
     | Ok r \<Rightarrow> Ok (RaftEngine r))"

fun requires_tick :: "ConsensusEngine \<Rightarrow> bool" where
  "requires_tick (RaftEngine r) = True"
| "requires_tick (VotingEngine p vs) = False"

fun engine_state :: "ConsensusEngine \<Rightarrow> ConsensusState" where
  "engine_state (VotingEngine p vs) = VotingState"
| "engine_state (RaftEngine r) = raft_state r"

text \<open>A voting handler never fails; a Raft handler's error is returned with the changed state.\<close>

definition voting_call :: "PeerId \<Rightarrow> votings \<times> ConsensusEffect list \<Rightarrow> ConsensusEngine \<times> (consensus_error + ConsensusEffect list)" where
  "voting_call p out = (VotingEngine p (fst out), Ok (snd out))"

definition raft_call ::
    "RaftConsensus \<times> (raft_error + ConsensusEffect list) \<Rightarrow> ConsensusEngine \<times> (consensus_error + ConsensusEffect list)" where
  "raft_call out = (RaftEngine (fst out), map_err RaftFailure (snd out))"

fun on_client_transaction :: "SignedTransaction \<Rightarrow> consensus_call" where
  "on_client_transaction tx (VotingEngine p vs) = (VotingEngine p vs, Ok (voting_on_client_transaction tx))"
| "on_client_transaction tx (RaftEngine r) = raft_call (raft_on_client_transaction tx r)"

fun on_block_created :: "('a) raft_ext_scheme \<Rightarrow> BlockHash \<Rightarrow> consensus_call" where
  "on_block_created X h (VotingEngine p vs) = (VotingEngine p vs, Ok (voting_on_block_created h))"
| "on_block_created X h (RaftEngine r) = raft_call (raft_on_block_created X h r)"

fun on_local_block_proposed :: "BlockHash \<Rightarrow> PeerId list \<Rightarrow> consensus_call" where
  "on_local_block_proposed h known (VotingEngine p vs) = voting_call p (voting_on_local_block_proposed p h known vs)"
| "on_local_block_proposed h known (RaftEngine r) = (RaftEngine r, Ok [])"

fun on_block_proposal_validated :: "BlockHash \<Rightarrow> PeerId \<Rightarrow> bool \<Rightarrow> PeerId list \<Rightarrow> consensus_call" where
  "on_block_proposal_validated h proposer valid known (VotingEngine p vs) =
    voting_call p (voting_on_block_proposal_validated p h proposer valid known vs)"
| "on_block_proposal_validated h proposer valid known (RaftEngine r) = (RaftEngine r, Ok [])"

fun on_block_vote :: "BlockHash \<Rightarrow> PeerId \<Rightarrow> bool \<Rightarrow> PeerId list \<Rightarrow> consensus_call" where
  "on_block_vote h from approve known (VotingEngine p vs) =
    voting_call p (voting_on_block_vote p h from approve known vs)"
| "on_block_vote h from approve known (RaftEngine r) = (RaftEngine r, Ok [])"

fun on_tick :: "('a) raft_ext_scheme \<Rightarrow> instant \<Rightarrow> PeerId list \<Rightarrow> consensus_call" where
  "on_tick X now known (VotingEngine p vs) = (VotingEngine p vs, Ok [])"
| "on_tick X now known (RaftEngine r) = raft_call (raft_on_tick X now known r)"

fun on_request_vote :: "u64 \<Rightarrow> PeerId \<Rightarrow> u64 \<Rightarrow> u64 \<Rightarrow> PeerId \<Rightarrow> consensus_call" where
  "on_request_vote t cand li lt from (VotingEngine p vs) = (VotingEngine p vs, Ok [])"
| "on_request_vote t cand li lt from (RaftEngine r) = raft_call (raft_on_request_vote t cand li lt from r)"

fun on_request_vote_response :: "('a) raft_ext_scheme \<Rightarrow> u64 \<Rightarrow> PeerId \<Rightarrow> bool \<Rightarrow> consensus_call" where
  "on_request_vote_response X t voter granted (VotingEngine p vs) = (VotingEngine p vs, Ok [])"
| "on_request_vote_response X t voter granted (RaftEngine r) = raft_call (raft_on_request_vote_response X t voter granted r)"

fun on_append_entries ::
    "('a) raft_ext_scheme \<Rightarrow> nat \<Rightarrow> u64 \<Rightarrow> PeerId \<Rightarrow> u64 \<Rightarrow> u64 \<Rightarrow> RaftReplicatedBlock list \<Rightarrow> u64 \<Rightarrow> PeerId \<Rightarrow> instant \<Rightarrow>
     consensus_call" where
  "on_append_entries X draw t leader pi pt es lc from now (VotingEngine p vs) = (VotingEngine p vs, Ok [])"
| "on_append_entries X draw t leader pi pt es lc from now (RaftEngine r) =
    raft_call (raft_on_append_entries X draw t leader pi pt es lc from now r)"

fun on_append_entries_response ::
    "('a) raft_ext_scheme \<Rightarrow> u64 \<Rightarrow> PeerId \<Rightarrow> bool \<Rightarrow> u64 \<Rightarrow> consensus_call" where
  "on_append_entries_response X t from success mi (VotingEngine p vs) = (VotingEngine p vs, Ok [])"
| "on_append_entries_response X t from success mi (RaftEngine r) =
    raft_call (raft_on_append_entries_response X t from success mi r)"

fun take_pending_raft_block :: "BlockHash \<Rightarrow> ConsensusEngine \<Rightarrow> ConsensusEngine \<times> BlockFile option" where
  "take_pending_raft_block h (VotingEngine p vs) = (VotingEngine p vs, None)"
| "take_pending_raft_block h (RaftEngine r) = (case take_pending_block h r of (r', b) \<Rightarrow> (RaftEngine r', b))"

fun on_message :: "('a) raft_ext_scheme \<Rightarrow> nat \<Rightarrow> PeerId \<Rightarrow> MessageBody \<Rightarrow> instant \<Rightarrow> consensus_call" where
  "on_message X draw from (RaftRequestVote t cand li lt) now c = on_request_vote t cand li lt from c"
| "on_message X draw from (RaftRequestVoteResponse t granted) now c = on_request_vote_response X t from granted c"
| "on_message X draw from (RaftAppendEntries t leader pi pt es lc) now c =
    on_append_entries X draw t leader pi pt es lc from now c"
| "on_message X draw from (RaftAppendEntriesResponse t success mi) now c =
    on_append_entries_response X t from success mi c"
| "on_message X draw from other now c = (c, Err (MustBeValidatedByPeer (MessageBody_fmt other)))"

end
