(* ===== verification/Rest_Network.thy ===== *)
theory Rest_Network
  imports Messages
begin

text \<open>
  \<^verbatim>\<open>src/src/network/mod.rs\<close> and the parts of \<^verbatim>\<open>src/src/network/rest_network.rs\<close> that
  the peer uses: the peer table kept from the discovery service, sending and broadcasting, and
  handing received messages to the peer's channel. A spawned HTTP request is recorded in the
  list of started requests; whether it arrives is not modelled.
\<close>

datatype SocketAddr = SocketAddr (ip: "u8 list") (port: u16)

datatype NetworkMessage =
    GetLatestBlockState
  | GetBlockState u32
  | GetBlock u32
  | PeerMessage Message
  | Register PeerId SocketAddr
  | GetPeers

datatype http_method = GET | POST

text \<open>\<^verbatim>\<open>src/src/network/network_constants.rs\<close>\<close>

definition REGISTER_PATH :: string where
  "REGISTER_PATH = ''/register''"

definition GET_PEERS_PATH :: string where
  "GET_PEERS_PATH = ''/peers''"

definition HANDLE_PEER_MESSAGE_PATH :: string where
  "HANDLE_PEER_MESSAGE_PATH = ''/handle''"

definition LATEST_BLOCK_STATE_PATH :: string where
  "LATEST_BLOCK_STATE_PATH = ''/block/state/latest''"

definition PEER_STATE_PATH :: string where
  "PEER_STATE_PATH = ''/peer/state''"

definition TRANSACTIONS_PATH :: string where
  "TRANSACTIONS_PATH = ''/transactions''"

definition TEST_TRANSACTIONS_PATH :: string where
  "TEST_TRANSACTIONS_PATH = ''/test/transactions''"

fun path :: "NetworkMessage \<Rightarrow> string" where
  "path GetLatestBlockState = LATEST_BLOCK_STATE_PATH"
| "path (GetBlockState idx) = ''/block/state/'' @ show_nat (unat idx)"
| "path (GetBlock idx) = ''/block/'' @ show_nat (unat idx)"
| "path (PeerMessage _) = HANDLE_PEER_MESSAGE_PATH"
| "path (Register _ _) = REGISTER_PATH"
| "path GetPeers = GET_PEERS_PATH"

fun method_of :: "NetworkMessage \<Rightarrow> http_method" where
  "method_of GetLatestBlockState = GET"
| "method_of (GetBlockState _) = GET"
| "method_of (GetBlock _) = GET"
| "method_of (PeerMessage _) = POST"
| "method_of (Register _ _) = POST"
| "method_of GetPeers = GET"

record RestNetwork =
  rn_peer_id :: PeerId
  rn_known_peers :: "(PeerId \<times> SocketAddr) list"
  started_requests :: "(SocketAddr \<times> NetworkMessage) list"
  peer_channel :: "Message list"
  channel_capacity :: nat
  receiver_alive :: bool

datatype network_error = ChannelFull | ChannelClosed

definition RestNetwork_new :: "PeerId \<Rightarrow> nat \<Rightarrow> RestNetwork" where
  "RestNetwork_new p capacity = \<lparr>rn_peer_id = p, rn_known_peers = [], started_requests = [], peer_channel = [],
    channel_capacity = capacity, receiver_alive = True\<rparr>"

definition known_peers :: "RestNetwork \<Rightarrow> PeerId list" where
  "known_peers net = map fst (rn_known_peers net)"

text \<open>The loop of \<open>update_peers\<close> over the peers that the discovery service returned.\<close>

fun insert_peers :: "PeerId \<Rightarrow> (PeerId \<times> SocketAddr) list \<Rightarrow> (PeerId \<times> SocketAddr) list \<Rightarrow> (PeerId \<times> SocketAddr) list" where
  "insert_peers me [] m = m"
| "insert_peers me ((p, a) # ps) m = insert_peers me ps (if p \<noteq> me then AList.update p a m else m)"

definition update_peers :: "'e + (PeerId \<times> SocketAddr) list \<Rightarrow> (RestNetwork, 'e, unit) step" where
  "update_peers response net =
    (case response of
       Err e \<Rightarrow> (net, Err e)
     | Ok peers \<Rightarrow> (net\<lparr>rn_known_peers := insert_peers (rn_peer_id net) peers []\<rparr>, Ok ()))"

definition send_peer_message :: "Message \<Rightarrow> RestNetwork \<Rightarrow> RestNetwork" where
  "send_peer_message message net =
    (case map_of (rn_known_peers net) (msg_to message) of
       Some addr \<Rightarrow> net\<lparr>started_requests := started_requests net @ [(addr, PeerMessage message)]\<rparr>
     | None \<Rightarrow> net)"

fun broadcast_to :: "MessageBody \<Rightarrow> PeerId \<Rightarrow> (PeerId \<times> SocketAddr) list \<Rightarrow> RestNetwork \<Rightarrow> RestNetwork" where
  "broadcast_to body from [] net = net"
| "broadcast_to body from ((p, addr) # ps) net =
    broadcast_to body from ps
      (if p \<noteq> from
       then net\<lparr>started_requests := started_requests net @
              [(addr, PeerMessage \<lparr>msg_from = from, msg_to = p, msg_body = body\<rparr>)]\<rparr>
       else net)"

definition broadcast_peer_message :: "MessageBody \<Rightarrow> PeerId \<Rightarrow> RestNetwork \<Rightarrow> RestNetwork" where
  "broadcast_peer_message body from net = broadcast_to body from (rn_known_peers net) net"

definition on_message_received :: "Message \<Rightarrow> (RestNetwork, network_error, unit) step" where
  "on_message_received message net =
    (if \<not> receiver_alive net then (net, Err ChannelClosed)
     else if channel_capacity net \<le> length (peer_channel net) then (net, Err ChannelFull)
     else (net\<lparr>peer_channel := peer_channel net @ [message]\<rparr>, Ok ()))"

definition receive_client_message :: "MessageBody \<Rightarrow> (RestNetwork, network_error, unit) step" where
  "receive_client_message body net =
    on_message_received \<lparr>msg_from = PeerId 0, msg_to = rn_peer_id net, msg_body = body\<rparr> net"

text \<open>
  Requests that wait for the answer. The HTTP client is a parameter: what a request to an address
  yields, \<open>None\<close> when it fails, and otherwise the response, with the text of its body or with \<open>None\<close>
  when the body cannot be read; so is the JSON decoder of the type the caller expects.
  \<^verbatim>\<open>deserialize_resp\<close> unwraps the text: an unreadable body is a panic of the task that called it.
  The model marks it by \<open>BodyUnreadable\<close>, and the caller must not go on with such a result.
\<close>

datatype request_error = PeerNotFound | RequestFailed | ResponseMalformed | BodyUnreadable

type_synonym transport = "SocketAddr \<Rightarrow> NetworkMessage \<Rightarrow> string option option"

definition deserialize_resp :: "(string \<Rightarrow> 't option) \<Rightarrow> string option \<Rightarrow> request_error + 't" where
  "deserialize_resp dec body =
    (case body of
       None \<Rightarrow> Err BodyUnreadable
     | Some text \<Rightarrow> (case dec text of Some v \<Rightarrow> Ok v | None \<Rightarrow> Err ResponseMalformed))"

definition request_result ::
    "transport \<Rightarrow> (string \<Rightarrow> 't option) \<Rightarrow> NetworkMessage \<Rightarrow> SocketAddr \<Rightarrow> request_error + 't" where
  "request_result http dec m addr =
    (case http addr m of None \<Rightarrow> Err RequestFailed | Some body \<Rightarrow> deserialize_resp dec body)"

definition send_and_wait ::
    "transport \<Rightarrow> (string \<Rightarrow> 't option) \<Rightarrow> PeerId \<Rightarrow> NetworkMessage \<Rightarrow> RestNetwork \<Rightarrow> request_error + 't" where
  "send_and_wait http dec p m net =
    (case map_of (rn_known_peers net) p of
       Some addr \<Rightarrow> request_result http dec m addr
     | None \<Rightarrow> Err PeerNotFound)"

fun spawn_requests ::
    "(PeerId \<times> SocketAddr) list \<Rightarrow> PeerId list \<Rightarrow> (PeerId \<times> SocketAddr) list \<Rightarrow>
     (PeerId \<times> SocketAddr) list \<times> (PeerId \<times> (request_error + 't)) list" where
  "spawn_requests known [] handles = (handles, [])"
| "spawn_requests known (p # ps) handles =
    (case map_of known p of
       None \<Rightarrow> (handles, [(p, Err PeerNotFound)])
     | Some addr \<Rightarrow> spawn_requests known ps (AList.update p addr handles))"

definition send_to_all ::
    "transport \<Rightarrow> (string \<Rightarrow> 't option) \<Rightarrow> NetworkMessage \<Rightarrow> PeerId list \<Rightarrow> RestNetwork \<Rightarrow>
     (PeerId \<times> (request_error + 't)) list" where
  "send_to_all http dec m ps net =
    (case spawn_requests (rn_known_peers net) ps [] of
       (handles, results) \<Rightarrow>
         fold (\<lambda>(p, addr). AList.update p (request_result http dec m addr)) handles results)"

definition send_and_wait_for_all ::
    "transport \<Rightarrow> (string \<Rightarrow> 't option) \<Rightarrow> NetworkMessage \<Rightarrow> PeerId list \<Rightarrow> RestNetwork \<Rightarrow>
     (PeerId \<times> (request_error + 't)) list" where
  "send_and_wait_for_all http dec m ps net = send_to_all http dec m ps net"

lemmas path_consts = REGISTER_PATH_def GET_PEERS_PATH_def HANDLE_PEER_MESSAGE_PATH_def LATEST_BLOCK_STATE_PATH_def
  PEER_STATE_PATH_def TRANSACTIONS_PATH_def TEST_TRANSACTIONS_PATH_def

section \<open>The network interface\<close>

text \<open>
  What the peer's effects rely on (\<open>NetworkInterface\<close>): a message is handed over exactly if its
  addressee is known, a broadcast goes once to every known peer but the sender, and neither
  changes the known peers.
\<close>

locale network_interface =
  fixes send :: "Message \<Rightarrow> 'n \<Rightarrow> 'n"
    and broadcast :: "MessageBody \<Rightarrow> PeerId \<Rightarrow> 'n \<Rightarrow> 'n"
    and known :: "'n \<Rightarrow> PeerId list"
    and handed :: "'n \<Rightarrow> Message list"
  assumes handed_send: "handed (send m n) = handed n @ (if msg_to m \<in> set (known n) then [m] else [])"
    and handed_broadcast: "handed (broadcast b f n) =
      handed n @ map (\<lambda>p. \<lparr>msg_from = f, msg_to = p, msg_body = b\<rparr>) (filter (\<lambda>p. p \<noteq> f) (known n))"
    and known_send: "known (send m n) = known n"
    and known_broadcast: "known (broadcast b f n) = known n"
begin

lemma only_known_addressees:
  assumes "\<And>m. m \<in> set (handed n) \<Longrightarrow> msg_to m \<in> set (known n)"
  shows "m \<in> set (handed (send m' n)) \<Longrightarrow> msg_to m \<in> set (known (send m' n))"
    and "m \<in> set (handed (broadcast b f n)) \<Longrightarrow> msg_to m \<in> set (known (broadcast b f n))"
  using assms by (auto simp: handed_send handed_broadcast known_send known_broadcast split: if_splits)

lemma broadcast_is_sends:
  "handed (broadcast b f n) = handed (fold (\<lambda>p. send \<lparr>msg_from = f, msg_to = p, msg_body = b\<rparr>) (filter (\<lambda>p. p \<noteq> f) (known n)) n)"
proof -
  have "handed (fold (\<lambda>p. send \<lparr>msg_from = f, msg_to = p, msg_body = b\<rparr>) ps n) =
      handed n @ map (\<lambda>p. \<lparr>msg_from = f, msg_to = p, msg_body = b\<rparr>) ps" if "set ps \<subseteq> set (known n)" for ps n
    using that by (induction ps arbitrary: n) (auto simp: handed_send known_send)
  from this [of "filter (\<lambda>p. p \<noteq> f) (known n)" n] show ?thesis by (auto simp: handed_broadcast)
qed

end

fun request_message :: "NetworkMessage \<Rightarrow> Message list" where
  "request_message (PeerMessage m) = [m]"
| "request_message _ = []"

definition handed_over :: "RestNetwork \<Rightarrow> Message list" where
  "handed_over net = concat (map (request_message \<circ> snd) (started_requests net))"

lemma broadcast_to_sel:
  "rn_known_peers (broadcast_to b f ps net) = rn_known_peers net"
  "handed_over (broadcast_to b f ps net) =
    handed_over net @ map (\<lambda>p. \<lparr>msg_from = f, msg_to = p, msg_body = b\<rparr>) (filter (\<lambda>p. p \<noteq> f) (map fst ps))"
  by (induction b f ps net rule: broadcast_to.induct) (auto simp: handed_over_def)

interpretation rn: network_interface send_peer_message broadcast_peer_message known_peers handed_over
proof unfold_locales
  fix m n b f
  show "handed_over (send_peer_message m n) = handed_over n @ (if msg_to m \<in> set (known_peers n) then [m] else [])"
    by (auto simp: send_peer_message_def handed_over_def known_peers_def map_of_eq_None_iff split: option.split)
      (force dest: map_of_SomeD)
  show "handed_over (broadcast_peer_message b f n) =
      handed_over n @ map (\<lambda>p. \<lparr>msg_from = f, msg_to = p, msg_body = b\<rparr>) (filter (\<lambda>p. p \<noteq> f) (known_peers n))"
    by (simp add: broadcast_peer_message_def broadcast_to_sel known_peers_def)
  show "known_peers (send_peer_message m n) = known_peers n"
    by (simp add: send_peer_message_def known_peers_def split: option.split)
  show "known_peers (broadcast_peer_message b f n) = known_peers n"
    by (simp add: broadcast_peer_message_def broadcast_to_sel known_peers_def)
qed

section \<open>The peer table\<close>

lemma insert_peers_map:
  "map_of (insert_peers me ps m) p =
    (if p \<noteq> me \<and> p \<in> fst ` set ps then map_of (rev ps) p else map_of m p)"
proof (induction me ps m arbitrary: p rule: insert_peers.induct)
  case (2 me q a ps m)
  have "map_of (rev ps) p = None \<longleftrightarrow> p \<notin> fst ` set ps" by (simp add: map_of_eq_None_iff)
  with 2 show ?case by (auto simp: hm.get_ins map_add_def split: option.split)
qed simp

lemma insert_peers_distinct: "keys_distinct m \<Longrightarrow> keys_distinct (insert_peers me ps m)"
  by (induction me ps m rule: insert_peers.induct) (auto simp: hm.invar_ins)

section \<open>Requests to many peers\<close>

abbreviation known_prefix :: "RestNetwork \<Rightarrow> PeerId list \<Rightarrow> PeerId list" where
  "known_prefix net ps \<equiv> takeWhile (\<lambda>p. p \<in> set (known_peers net)) ps"

lemma map_of_known: "map_of (rn_known_peers net) p = None \<longleftrightarrow> p \<notin> set (known_peers net)"
  by (simp add: known_peers_def map_of_eq_None_iff)

lemma spawn_requests_handles:
  "map_of (fst (spawn_requests (rn_known_peers net) ps hs)) p =
    (if p \<in> set (known_prefix net ps) then map_of (rn_known_peers net) p else map_of hs p)"
  by (induction ps arbitrary: hs)
    (auto simp: map_of_known update_conv' split: option.split dest: map_of_known [THEN iffD2])

lemma spawn_requests_keys:
  "distinct (map fst hs) \<Longrightarrow> distinct (map fst (fst (spawn_requests known ps hs)))"
  by (induction ps arbitrary: hs) (auto simp: distinct_update split: option.split)

lemma spawn_requests_results:
  "snd (spawn_requests (rn_known_peers net) ps hs) =
    (case dropWhile (\<lambda>p. p \<in> set (known_peers net)) ps of [] \<Rightarrow> [] | p # _ \<Rightarrow> [(p, Err PeerNotFound)])"
  by (induction ps arbitrary: hs) (auto simp: map_of_known split: option.split dest: map_of_known [THEN iffD2])

lemma map_of_fold_update:
  "distinct (map fst hs) \<Longrightarrow>
    map_of (fold (\<lambda>(p, a). AList.update p (f a)) hs rs) p =
    (case map_of hs p of Some a \<Rightarrow> Some (f a) | None \<Rightarrow> map_of rs p)"
  by (induction hs arbitrary: rs) (auto simp: update_conv' map_of_eq_None_iff [symmetric] split: option.split)

lemma send_to_all_result:
  fixes dec :: "string \<Rightarrow> 'v option"
  shows "map_of (send_to_all http dec m ps net) p =
    (if p \<in> set (known_prefix net ps) then Some (send_and_wait http dec p m net)
     else case dropWhile (\<lambda>p. p \<in> set (known_peers net)) ps of
            [] \<Rightarrow> None
          | q # _ \<Rightarrow> if p = q then Some (Err PeerNotFound) else None)"
proof -
  define out :: "_ \<times> (PeerId \<times> (request_error + 'v)) list"
    where "out = spawn_requests (rn_known_peers net) ps []"
  have d: "distinct (map fst (fst out))"
    unfolding out_def by (rule spawn_requests_keys) simp
  have hs: "map_of (fst out) p = (if p \<in> set (known_prefix net ps) then map_of (rn_known_peers net) p else None)"
    unfolding out_def by (simp add: spawn_requests_handles)
  have rs: "snd out = (case dropWhile (\<lambda>p. p \<in> set (known_peers net)) ps of [] \<Rightarrow> [] | p # _ \<Rightarrow> [(p, Err PeerNotFound)])"
    unfolding out_def by (rule spawn_requests_results)
  have "p \<in> set (known_prefix net ps) \<Longrightarrow> map_of (rn_known_peers net) p \<noteq> None"
    by (metis map_of_known set_takeWhileD)
  then show ?thesis
    by (cases "dropWhile (\<lambda>p. p \<in> set (known_peers net)) ps")
      (auto simp: send_to_all_def out_def [symmetric] case_prod_unfold map_of_fold_update [OF d, unfolded case_prod_unfold]
        hs rs send_and_wait_def simp del: dropWhile_eq_Nil_conv)
qed

section \<open>Properties\<close>

text \<open>
  After a successful refresh the known peers are exactly the peers the discovery service
  listed, without the peer itself and without duplicates, each with the address listed last; a
  broadcast then hands over one message to each of them and a failed refresh changes nothing.
\<close>
theorem update_peers_spec:
  "case update_peers response net of
     (net', Err e) \<Rightarrow> net' = net \<and> response = Err e
   | (net', Ok _) \<Rightarrow> \<exists>peers. response = Ok peers \<and> distinct (known_peers net') \<and>
       set (known_peers net') = fst ` set peers - {rn_peer_id net} \<and>
       (\<forall>p \<in> set (known_peers net'). map_of (rn_known_peers net') p = map_of (rev peers) p) \<and>
       handed_over (broadcast_peer_message body (rn_peer_id net) net') = handed_over net' @
         map (\<lambda>p. \<lparr>msg_from = rn_peer_id net, msg_to = p, msg_body = body\<rparr>) (known_peers net')"
proof (cases response)
  case (Inr peers)
  let ?m = "insert_peers (rn_peer_id net) peers []" and ?net = "net\<lparr>rn_known_peers := insert_peers (rn_peer_id net) peers []\<rparr>"
  have dom: "fst ` set ?m = fst ` set peers - {rn_peer_id net}"
  proof -
    have "p \<in> fst ` set ?m \<longleftrightarrow> p \<in> fst ` set peers \<and> p \<noteq> rn_peer_id net" for p
      using insert_peers_map [of "rn_peer_id net" peers "[]" p] map_of_eq_None_iff [of ?m p]
        map_of_eq_None_iff [of "rev peers" p] by (cases "p \<in> fst ` set peers"; cases "p = rn_peer_id net") auto
    then show ?thesis by auto
  qed
  have "distinct (map fst ?m)" using insert_peers_distinct [of "[]"] by (simp add: keys_distinct_def)
  moreover have "filter (\<lambda>p. p \<noteq> rn_peer_id net) (known_peers ?net) = known_peers ?net"
    using dom by (auto simp: known_peers_def filter_id_conv)
  moreover have "\<forall>p \<in> fst ` set ?m. map_of ?m p = map_of (rev peers) p"
    using dom insert_peers_map [of "rn_peer_id net" peers "[]"] by auto
  ultimately show ?thesis using dom Inr rn.handed_broadcast [of body "rn_peer_id net" ?net]
    by (auto simp: update_peers_def known_peers_def)
qed (simp add: update_peers_def)

theorem update_peers_spec_witness:
  "set (known_peers (fst (update_peers (Ok [(PeerId 1, SocketAddr [127, 0, 0, 1] 3001), (PeerId 2, SocketAddr [127, 0, 0, 1] 3002)])
    (RestNetwork_new (PeerId 1) 10)))) = {PeerId 2}"
  using update_peers_spec [where response = "Ok [(PeerId 1, SocketAddr [127, 0, 0, 1] 3001), (PeerId 2, SocketAddr [127, 0, 0, 1] 3002)]"
      and net = "RestNetwork_new (PeerId 1) 10" and body = "BlockReject EMPTY_HASH"]
  by (simp add: RestNetwork_new_def update_peers_def)

end
