(* ===== verification/Block_Store.thy ===== *)
theory Block_Store
  imports Storage
begin

text \<open>
  What the block directory holds: file names and their order, the committed blocks as a list
  (the abstraction of the directory), the chain invariant that commits keep, recovery of the
  storage state when a keeper is created on an existing directory, and what rolling a block
  back does to the keeper.
\<close>

section \<open>Vocabulary\<close>

fun committed_blocks :: "('a) block_ext_scheme \<Rightarrow> Disk \<Rightarrow> nat \<Rightarrow> BlockFile list option" where
  "committed_blocks X d 0 = Some []"
| "committed_blocks X d (Suc n) =
    (case committed_blocks X d n of
       None \<Rightarrow> None
     | Some bs \<Rightarrow>
         (case read_from_disk_by_index X d (word_of_nat (Suc n)) of
            Err _ \<Rightarrow> None
          | Ok b \<Rightarrow> Some (bs @ [b])))"

text \<open>Block \<open>n\<close> of the list names the hash of the one before it, carries its own height and hash.\<close>

fun chain_linked :: "('a) block_ext_scheme \<Rightarrow> BlockHash \<Rightarrow> nat \<Rightarrow> BlockFile list \<Rightarrow> bool" where
  "chain_linked X h n [] = True"
| "chain_linked X h n (b # bs) = (bf_previous_hash b = h \<and> unat (bf_index b) = n \<and>
     calculate_hash X (bf_transactions b) (bf_previous_hash b) = bf_hash b \<and>
     chain_linked X (bf_hash b) (Suc n) bs)"

definition chain_tip :: "BlockHash \<Rightarrow> BlockFile list \<Rightarrow> BlockHash" where
  "chain_tip h bs = (if bs = [] then h else bf_hash (last bs))"

definition block_names :: "('a) block_ext_scheme \<Rightarrow> Disk \<Rightarrow> string set" where
  "block_names X d = {f \<in> fst ` set (files d). block_captures X f \<noteq> None}"

definition keeper_blocks :: "('a) block_ext_scheme \<Rightarrow> BlockKeeper \<Rightarrow> BlockFile list option" where
  "keeper_blocks X k = committed_blocks X (path_to_blocks k) (unat (block_height (block_storage_state k)))"

definition store_ok :: "('a) block_ext_scheme \<Rightarrow> BlockKeeper \<Rightarrow> bool" where
  "store_ok X k \<longleftrightarrow>
    (\<exists>bs. keeper_blocks X k = Some bs \<and> chain_linked X EMPTY_HASH 1 bs \<and>
      last_commited_hash (block_storage_state k) = chain_tip EMPTY_HASH bs) \<and>
    block_names X (path_to_blocks k) =
      (\<lambda>i. block_filename_for_index (word_of_nat i)) ` {1..unat (block_height (block_storage_state k))}"

text \<open>The block that may be committed next.\<close>

definition extends_tip :: "BlockKeeper \<Rightarrow> BlockFile \<Rightarrow> bool" where
  "extends_tip k b \<longleftrightarrow> bf_previous_hash b = last_commited_hash (block_storage_state k) \<and>
    bf_index b = block_height (block_storage_state k) + 1"

text \<open>The environment of a commit: the block's JSON decodes and its file can be read.\<close>

definition stores_block :: "('a) block_ext_scheme \<Rightarrow> BlockKeeper \<Rightarrow> BlockFile \<Rightarrow> bool" where
  "stores_block X k b \<longleftrightarrow> block_from_slice X (block_to_vec X b) = Some b \<and>
    block_filename_for_index (block_height (block_storage_state k) + 1) \<notin> read_failures (path_to_blocks k)"

section \<open>File names\<close>

lemma digits_val_foldl:
  "foldl (\<lambda>acc c. 10 * acc + (of_char c - 48)) a s = a * 10 ^ length s + digits_val s"
proof (induction s arbitrary: a)
  case (Cons c s)
  have "foldl (\<lambda>acc c. 10 * acc + (of_char c - 48)) a (c # s) = (10 * a + (of_char c - 48)) * 10 ^ length s + digits_val s"
    using Cons.IH [of "10 * a + (of_char c - 48)"] by simp
  moreover have "digits_val (c # s) = (of_char c - 48) * 10 ^ length s + digits_val s"
    using Cons.IH [of "of_char c - 48"] by (simp add: digits_val_def)
  ultimately show ?case by (simp add: algebra_simps)
qed (simp add: digits_val_def)

lemma digits_val_Cons: "digits_val (c # s) = (of_char c - 48) * 10 ^ length s + digits_val s"
  using digits_val_foldl [of "of_char c - 48" s] by (simp add: digits_val_def)

lemma digits_val_less: "list_all is_digit s \<Longrightarrow> digits_val s < 10 ^ length s"
proof (induction s)
  case (Cons c s)
  then have "digits_val s < 10 ^ length s" and "of_char c - 48 \<le> (9::nat)" by (auto simp: is_digit_def)
  then have "(of_char c - 48) * 10 ^ length s + digits_val s < 9 * 10 ^ length s + 10 ^ length s"
    by (intro add_le_less_mono mult_right_mono) auto
  then show ?case by (simp add: digits_val_Cons)
qed (simp add: digits_val_def)

lemma digits_order:
  "\<lbrakk>length s = length t; list_all is_digit s; list_all is_digit t; digits_val s < digits_val t\<rbrakk> \<Longrightarrow> s < t"
proof (induction s t rule: list_induct2)
  case (Cons c s d t)
  have s: "digits_val s < 10 ^ length t" and t: "digits_val t < 10 ^ length t"
    using Cons.prems Cons.hyps digits_val_less [of s] digits_val_less [of t] by auto
  have dig: "48 \<le> (of_char c :: nat)" "48 \<le> (of_char d :: nat)" using Cons.prems by (auto simp: is_digit_def)
  have lt: "(of_char c - 48) * 10 ^ length t + digits_val s < (of_char d - 48) * 10 ^ length t + digits_val t"
    using Cons.prems(3) Cons.hyps by (simp add: digits_val_Cons)
  have "(of_char c :: nat) \<le> of_char d"
  proof (rule ccontr)
    assume "\<not> (of_char c :: nat) \<le> of_char d"
    then have "of_char d - 48 + 1 \<le> (of_char c - 48 :: nat)" using dig by simp
    then have "(of_char d - 48 + 1) * 10 ^ length t \<le> (of_char c - 48 :: nat) * 10 ^ length t" by (rule mult_le_mono1)
    with lt t show False by simp
  qed
  moreover have "s < t" if "(of_char c :: nat) = of_char d" using lt that Cons by simp
  ultimately show ?case by (auto simp: less_char_def le_less of_char_eq_iff)
qed (simp add: digits_val_def)

lemma append_same_less: "length s = length t \<Longrightarrow> s < t \<Longrightarrow> s @ u < t @ (u :: string)"
  by (induction s t rule: list_induct2) auto

lemma length_show_nat: "n < 10 ^ k \<Longrightarrow> 0 < k \<Longrightarrow> length (show_nat n) \<le> k"
proof (induction n arbitrary: k rule: show_nat.induct)
  case (1 n)
  show ?case
  proof (cases "n < 10")
    case True
    with 1 show ?thesis by (simp add: show_nat.simps [of n])
  next
    case False
    then have "k \<noteq> 1" using "1.prems"(1) by auto
    with "1.prems"(2) obtain j where j: "k = Suc j" "0 < j" by (cases k) auto
    with False "1.prems" have "n div 10 < 10 ^ j" by (simp add: less_mult_imp_div_less mult.commute)
    with False 1 j have "length (show_nat (n div 10)) \<le> j" by simp
    with False j show ?thesis by (simp add: show_nat.simps [of n])
  qed
qed

lemma zero_pad_digits: "list_all is_digit (zero_pad w (show_nat n))"
  using show_nat_digits [of n] by (auto simp: zero_pad_def list_all_iff)

lemma length_zero_pad: "length s \<le> w \<Longrightarrow> length (zero_pad w s) = w"
  by (simp add: zero_pad_def)

lemma parse_filename: "parse_u32 (zero_pad 5 (show_nat (unat ix))) = Some ix"
  using unat_less_pow32 [of ix] by (simp add: parse_u32_pad)

lemma filename_inj: "block_filename_for_index i = block_filename_for_index j \<longleftrightarrow> i = j"
proof
  assume "block_filename_for_index i = block_filename_for_index j"
  then have "parse_u32 (zero_pad 5 (show_nat (unat i))) = parse_u32 (zero_pad 5 (show_nat (unat j)))"
    unfolding block_filename_for_index_def append_same_eq by (rule arg_cong)
  then show "i = j" unfolding parse_filename by simp
qed simp

lemma zero_pad_nonempty: "zero_pad w (show_nat n) \<noteq> []"
  by (simp add: zero_pad_def show_nat.simps [of n])

lemma filename_captures:
  "block_pattern_correct X \<Longrightarrow>
    block_captures X (block_filename_for_index ix) = Some (zero_pad 5 (show_nat (unat ix)))"
  using zero_pad_digits [of 5 "unat ix"]
  by (simp add: block_pattern_correct_def block_filename_for_index_def zero_pad_nonempty)

lemma filename_less:
  assumes "unat i < unat j" and "unat j < 100000"
  shows "block_filename_for_index i < block_filename_for_index j"
proof -
  have "length (zero_pad 5 (show_nat (unat m))) = 5" if "unat m < 100000" for m :: u32
    using length_show_nat [of "unat m" 5] that by (simp add: length_zero_pad)
  with assms show ?thesis unfolding block_filename_for_index_def
    by (intro append_same_less digits_order zero_pad_digits) (simp_all add: zero_pad_def digits_val_pad)
qed

section \<open>Reading and writing\<close>

lemma read_from_disk_update:
  "read_from_disk X (d\<lparr>files := AList.update n c (files d)\<rparr>) m =
    (if m = n then (if n \<in> read_failures d then Err (FailedToReadBlockFile n)
       else (case block_from_slice X c of None \<Rightarrow> Err (FailedToDeserializeBlockFile n) | Some b \<Rightarrow> Ok b))
     else read_from_disk X d m)"
  by (simp add: read_from_disk_def hm.get_ins split: option.split)

lemma committed_blocks_frame:
  assumes "\<And>i. 1 \<le> i \<Longrightarrow> i \<le> n \<Longrightarrow>
    read_from_disk_by_index X d' (word_of_nat i) = read_from_disk_by_index X d (word_of_nat i)"
  shows "committed_blocks X d' n = committed_blocks X d n"
  using assms
proof (induction n)
  case (Suc n)
  then have "committed_blocks X d' n = committed_blocks X d n" by simp
  moreover have "read_from_disk_by_index X d' (word_of_nat (Suc n)) = read_from_disk_by_index X d (word_of_nat (Suc n))"
    by (rule Suc.prems) simp_all
  ultimately show ?case by (simp del: of_nat_Suc split: option.split)
qed simp

lemma committed_blocks_length: "committed_blocks X d n = Some bs \<Longrightarrow> length bs = n"
  by (induction n arbitrary: bs) (auto split: option.splits sum.splits)

lemma word_of_nat_eq_u32:
  "i < 2 ^ 32 \<Longrightarrow> j < 2 ^ 32 \<Longrightarrow> (word_of_nat i = (word_of_nat j :: u32)) \<longleftrightarrow> i = j"
  by (simp add: word_of_nat_eq_iff take_bit_nat_eq_self)

lemma chain_linked_snoc:
  "chain_linked X h n (bs @ [b]) \<longleftrightarrow> chain_linked X h n bs \<and> bf_previous_hash b = chain_tip h bs \<and>
    unat (bf_index b) = n + length bs \<and>
    calculate_hash X (bf_transactions b) (bf_previous_hash b) = bf_hash b"
  by (induction bs arbitrary: h n) (auto simp: chain_tip_def)

lemma fold_sorted_vec_push:
  "sorted_vec_correct X \<Longrightarrow> sorted ys \<Longrightarrow>
    sorted (fold (sorted_vec_push X) xs ys) \<and> set (fold (sorted_vec_push X) xs ys) = set xs \<union> set ys"
  by (induction xs arbitrary: ys) (auto simp: sorted_vec_correct_def)

lemma dir_list_all_blocks_sorted:
  "sorted_vec_correct X \<Longrightarrow> dir_listable d \<Longrightarrow>
    sorted (dir_list_all_blocks X d) \<and> set (dir_list_all_blocks X d) = block_names X d"
  using fold_sorted_vec_push [of X "[]"] by (auto simp: dir_list_all_blocks_def block_names_def)

lemma last_sorted_max: "sorted xs \<Longrightarrow> m \<in> set xs \<Longrightarrow> (\<And>x. x \<in> set xs \<Longrightarrow> x \<le> m) \<Longrightarrow> last xs = m"
proof -
  assume s: "sorted xs" and m: "m \<in> set xs" and le: "\<And>x. x \<in> set xs \<Longrightarrow> x \<le> m"
  from m have ne: "xs \<noteq> []" by auto
  then have "xs = butlast xs @ [last xs]" by simp
  with s m have "m \<le> last xs" by (metis append_Cons in_set_conv_decomp last_in_set sorted_append
        set_append Un_iff list.set_intros(1) order_refl empty_iff empty_set set_ConsD)
  with le [of "last xs"] ne show ?thesis by simp
qed

section \<open>Commits extend the chain\<close>

lemma commit_block_Ok:
  assumes "commit_block X h k = (k', Ok ())"
  obtains b where "map_of (uncommited_blocks k) h = Some b" "disk_writable (path_to_blocks k)"
    "path_to_blocks k' = (path_to_blocks k)\<lparr>files := AList.update
       (block_filename_for_index (block_height (block_storage_state k) + 1)) (block_to_vec X b)
       (files (path_to_blocks k))\<rparr>"
    "block_storage_state k' = \<lparr>block_height = block_height (block_storage_state k) + 1, last_commited_hash = h\<rparr>"
    "uncommited_blocks k' = AList.delete h (uncommited_blocks k)"
  using assms by (auto simp: commit_block_def fs_write_def Let_def split: option.splits if_splits)

lemma unat_height_Suc: "unat (n :: u32) + 1 < 2 ^ 32 \<Longrightarrow> unat (n + 1) = Suc (unat n)"
  using unat_plus_u32 [of n 1] by simp

lemma commit_appends:
  assumes ok: "commit_block X h k = (k', Ok ())" and b: "map_of (uncommited_blocks k) h = Some b"
    and st: "stores_block X k b" and room: "unat (block_height (block_storage_state k)) + 1 < 2 ^ 32"
    and bs: "keeper_blocks X k = Some bs"
  shows "keeper_blocks X k' = Some (bs @ [b])"
proof -
  let ?n = "unat (block_height (block_storage_state k))"
  let ?f = "block_filename_for_index (block_height (block_storage_state k) + 1)"
  have d': "path_to_blocks k' = (path_to_blocks k)\<lparr>files := AList.update ?f (block_to_vec X b) (files (path_to_blocks k))\<rparr>"
    and h': "unat (block_height (block_storage_state k')) = Suc ?n"
    using ok b room by (auto elim!: commit_block_Ok simp: unat_height_Suc)
  have ix: "word_of_nat (Suc ?n) = block_height (block_storage_state k) + 1"
    by (simp add: add.commute)
  have "read_from_disk_by_index X (path_to_blocks k') (word_of_nat i) =
      read_from_disk_by_index X (path_to_blocks k) (word_of_nat i)" if "i \<le> ?n" for i
    using that room word_of_nat_eq_u32 [of i "Suc ?n"] ix
    by (simp add: read_from_disk_by_index_def d' read_from_disk_update filename_inj del: of_nat_Suc)
  then have "committed_blocks X (path_to_blocks k') ?n = Some bs"
    using bs committed_blocks_frame [of ?n X "path_to_blocks k'" "path_to_blocks k"]
    by (simp add: keeper_blocks_def)
  moreover have "read_from_disk_by_index X (path_to_blocks k') (word_of_nat (Suc ?n)) = Ok b"
    using st unfolding ix by (simp add: read_from_disk_by_index_def d' read_from_disk_update stores_block_def)
  ultimately show ?thesis by (simp add: keeper_blocks_def h' del: of_nat_Suc)
qed

lemma block_names_update:
  "block_captures X f \<noteq> None \<Longrightarrow>
    block_names X (d\<lparr>files := AList.update f c (files d)\<rparr>) = insert f (block_names X d)"
  by (auto simp: block_names_def dom_update)

lemma commit_store_ok:
  assumes pat: "block_pattern_correct X" and inv: "store_ok X k"
    and ok: "commit_block X h k = (k', Ok ())" and b: "map_of (uncommited_blocks k) h = Some b"
    and valid: "bf_hash b = h" "verify_block X b = Ok ()" and tip: "extends_tip k b"
    and st: "stores_block X k b" and room: "unat (block_height (block_storage_state k)) + 1 < 2 ^ 32"
  shows "store_ok X k'"
proof -
  from inv obtain bs where bs: "keeper_blocks X k = Some bs" "chain_linked X EMPTY_HASH 1 bs"
      "last_commited_hash (block_storage_state k) = chain_tip EMPTY_HASH bs"
    and names: "block_names X (path_to_blocks k) =
      (\<lambda>i. block_filename_for_index (word_of_nat i)) ` {1..unat (block_height (block_storage_state k))}"
    by (auto simp: store_ok_def)
  let ?n = "unat (block_height (block_storage_state k))"
  have len: "length bs = ?n" using bs(1) committed_blocks_length by (auto simp: keeper_blocks_def)
  have "keeper_blocks X k' = Some (bs @ [b])" by (rule commit_appends [OF ok b st room bs(1)])
  moreover have "chain_linked X EMPTY_HASH 1 (bs @ [b])"
    using bs tip valid room len by (simp add: chain_linked_snoc extends_tip_def unat_height_Suc)
  moreover have "last_commited_hash (block_storage_state k') = chain_tip EMPTY_HASH (bs @ [b])"
    using ok b valid by (auto elim!: commit_block_Ok simp: chain_tip_def)
  moreover have "block_names X (path_to_blocks k') =
      (\<lambda>i. block_filename_for_index (word_of_nat i)) ` {1..unat (block_height (block_storage_state k'))}"
  proof -
    have ix: "word_of_nat (Suc ?n) = block_height (block_storage_state k) + 1" by (simp add: add.commute)
    have "block_names X (path_to_blocks k') = insert (block_filename_for_index (word_of_nat (Suc ?n)))
        (block_names X (path_to_blocks k))"
      unfolding ix using ok b pat by (auto elim!: commit_block_Ok simp: block_names_update filename_captures)
    also have "\<dots> = (\<lambda>i. block_filename_for_index (word_of_nat i)) ` {1..Suc ?n}"
      using names by (simp add: atLeastAtMostSuc_conv)
    finally show ?thesis using ok b room by (auto elim!: commit_block_Ok simp: unat_height_Suc)
  qed
  ultimately show ?thesis by (auto simp: store_ok_def)
qed

section \<open>Recovery from the directory\<close>

lemma last_block_name:
  assumes names: "block_names X d = (\<lambda>i. block_filename_for_index (word_of_nat i)) ` {1..n}"
    and crates: "sorted_vec_correct X" and "dir_listable d" and n: "0 < n" "n < 100000"
  shows "dir_list_all_blocks X d \<noteq> [] \<and> last (dir_list_all_blocks X d) = block_filename_for_index (word_of_nat n)"
proof -
  have srt: "sorted (dir_list_all_blocks X d)" and set: "set (dir_list_all_blocks X d) = block_names X d"
    using dir_list_all_blocks_sorted crates \<open>dir_listable d\<close> by blast+
  have "block_filename_for_index (word_of_nat i) \<le> block_filename_for_index (word_of_nat n)" if "i \<le> n" for i
  proof (cases "i = n")
    case False
    with that n show ?thesis
      by (intro less_imp_le filename_less) (simp_all add: unat_of_nat take_bit_nat_eq_self)
  qed simp
  then have "last (dir_list_all_blocks X d) = block_filename_for_index (word_of_nat n)"
    using n by (intro last_sorted_max [OF srt]) (auto simp: set names)
  moreover have "dir_list_all_blocks X d \<noteq> []" using set names n by auto
  ultimately show ?thesis by simp
qed

lemma store_ok_last:
  assumes "store_ok X k" and "0 < unat (block_height (block_storage_state k))"
  shows "\<exists>b. read_from_disk_by_index X (path_to_blocks k) (block_height (block_storage_state k)) = Ok b \<and>
    bf_hash b = last_commited_hash (block_storage_state k)"
proof -
  obtain m where m: "unat (block_height (block_storage_state k)) = Suc m"
    using assms(2) gr0_implies_Suc by blast
  then have ix: "word_of_nat (Suc m) = block_height (block_storage_state k)"
    by (simp only: m [symmetric]) simp
  from assms(1) m obtain bs b where "read_from_disk_by_index X (path_to_blocks k) (word_of_nat (Suc m)) = Ok b"
      "last_commited_hash (block_storage_state k) = chain_tip EMPTY_HASH (bs @ [b])"
    by (auto simp: store_ok_def keeper_blocks_def simp del: of_nat_Suc split: option.splits sum.splits)
  with ix show ?thesis by (auto simp: chain_tip_def)
qed

lemma reopen_state:
  assumes crates: "sorted_vec_correct X" "block_pattern_correct X" and inv: "store_ok X k"
    and list: "dir_listable (path_to_blocks k)" and small: "unat (block_height (block_storage_state k)) < 100000"
  shows "\<exists>k'. BlockKeeper_new X (path_to_blocks k) sz = Some k' \<and>
    block_storage_state k' = block_storage_state k \<and> path_to_blocks k' = path_to_blocks k"
proof (cases "unat (block_height (block_storage_state k)) = 0")
  case True
  then have "block_names X (path_to_blocks k) = {}" and "last_commited_hash (block_storage_state k) = EMPTY_HASH"
    using inv by (auto simp: store_ok_def keeper_blocks_def chain_tip_def)
  moreover have "dir_list_all_blocks X (path_to_blocks k) = []"
    using dir_list_all_blocks_sorted [OF crates(1) list] calculation by simp
  moreover have "block_height (block_storage_state k) = 0" using True by (simp add: unat_eq_zero)
  ultimately show ?thesis by (simp add: BlockKeeper_new_def)
next
  case False
  let ?n = "unat (block_height (block_storage_state k))" and ?L = "dir_list_all_blocks X (path_to_blocks k)"
  have "?L \<noteq> [] \<and> last ?L = block_filename_for_index (block_height (block_storage_state k))"
    using last_block_name [of X "path_to_blocks k" ?n] inv crates list small False
    by (simp add: store_ok_def)
  with store_ok_last [OF inv] False crates(2) show ?thesis
    by (auto simp: BlockKeeper_new_def filename_captures parse_filename read_from_disk_by_index_def)
qed

section \<open>Blocks made from the mempool, and rolling them back\<close>

lemma create_new_block_block:
  assumes "create_new_block X m k = (k', h)"
  shows "\<exists>b. map_of (uncommited_blocks k') h = Some b \<and>
    b = BlockFile_create X (sort_key (tx_id X) (map snd m)) (last_commited_hash (block_storage_state k))
          (block_height (block_storage_state k) + 1) \<and>
    h = bf_hash b \<and> block_storage_state k' = block_storage_state k \<and> mempool k' = mempool k \<and>
    mempool_size k' = mempool_size k \<and>
    pending_transactions k' = pending_insert m (pending_transactions k)"
  using assms by (auto simp: create_new_block_def Let_def hm.get_ins)

lemma update_new_key: "k \<notin> fst ` set m \<Longrightarrow> AList.update k v m = m @ [(k, v)]"
  by (induction m) auto

lemma sort_key_id: "sorted (map f xs) \<Longrightarrow> sort_key f xs = xs"
  by (rule properties_for_sort_key) auto

abbreviation pool_of :: "('a) block_ext_scheme \<Rightarrow> SignedTransaction list \<Rightarrow> (string \<times> SignedTransaction) list" where
  "pool_of X ts \<equiv> map (\<lambda>t. (tx_id X t, t)) ts"

lemma fold_readd:
  assumes "distinct (map (tx_id X) (us @ ts))" and "mempool k = pool_of X us"
    and "\<And>t. t \<in> set ts \<Longrightarrow> pending_transactions k (tx_id X t) = Some t"
    and "length us + length ts < mempool_size k"
  shows "fold (readd_pending X) ts k = k\<lparr>mempool := pool_of X (us @ ts),
    pending_transactions := pending_remove X ts (pending_transactions k)\<rparr>"
  using assms
proof (induction ts arbitrary: us k)
  case Nil
  then show ?case by simp
next
  case (Cons t ts)
  let ?k = "k\<lparr>mempool := pool_of X (us @ [t]), pending_transactions := (pending_transactions k)(tx_id X t := None)\<rparr>"
  have "tx_id X t \<notin> fst ` set (mempool k)" using Cons.prems(1,2) by (auto simp: image_image)
  then have upd: "AList.update (tx_id X t) t (mempool k) = pool_of X (us @ [t])"
    using Cons.prems(2) by (simp add: update_new_key)
  have "readd_pending X t k = ?k"
    using Cons.prems(3) [of t] Cons.prems(4) upd by (simp add: readd_pending_def add_transaction_def)
  moreover have "fold (readd_pending X) ts ?k = ?k\<lparr>mempool := pool_of X ((us @ [t]) @ ts),
      pending_transactions := pending_remove X ts (pending_transactions ?k)\<rparr>"
    using Cons.prems by (intro Cons.IH) (auto simp: image_iff)
  ultimately show ?case by simp
qed

lemma recreated:
  assumes ts: "sorted (map (tx_id X) ts)" "distinct (map (tx_id X) ts)" "ts \<noteq> []"
    and size: "length ts = max 1 (mempool_size k)" and "mempool k = []"
    and pend: "\<And>t. t \<in> set ts \<Longrightarrow> pending_transactions k (tx_id X t) = Some t"
  shows "\<exists>p. fold (readd_pending X) ts k = fst (create_new_block X (pool_of X ts)
    (k\<lparr>pending_transactions := p, mempool := []\<rparr>))"
proof -
  obtain us t where ut: "ts = us @ [t]" using ts(3) by (metis rev_exhaust)
  let ?k = "k\<lparr>mempool := pool_of X us,
    pending_transactions := pending_remove X us (pending_transactions k)\<rparr>"
  have us: "fold (readd_pending X) us k = ?k"
  proof (cases "us = []")
    case False
    with size ut have "length us < mempool_size k" by (cases us) auto
    then show ?thesis using fold_readd [of X "[]" us k] ts ut pend \<open>mempool k = []\<close> by simp
  qed (simp add: \<open>mempool k = []\<close>)
  have "pending_transactions ?k (tx_id X t) = Some t"
    using pend [of t] ts(2) ut by (simp add: pending_remove_other)
  moreover have "AList.update (tx_id X t) t (mempool ?k) = pool_of X ts"
    using ts(2) ut by (simp add: update_new_key image_image)
  moreover have "mempool_size k \<le> length ts" using size by simp
  ultimately have "readd_pending X t ?k = fst (create_new_block X (pool_of X ts)
      (k\<lparr>pending_transactions := (pending_transactions ?k)(tx_id X t := None), mempool := []\<rparr>))"
    by (simp add: readd_pending_def add_transaction_def Let_def split: prod.split)
  with us ut show ?thesis by auto
qed

lemma created_pool:
  assumes wf: "keeper_wf X k" and new: "add_transaction X tx k = (k1, NewBlockCreated h)"
  defines "m \<equiv> AList.update (tx_id X tx) tx (mempool k)"
  defines "ts \<equiv> sort_key (tx_id X) (map snd m)"
  shows "create_new_block X m (k\<lparr>mempool := []\<rparr>) = (k1, h)"
    and "length ts = max 1 (mempool_size k)" and "distinct (map (tx_id X) ts)"
    and "sorted (map (tx_id X) ts)" and "\<And>t. t \<in> set ts \<Longrightarrow> pending_transactions k1 (tx_id X t) = Some t"
proof -
  have pool: "mempool_wf X (mempool k)" and len: "length (mempool k) < max 1 (mempool_size k)"
    using wf by (auto simp: keeper_wf_def)
  have m: "mempool_wf X m" unfolding m_def by (rule mempool_wf_upd [OF pool])
  have ids: "map (tx_id X) (map snd m) = map fst m" using mempool_wf_entry [OF m] by auto
  show new': "create_new_block X m (k\<lparr>mempool := []\<rparr>) = (k1, h)"
    using new by (cases rule: add_transaction_cases [of X tx k]) (simp_all add: m_def)
  have big: "mempool_size k \<le> length m"
    using new by (cases rule: add_transaction_cases [of X tx k]) (simp_all add: m_def)
  have "length m \<le> Suc (length (mempool k))"
    unfolding m_def using pool by (intro hm.len_ins_le) (simp add: mempool_wf_def)
  moreover have "m \<noteq> []" by (metis m_def hm.get_ins_same map_of.simps(1) option.distinct(1))
  ultimately have "length m = max 1 (mempool_size k)" using big len by (cases m) auto
  then show "length ts = max 1 (mempool_size k)" by (simp add: ts_def)
  have "distinct (map (tx_id X) (map snd m))" using m unfolding ids by (simp add: mempool_wf_def keys_distinct_def)
  moreover have "mset (map (tx_id X) ts) = mset (map (tx_id X) (map snd m))" by (simp add: ts_def del: map_map)
  ultimately show "distinct (map (tx_id X) ts)" using mset_eq_imp_distinct_iff by blast
  show "sorted (map (tx_id X) ts)" by (simp add: ts_def)
  show "pending_transactions k1 (tx_id X t) = Some t" if "t \<in> set ts" for t
  proof -
    from that obtain i where i: "(i, t) \<in> set m" by (auto simp: ts_def)
    with mempool_wf_entry [OF m] have "i = tx_id X t" by blast
    moreover have "pending_transactions k1 = pending_insert m (pending_transactions k)"
      using create_new_block_block [OF new'] by simp
    ultimately show ?thesis
      using i m by (simp add: pending_insert_mem mempool_wf_def keys_distinct_def)
  qed
qed

lemma rollback_recreates:
  assumes wf: "keeper_wf X k" and new: "add_transaction X tx k = (k1, NewBlockCreated h)"
  shows "\<exists>k2 b. rollback_block X h k1 = (k2, Ok ()) \<and> map_of (uncommited_blocks k1) h = Some b \<and>
    map_of (uncommited_blocks k2) h = Some b \<and> mempool k2 = []"
proof -
  note pool = created_pool [OF wf new]
  let ?ts = "sort_key (tx_id X) (map snd (AList.update (tx_id X tx) tx (mempool k)))"
  obtain b where b: "map_of (uncommited_blocks k1) h = Some b"
      "b = BlockFile_create X ?ts (last_commited_hash (block_storage_state k)) (block_height (block_storage_state k) + 1)"
    and h: "h = bf_hash b" and st: "block_storage_state k1 = block_storage_state k"
    and k1: "mempool k1 = []" "mempool_size k1 = mempool_size k"
    using create_new_block_block [OF pool(1)] by auto
  have "?ts \<noteq> []" using pool(2) by (metis length_0_conv max_def not_one_le_zero le_zero_eq)
  then obtain p where p: "fold (readd_pending X) ?ts (k1\<lparr>uncommited_blocks := AList.delete h (uncommited_blocks k1)\<rparr>) =
      fst (create_new_block X (pool_of X ?ts) (k1\<lparr>uncommited_blocks := AList.delete h (uncommited_blocks k1),
        pending_transactions := p, mempool := []\<rparr>))"
    using recreated [OF pool(4,3), of "k1\<lparr>uncommited_blocks := AList.delete h (uncommited_blocks k1)\<rparr>"]
      pool(2,5) k1 by auto
  let ?k = "k1\<lparr>uncommited_blocks := AList.delete h (uncommited_blocks k1), pending_transactions := p, mempool := []\<rparr>"
  obtain k2 h2 where k2: "create_new_block X (pool_of X ?ts) ?k = (k2, h2)" by fastforce
  have "map snd (pool_of X ?ts) = ?ts" by (simp add: comp_def)
  then have srt: "sort_key (tx_id X) (map snd (pool_of X ?ts)) = ?ts" by (simp only: sort_key_id [OF pool(4)])
  obtain b2 where b2: "map_of (uncommited_blocks k2) h2 = Some b2" "mempool k2 = []" "h2 = bf_hash b2"
      "b2 = BlockFile_create X ?ts (last_commited_hash (block_storage_state k1)) (block_height (block_storage_state k1) + 1)"
    using create_new_block_block [OF k2] unfolding srt by auto
  have "b2 = b" unfolding b2(4) b(2) st ..
  with b2 h have "map_of (uncommited_blocks k2) h = Some b" "mempool k2 = []" by simp_all
  moreover have "rollback_block X h k1 = (k2, Ok ())"
    using b p k2 by (simp add: rollback_block_def)
  ultimately show ?thesis using b(1) by blast
qed

section \<open>Which blocks can be added\<close>

lemma block_can_be_added_cases:
  assumes "block_can_be_added k b"
  obtains (tip) "extends_tip k b" | (staged) parent where "parent \<in> snd ` set (uncommited_blocks k)"
    "bf_index parent + 1 = bf_index b" "bf_previous_hash b = bf_hash parent"
proof (cases "block_height (block_storage_state k) = bf_index b - 1")
  case True
  then have "bf_index b = block_height (block_storage_state k) + 1" by simp
  with True assms show thesis
    by (intro tip) (simp add: block_can_be_added_def extends_tip_def split: if_splits)
next
  case False
  with assms obtain parent where p: "find (\<lambda>p. bf_index p + 1 = bf_index b) (map snd (uncommited_blocks k)) = Some parent"
      "bf_previous_hash b = bf_hash parent"
    by (auto simp: block_can_be_added_def split: if_splits option.splits)
  then have "parent \<in> snd ` set (uncommited_blocks k)" "bf_index parent + 1 = bf_index b"
    by (auto simp: find_Some_iff)
  with p show thesis by (intro staged)
qed

section \<open>Concrete inputs\<close>

abbreviation test_block1 :: BlockFile where
  "test_block1 \<equiv> test_block_file [test_coin 1] EMPTY_HASH 1"

abbreviation test_block2 :: BlockFile where
  "test_block2 \<equiv> test_block_file [test_coin 2] EMPTY_HASH 1"

abbreviation test_store_ext :: block_ext where
  "test_store_ext \<equiv> test_block_ext (\<lambda>_. Some test_block1)"

definition test_staged :: BlockKeeper where
  "test_staged = (test_keeper 1)\<lparr>uncommited_blocks := [(bf_hash test_block1, test_block1)]\<rparr>"

lemma test_staged_sel [simp]:
  "path_to_blocks test_staged = test_disk" "mempool_size test_staged = 1"
  "mempool test_staged = []" "pending_transactions test_staged = Map.empty"
  "uncommited_blocks test_staged = [(bf_hash test_block1, test_block1)]"
  "block_storage_state test_staged = \<lparr>block_height = 0, last_commited_hash = EMPTY_HASH\<rparr>"
  by (simp_all add: test_staged_def)

lemma test_block_verifies: "verify_block (test_block_ext dec) (test_block_file txs prev ix) = Ok ()"
  by (simp add: test_block_file_def calculate_hash_def)

lemma test_staged_ok:
  "store_ok test_store_ext test_staged" "extends_tip test_staged test_block1"
  "stores_block test_store_ext test_staged test_block1" "dir_listable test_disk"
  by (simp_all add: store_ok_def keeper_blocks_def chain_tip_def block_names_def test_disk_def
      extends_tip_def stores_block_def test_block_file_def)

lemma test_staged_commit: "\<exists>k'. commit_block test_store_ext (bf_hash test_block1) test_staged = (k', Ok ())"
  by (simp add: commit_block_def fs_write_def test_disk_def Let_def)

section \<open>Properties\<close>

text \<open>
  C16. Committing a block that extends the tip extends the chain (refinement of the directory by
  the list of committed blocks): files 1 to the height decode to a hash-linked list of verified
  blocks with consecutive indexes whose last hash is \<open>last_commited_hash\<close>, and after the commit
  the same holds with the block appended and nothing else changed.
\<close>
theorem commit_extends_chain:
  assumes "block_pattern_correct X" and "store_ok X k" and "commit_block X h k = (k', Ok ())"
    and "map_of (uncommited_blocks k) h = Some b" and "bf_hash b = h" and "verify_block X b = Ok ()"
    and "extends_tip k b" and "stores_block X k b"
    and "unat (block_height (block_storage_state k)) + 1 < 2 ^ 32"
  shows "store_ok X k' \<and> keeper_blocks X k' = map_option (\<lambda>bs. bs @ [b]) (keeper_blocks X k)"
proof -
  from assms(2) obtain bs where "keeper_blocks X k = Some bs" by (auto simp: store_ok_def)
  with commit_appends [OF assms(3,4,8,9) this] commit_store_ok [OF assms] show ?thesis by simp
qed

theorem commit_extends_chain_witness:
  "\<exists>k'. commit_block test_store_ext (bf_hash test_block1) test_staged = (k', Ok ()) \<and> store_ok test_store_ext k' \<and>
    keeper_blocks test_store_ext k' = Some [test_block1]"
proof -
  obtain k' where k': "commit_block test_store_ext (bf_hash test_block1) test_staged = (k', Ok ())"
    using test_staged_commit by blast
  have "keeper_blocks test_store_ext test_staged = Some []" by (simp add: keeper_blocks_def)
  with k' commit_extends_chain [OF _ test_staged_ok(1) k' _ _ _ test_staged_ok(2,3)]
  show ?thesis by (simp add: test_block_verifies del: verify_block_iff)
qed

text \<open>
  C23. A keeper created on the directory of another one recovers its storage state: the newest
  file name, taken in lexicographic order, gives the height, and its block the last hash, as
  long as the height has at most five digits.
\<close>
theorem reopen_recovers_state:
  assumes "sorted_vec_correct X" and "block_pattern_correct X" and "store_ok X k"
    and "dir_listable (path_to_blocks k)" and "unat (block_height (block_storage_state k)) < 100000"
  shows "\<exists>k'. BlockKeeper_new X (path_to_blocks k) sz = Some k' \<and>
    block_storage_state k' = block_storage_state k \<and> path_to_blocks k' = path_to_blocks k"
  using assms by (rule reopen_state)

theorem reopen_recovers_state_witness:
  "\<exists>k k'. commit_block test_store_ext (bf_hash test_block1) test_staged = (k, Ok ()) \<and>
    BlockKeeper_new test_store_ext (path_to_blocks k) 3 = Some k' \<and>
    block_storage_state k' = \<lparr>block_height = 1, last_commited_hash = bf_hash test_block1\<rparr>"
proof -
  obtain k where k: "commit_block test_store_ext (bf_hash test_block1) test_staged = (k, Ok ())"
    "block_storage_state k = \<lparr>block_height = 1, last_commited_hash = bf_hash test_block1\<rparr>" "dir_listable (path_to_blocks k)"
    by (simp add: commit_block_def fs_write_def test_disk_def Let_def)
  have "store_ok test_store_ext k"
    using commit_store_ok [OF _ test_staged_ok(1) k(1) _ _ _ test_staged_ok(2,3)] by (simp add: test_block_verifies del: verify_block_iff)
  then show ?thesis
    using reopen_recovers_state [of test_store_ext k 3] k by auto
qed

text \<open>
  C40. File names order like the heights they encode only up to five digits: below 100000 the
  lexicographic order of names is the numeric order, and the name of block 100000 comes before
  the name of block 99999, so the listing's last entry is no longer the newest block.
\<close>
theorem filename_order:
  "(unat i < unat j \<and> unat j < 100000 \<longrightarrow> block_filename_for_index i < block_filename_for_index j) \<and>
   block_filename_for_index 100000 < block_filename_for_index 99999"
proof
  show "unat i < unat j \<and> unat j < 100000 \<longrightarrow> block_filename_for_index i < block_filename_for_index j"
    using filename_less by blast
  show "block_filename_for_index 100000 < block_filename_for_index 99999"
    by (simp add: block_filename_for_index_def zero_pad_def show_nat.simps digit_char_def
        less_char_def)
qed

theorem filename_order_witness:
  "block_filename_for_index 7 < block_filename_for_index 12"
  using filename_order [of 7 12] by simp

text \<open>
  Rolling back a block the keeper has just made from its mempool does not remove it:
  \<open>rollback_block\<close> puts its transactions back one by one, the last one fills the mempool
  again, and the very same block is created anew under the same hash and stays uncommitted,
  with the mempool empty. The status of that creation is discarded.
\<close>
theorem rollback_recreates_block:
  assumes "keeper_wf X k" and "add_transaction X tx k = (k1, NewBlockCreated h)"
  shows "\<exists>k2 b. rollback_block X h k1 = (k2, Ok ()) \<and> map_of (uncommited_blocks k1) h = Some b \<and>
    map_of (uncommited_blocks k2) h = Some b \<and> mempool k2 = []"
  using assms by (rule rollback_recreates)

theorem rollback_recreates_block_witness:
  "\<exists>k1 k2 b h. add_transaction test_store_ext (test_coin 1) (test_keeper 1) = (k1, NewBlockCreated h) \<and>
    rollback_block test_store_ext h k1 = (k2, Ok ()) \<and> map_of (uncommited_blocks k2) h = Some b"
proof -
  obtain k1 h where k1: "add_transaction test_store_ext (test_coin 1) (test_keeper 1) = (k1, NewBlockCreated h)"
    by (simp add: add_transaction_def create_new_block_def Let_def)
  with rollback_recreates_block [OF test_keeper_wf k1] show ?thesis by blast
qed

text \<open>
  When \<open>add_transaction\<close> makes a block: exactly when the mempool with the transaction
  reaches its size. The block then holds each transaction of that mempool once, ordered by
  transaction id, verifies, extends the tip of the chain, and is staged under its hash with the
  mempool empty and all its transactions pending.
\<close>
theorem add_transaction_spec:
  assumes "keeper_wf X k"
  shows "case add_transaction X tx k of
     (k', AddedToMempool) \<Rightarrow> k' = k\<lparr>mempool := AList.update (tx_id X tx) tx (mempool k)\<rparr> \<and>
       length (mempool k') < mempool_size k
   | (k', NewBlockCreated h) \<Rightarrow> mempool k' = [] \<and>
       (\<exists>b. map_of (uncommited_blocks k') h = Some b \<and> bf_hash b = h \<and> verify_block X b = Ok () \<and>
         extends_tip k' b \<and> mset (bf_transactions b) = mset (map snd (AList.update (tx_id X tx) tx (mempool k))) \<and>
         sorted (map (tx_id X) (bf_transactions b)) \<and> distinct (map (tx_id X) (bf_transactions b)) \<and>
         length (bf_transactions b) = max 1 (mempool_size k) \<and>
         (\<forall>t\<in>set (bf_transactions b). pending_transactions k' (tx_id X t) = Some t))"
proof (cases rule: add_transaction_cases [of X tx k])
  case pool
  then show ?thesis by simp
next
  case (block k' h)
  note c = created_pool [OF assms block(3)]
  from create_new_block_block [OF c(1)] c(2-5) block(3) show ?thesis
    by (auto simp: extends_tip_def)
qed

theorem add_transaction_spec_witness:
  "\<exists>k' h b. add_transaction test_store_ext (test_coin 1) (test_keeper 1) = (k', NewBlockCreated h) \<and>
    map_of (uncommited_blocks k') h = Some b \<and> bf_transactions b = [test_coin 1]"
proof -
  obtain k' h where k': "add_transaction test_store_ext (test_coin 1) (test_keeper 1) = (k', NewBlockCreated h)"
    by (simp add: add_transaction_def create_new_block_def Let_def)
  with add_transaction_spec [OF test_keeper_wf, of test_store_ext "test_coin 1" 1] show ?thesis by auto
qed

text \<open>
  \<open>commit_block\<close> on every branch: an unknown hash and a failed write are reported and leave
  the keeper unchanged; a commit advances the height by one, makes the block readable under the
  new height, removes it from the uncommitted ones and its transactions from the pending ones.
\<close>
theorem commit_block_spec:
  assumes "\<And>b. map_of (uncommited_blocks k) h = Some b \<Longrightarrow> stores_block X k b"
  shows "case commit_block X h k of
     (k', Err e) \<Rightarrow> k' = k \<and> (e = BlockWithHashNotFound h \<and> map_of (uncommited_blocks k) h = None \<or>
       e = FailedToWriteBlockFile \<and> disk_writable (path_to_blocks k) = False)
   | (k', Ok _) \<Rightarrow> \<exists>b. map_of (uncommited_blocks k) h = Some b \<and>
       block_storage_state k' = \<lparr>block_height = block_height (block_storage_state k) + 1, last_commited_hash = h\<rparr> \<and>
       read_block_by_index X k' (ucast (block_height (block_storage_state k'))) = Ok b \<and>
       map_of (uncommited_blocks k') h = None \<and>
       (\<forall>t\<in>set (bf_transactions b). pending_transactions k' (tx_id X t) = None)"
proof (cases "map_of (uncommited_blocks k) h")
  case None
  then show ?thesis by (simp add: commit_block_def)
next
  case (Some b)
  show ?thesis
  proof (cases "disk_writable (path_to_blocks k)")
    case False
    with Some show ?thesis by (simp add: commit_block_def fs_write_def)
  next
    case True
    let ?h = "block_height (block_storage_state k) + 1"
    have "unat (ucast ?h :: u64) < 2 ^ 32"
      using unat_less_pow32 [of ?h] by simp
    with Some True assms [OF Some] show ?thesis
      by (auto simp: commit_block_def fs_write_def Let_def read_block_by_index_def read_from_disk_by_index_def
          read_from_disk_update stores_block_def hm.get_del pending_remove_same)
  qed
qed

theorem commit_block_spec_witness:
  "case commit_block test_store_ext (bf_hash test_block1) test_staged of
     (k', Err e) \<Rightarrow> False
   | (k', Ok _) \<Rightarrow> read_block_by_index test_store_ext k' 1 = Ok test_block1"
  using commit_block_spec [of test_staged "bf_hash test_block1" test_store_ext] test_staged_ok(3)
  by (auto simp: test_disk_def split: prod.splits sum.splits)

text \<open>
  C38. Nothing ties \<open>commit_block\<close> to the chain: of two blocks staged at the same height (both
  extend the tip, as every block \<open>create_new_block\<close> makes does, because it reads the committed
  state) each can be committed, and the second lands one file further although it names the
  old tip and carries the old height, so the directory no longer holds a linked chain.
\<close>
theorem two_staged_blocks_break_chain:
  assumes "keeper_blocks X k = Some bs" and "map_of (uncommited_blocks k) h1 = Some b1"
    and "map_of (uncommited_blocks k) h2 = Some b2" and "h1 \<noteq> h2"
    and "extends_tip k b1" and "extends_tip k b2" and "disk_writable (path_to_blocks k)"
    and "stores_block X k b1" and "\<And>k1. commit_block X h1 k = (k1, Ok ()) \<Longrightarrow> stores_block X k1 b2"
    and "unat (block_height (block_storage_state k)) + 2 < 2 ^ 32"
  shows "\<exists>k1 k2. commit_block X h1 k = (k1, Ok ()) \<and> commit_block X h2 k1 = (k2, Ok ()) \<and>
    keeper_blocks X k2 = Some (bs @ [b1, b2]) \<and> \<not> chain_linked X EMPTY_HASH 1 (bs @ [b1, b2])"
proof -
  obtain k1 where k1: "commit_block X h1 k = (k1, Ok ())"
    using assms by (simp add: commit_block_def fs_write_def Let_def)
  have st1: "map_of (uncommited_blocks k1) h2 = Some b2" "disk_writable (path_to_blocks k1)"
      "unat (block_height (block_storage_state k1)) = Suc (unat (block_height (block_storage_state k)))"
    using k1 assms by (auto elim!: commit_block_Ok simp: hm.get_del unat_height_Suc)
  obtain k2 where k2: "commit_block X h2 k1 = (k2, Ok ())"
    using st1 by (simp add: commit_block_def fs_write_def Let_def)
  have "keeper_blocks X k1 = Some (bs @ [b1])"
    using assms by (intro commit_appends [OF k1]) auto
  then have "keeper_blocks X k2 = Some ((bs @ [b1]) @ [b2])"
    using assms st1 k1 by (intro commit_appends [OF k2]) auto
  moreover have "\<not> chain_linked X EMPTY_HASH 1 ((bs @ [b1]) @ [b2])"
    using assms(1,6,10) committed_blocks_length [of X "path_to_blocks k" _ bs] unfolding chain_linked_snoc
    by (auto simp: extends_tip_def keeper_blocks_def unat_height_Suc)
  ultimately show ?thesis using k1 k2 by auto
qed

theorem two_staged_blocks_break_chain_witness:
  "\<exists>(X :: block_ext) k k1 k2 b1 b2. commit_block X (bf_hash b1) k = (k1, Ok ()) \<and> commit_block X (bf_hash b2) k1 = (k2, Ok ()) \<and>
    keeper_blocks X k = Some [] \<and> keeper_blocks X k2 = Some [b1, b2] \<and> \<not> chain_linked X EMPTY_HASH 1 [b1, b2]"
proof -
  let ?X = "test_block_ext (\<lambda>v. if v = 1 # as_bytes (bf_hash test_block1) then Some test_block1 else Some test_block2)"
  let ?k = "test_staged\<lparr>uncommited_blocks := [(bf_hash test_block1, test_block1), (bf_hash test_block2, test_block2)]\<rparr>"
  have ne: "bf_hash test_block1 \<noteq> bf_hash test_block2"
    by (simp add: test_block_file_def calculate_hash_def test_sha256_def EMPTY_HASH_def)
  then have nb: "as_bytes (bf_hash test_block2) \<noteq> as_bytes (bf_hash test_block1)" using BlockHash.expand by metis
  have k0: "keeper_blocks ?X ?k = Some []" by (simp add: keeper_blocks_def)
  have st: "stores_block ?X k1 test_block2" if "commit_block ?X (bf_hash test_block1) ?k = (k1, Ok ())" for k1
    using that nb by (auto elim!: commit_block_Ok simp: stores_block_def test_disk_def)
  obtain k1 k2 where "commit_block ?X (bf_hash test_block1) ?k = (k1, Ok ())"
      "commit_block ?X (bf_hash test_block2) k1 = (k2, Ok ())"
      "keeper_blocks ?X k2 = Some ([] @ [test_block1, test_block2])"
      "\<not> chain_linked ?X EMPTY_HASH 1 ([] @ [test_block1, test_block2])"
    using two_staged_blocks_break_chain [OF k0, of "bf_hash test_block1" test_block1 "bf_hash test_block2" test_block2]
      ne st by (auto simp: extends_tip_def stores_block_def test_disk_def test_block_file_def)
  with k0 show ?thesis unfolding append_Nil by blast
qed

end
