(* ===== verification/Effects.thy ===== *)
theory Effects
  imports Consensus Rest_Network Block_Store
begin

text \<open>
  \<^verbatim>\<open>src/src/peer/effects.rs\<close>: the services of a peer (transaction processor, block keeper,
  keys, network) and the execution of consensus effects. The effect queue is a loop that ends:
  staging a transaction can only add proposals and sends, and a proposal only votes.
\<close>

record PeerEffects =
  pe_peer_id :: PeerId
  transaction_processor :: TransactionProcessor
  block_keeper :: BlockKeeper
  signing_key :: SigningKey
  pe_public_key :: VerifyingKey
  network :: RestNetwork
  last_completed_block :: BlockHash

datatype effect_error =
    EffTxSignature tx_error
  | EffTxValidation TransactionValidationError
  | EffStorage storage_error
  | EffBlock BlockVerificationError
  | EffConsensus consensus_error
  | SynchronizedBlockNotLinked BlockHash
  | UncommittedBlockNotFound BlockHash
  | RaftBlockNotFound BlockHash u64
  | RaftBlockNotLinked BlockHash u64

definition PeerEffects_new :: "('a) raft_ext_scheme \<Rightarrow> PeerId \<Rightarrow> RestNetwork \<Rightarrow> BlockKeeper \<Rightarrow> SigningKey \<Rightarrow> PeerEffects" where
  "PeerEffects_new X peer_id net keeper key =
    \<lparr>pe_peer_id = peer_id, transaction_processor = TransactionProcessor_default, block_keeper = keeper,
     signing_key = key, pe_public_key = ec_verifying_key X key, network = net, last_completed_block = EMPTY_HASH\<rparr>"

text \<open>A transaction that fails is logged and skipped.\<close>

fun apply_transactions ::
    "('a) raft_ext_scheme \<Rightarrow> SignedTransaction list \<Rightarrow> TransactionProcessor \<Rightarrow> TransactionProcessor" where
  "apply_transactions X [] p = p"
| "apply_transactions X (t # ts) p = apply_transactions X ts (fst (process_transaction X t p))"

definition apply_block_transactions :: "('a) raft_ext_scheme \<Rightarrow> BlockFile \<Rightarrow> PeerEffects \<Rightarrow> PeerEffects" where
  "apply_block_transactions X b pe =
    pe\<lparr>transaction_processor := apply_transactions X (bf_transactions b) (transaction_processor pe)\<rparr>"

definition stage_external_block :: "('a) raft_ext_scheme \<Rightarrow> BlockFile \<Rightarrow> (PeerEffects, effect_error, bool) step" where
  "stage_external_block X b pe =
    (if \<not> block_can_be_added (block_keeper pe) b then (pe, Ok False)
     else
       let pe1 = apply_block_transactions X b pe
       in (case add_external_block X b (block_keeper pe1) of
             (k, Err e) \<Rightarrow> (pe1\<lparr>block_keeper := k\<rparr>, Err (EffBlock e))
           | (k, Ok _) \<Rightarrow> (pe1\<lparr>block_keeper := k\<rparr>, Ok True)))"

definition apply_synchronized_block :: "('a) raft_ext_scheme \<Rightarrow> BlockFile \<Rightarrow> (PeerEffects, effect_error, unit) step" where
  "apply_synchronized_block X b pe =
    (if \<not> block_can_be_added (block_keeper pe) b then (pe, Err (SynchronizedBlockNotLinked (bf_hash b)))
     else
       let pe1 = apply_block_transactions X b pe
       in (case add_external_block X b (block_keeper pe1) of
             (k, Err e) \<Rightarrow> (pe1\<lparr>block_keeper := k\<rparr>, Err (EffBlock e))
           | (k, Ok _) \<Rightarrow>
               (case commit_block X (bf_hash b) k of
                  (k', Err e) \<Rightarrow> (pe1\<lparr>block_keeper := k'\<rparr>, Err (EffStorage e))
                | (k', Ok _) \<Rightarrow> (pe1\<lparr>block_keeper := k', last_completed_block := bf_hash b\<rparr>, Ok ()))))"

definition ensure_uncommitted_block :: "BlockHash \<Rightarrow> PeerEffects \<Rightarrow> effect_error + unit" where
  "ensure_uncommitted_block h pe =
    (case get_uncommited_block (block_keeper pe) h of None \<Rightarrow> Err (UncommittedBlockNotFound h) | Some _ \<Rightarrow> Ok ())"

definition stage_client_transaction ::
    "('a) raft_ext_scheme \<Rightarrow> SignedTransaction \<Rightarrow> (PeerEffects, effect_error, BlockStatus) step" where
  "stage_client_transaction X tx pe =
    (case SignedTransaction_verify X tx of
       Err e \<Rightarrow> (pe, Err (EffTxSignature e))
     | Ok _ \<Rightarrow>
         (case process_transaction X tx (transaction_processor pe) of
            (p, Err e) \<Rightarrow> (pe\<lparr>transaction_processor := p\<rparr>, Err (EffTxValidation e))
          | (p, Ok _) \<Rightarrow>
              (case add_transaction X tx (block_keeper pe) of
                 (k, status) \<Rightarrow> (pe\<lparr>transaction_processor := p, block_keeper := k\<rparr>, Ok status))))"

definition broadcast_client_transaction :: "('a) raft_ext_scheme \<Rightarrow> SignedTransaction \<Rightarrow> PeerEffects \<Rightarrow> PeerEffects" where
  "broadcast_client_transaction X tx pe =
    pe\<lparr>network := broadcast_peer_message (Synchronization (VerifiedTransaction_new X tx (signing_key pe)))
        (pe_peer_id pe) (network pe)\<rparr>"

fun stage_raft_entries ::
    "('a) raft_ext_scheme \<Rightarrow> RaftLogEntry list \<Rightarrow> ConsensusEngine \<Rightarrow> PeerEffects \<Rightarrow>
     PeerEffects \<times> ConsensusEngine \<times> (effect_error + unit)" where
  "stage_raft_entries X [] c pe = (pe, c, Ok ())"
| "stage_raft_entries X (e # es) c pe =
    (if is_noop e then stage_raft_entries X es c pe
     else
       (case take_pending_raft_block (le_block_hash e) c of
          (c1, pending_block) \<Rightarrow>
            if get_uncommited_block (block_keeper pe) (le_block_hash e) \<noteq> None then stage_raft_entries X es c1 pe
            else
              (case pending_block of
                 None \<Rightarrow> (pe, c1, Err (RaftBlockNotFound (le_block_hash e) (le_index e)))
               | Some b \<Rightarrow>
                   if \<not> block_can_be_added (block_keeper pe) b
                   then (pe, c1, Err (RaftBlockNotLinked (le_block_hash e) (le_index e)))
                   else
                     let pe1 = apply_block_transactions X b pe
                     in (case add_external_block X b (block_keeper pe1) of
                           (k, Err x) \<Rightarrow> (pe1\<lparr>block_keeper := k\<rparr>, c1, Err (EffBlock x))
                         | (k, Ok _) \<Rightarrow> stage_raft_entries X es c1 (pe1\<lparr>block_keeper := k\<rparr>)))))"

definition broadcast_block_proposal ::
    "('a) raft_ext_scheme \<Rightarrow> BlockHash \<Rightarrow> (PeerEffects, effect_error, PeerId list option) step" where
  "broadcast_block_proposal X h pe =
    (let known = known_peers (network pe)
     in (if known = []
         then (case commit_block X h (block_keeper pe) of
                 (k, Err e) \<Rightarrow> (pe\<lparr>block_keeper := k\<rparr>, Err (EffStorage e))
               | (k, Ok _) \<Rightarrow> (pe\<lparr>block_keeper := k\<rparr>, Ok None))
         else
           let pe1 =
             (case get_uncommited_block (block_keeper pe) h of
                Some b \<Rightarrow> pe\<lparr>network := broadcast_peer_message
                  (BlockProposal h (block_to_vec X b) (ec_sign X (signing_key pe) (block_to_vec X b)) (pe_public_key pe))
                  (pe_peer_id pe) (network pe)\<rparr>
              | None \<Rightarrow> pe)
           in (pe1, Ok (Some known))))"

fun replicate_entries ::
    "('a) raft_ext_scheme \<Rightarrow> PeerEffects \<Rightarrow> RaftLogEntry list \<Rightarrow> effect_error + RaftReplicatedBlock list" where
  "replicate_entries X pe [] = Ok []"
| "replicate_entries X pe (e # es) =
    (let bytes_result =
       (if is_noop e then Ok []
        else (case get_uncommited_block (block_keeper pe) (le_block_hash e) of
                Some b \<Rightarrow> Ok (block_to_vec X b)
              | None \<Rightarrow>
                  (case read_block_by_hash X (block_keeper pe) (le_block_hash e) of
                     Err x \<Rightarrow> Err (EffStorage x)
                   | Ok b \<Rightarrow> Ok (block_to_vec X b))))
     in (case bytes_result of
           Err x \<Rightarrow> Err x
         | Ok bytes \<Rightarrow>
             (case replicate_entries X pe es of
                Err x \<Rightarrow> Err x
              | Ok rbs \<Rightarrow>
                  Ok (\<lparr>rb_entry = e, rb_block_file = bytes, rb_signature = ec_sign X (signing_key pe) bytes,
                       rb_public_key = pe_public_key pe\<rparr> # rbs))))"

definition send_raft_append_entries ::
    "('a) raft_ext_scheme \<Rightarrow> PeerId \<Rightarrow> u64 \<Rightarrow> u64 \<Rightarrow> u64 \<Rightarrow> RaftLogEntry list \<Rightarrow> u64 \<Rightarrow>
     (PeerEffects, effect_error, unit) step" where
  "send_raft_append_entries X to t pi pt es lc pe =
    (case replicate_entries X pe es of
       Err x \<Rightarrow> (pe, Err x)
     | Ok rbs \<Rightarrow>
         (pe\<lparr>network := send_peer_message \<lparr>msg_from = pe_peer_id pe, msg_to = to,
             msg_body = RaftAppendEntries t (pe_peer_id pe) pi pt rbs lc\<rparr> (network pe)\<rparr>, Ok ()))"

definition execute_commit :: "('a) raft_ext_scheme \<Rightarrow> BlockHash \<Rightarrow> (PeerEffects, effect_error, unit) step" where
  "execute_commit X h pe =
    (case commit_block X h (block_keeper pe) of
       (k, Err e) \<Rightarrow> (pe\<lparr>block_keeper := k\<rparr>, Err (EffStorage e))
     | (k, Ok _) \<Rightarrow> (pe\<lparr>block_keeper := k, last_completed_block := h\<rparr>, Ok ()))"

definition execute_rollback :: "('a) raft_ext_scheme \<Rightarrow> BlockHash \<Rightarrow> (PeerEffects, effect_error, unit) step" where
  "execute_rollback X h pe =
    (case get_uncommited_block (block_keeper pe) h of
       Some b \<Rightarrow>
         let pe1 = pe\<lparr>transaction_processor := rollback_transactions X (bf_transactions b) (transaction_processor pe)\<rparr>
         in (case rollback_block X h (block_keeper pe1) of
               (k, Err e) \<Rightarrow> (pe1\<lparr>block_keeper := k\<rparr>, Err (EffStorage e))
             | (k, Ok _) \<Rightarrow> (pe1\<lparr>block_keeper := k, last_completed_block := h\<rparr>, Ok ()))
     | None \<Rightarrow> (pe\<lparr>last_completed_block := h\<rparr>, Ok ()))"

text \<open>One effect; the last component is what the effect adds to the queue.\<close>

type_synonym effect_result = "PeerEffects \<times> ConsensusEngine \<times> (effect_error + unit) \<times> ConsensusEffect list"

definition plain :: "ConsensusEngine \<Rightarrow> PeerEffects \<times> (effect_error + unit) \<Rightarrow> effect_result" where
  "plain c out = (fst out, c, snd out, [])"

fun execute_effect :: "('a) raft_ext_scheme \<Rightarrow> ConsensusEffect \<Rightarrow> ConsensusEngine \<Rightarrow> PeerEffects \<Rightarrow> effect_result" where
  "execute_effect X (StageClientTransaction tx) c pe =
    (case stage_client_transaction X tx pe of
       (pe1, Err e) \<Rightarrow> (pe1, c, Err e, [])
     | (pe1, Ok AddedToMempool) \<Rightarrow> (pe1, c, Ok (), [])
     | (pe1, Ok (NewBlockCreated h)) \<Rightarrow>
         (case on_block_created X h c of
            (c1, Err e) \<Rightarrow> (pe1, c1, Err (EffConsensus e), [])
          | (c1, Ok effs) \<Rightarrow> (pe1, c1, Ok (), effs)))"
| "execute_effect X (StageRaftEntries es) c pe =
    (case stage_raft_entries X es c pe of (pe1, c1, r) \<Rightarrow> (pe1, c1, r, []))"
| "execute_effect X (BroadcastClientTransaction tx) c pe = (broadcast_client_transaction X tx pe, c, Ok (), [])"
| "execute_effect X (ProposeBlock h) c pe =
    (case broadcast_block_proposal X h pe of
       (pe1, Err e) \<Rightarrow> (pe1, c, Err e, [])
     | (pe1, Ok None) \<Rightarrow> (pe1, c, Ok (), [])
     | (pe1, Ok (Some known)) \<Rightarrow>
         (case on_local_block_proposed h known c of
            (c1, Err e) \<Rightarrow> (pe1, c1, Err (EffConsensus e), [])
          | (c1, Ok effs) \<Rightarrow> (pe1, c1, Ok (), effs)))"
| "execute_effect X (SendRaftAppendEntries to t pi pt es lc) c pe =
    plain c (send_raft_append_entries X to t pi pt es lc pe)"
| "execute_effect X (CommitBlock h) c pe = plain c (execute_commit X h pe)"
| "execute_effect X (RollbackBlock h) c pe = plain c (execute_rollback X h pe)"
| "execute_effect X (Broadcast body) c pe =
    (pe\<lparr>network := broadcast_peer_message body (pe_peer_id pe) (network pe)\<rparr>, c, Ok (), [])"
| "execute_effect X (Send to body) c pe =
    (pe\<lparr>network := send_peer_message \<lparr>msg_from = pe_peer_id pe, msg_to = to, msg_body = body\<rparr> (network pe)\<rparr>,
     c, Ok (), [])"

section \<open>The effect queue\<close>

fun is_stage :: "ConsensusEffect \<Rightarrow> bool" where
  "is_stage (StageClientTransaction _) = True"
| "is_stage _ = False"

fun is_propose :: "ConsensusEffect \<Rightarrow> bool" where
  "is_propose (ProposeBlock _) = True"
| "is_propose _ = False"

abbreviation stages :: "ConsensusEffect list \<Rightarrow> nat" where
  "stages effs \<equiv> length (filter is_stage effs)"

abbreviation proposals :: "ConsensusEffect list \<Rightarrow> nat" where
  "proposals effs \<equiv> length (filter is_propose effs)"

lemma own_entry_no_stage:
  assumes "snd (append_own_entry X e r) = Ok effs"
  shows "filter is_stage effs = []" "filter is_propose effs = []"
  using assms
  by (auto simp: append_own_entry_def advance_commit_index_def Let_def append_entries_effects_for_followers_def
      append_entries_effect_for_def List.map_filter_def commit_effects_def filter_empty_conv
      split: prod.splits sum.splits option.splits)

lemma on_block_created_no_stage: "on_block_created X h c = (c', Ok effs) \<Longrightarrow> filter is_stage effs = []"
  by (cases c) (auto intro: own_entry_no_stage(1) simp: voting_on_block_created_def raft_call_def raft_on_block_created_def append_local_block_def
      map_err_def split: RaftRole.splits sum.splits prod.splits)

lemma handle_vote_no_stage:
  "filter is_stage (snd (handle_voting_vote me known h p a vs)) = []"
  "filter is_propose (snd (handle_voting_vote me known h p a vs)) = []"
  by (auto simp: handle_voting_vote_def Let_def split: prod.split ConsensusOutcome.split)

lemma on_local_block_proposed_no_stage:
  assumes "on_local_block_proposed h known c = (c', Ok effs)"
  shows "filter is_stage effs = []" "filter is_propose effs = []"
  using assms handle_vote_no_stage by (cases c; auto simp: voting_call_def voting_on_local_block_proposed_def)+

function (sequential) execute_queue ::
    "('a) raft_ext_scheme \<Rightarrow> ConsensusEffect list \<Rightarrow> effect_error list \<Rightarrow> ConsensusEngine \<Rightarrow> PeerEffects \<Rightarrow>
     PeerEffects \<times> ConsensusEngine \<times> effect_error list" where
  "execute_queue X [] errors c pe = (pe, c, errors)"
| "execute_queue X (effect # pending_effects) errors c pe =
    (case execute_effect X effect c pe of
       (pe1, c1, r, added) \<Rightarrow>
         execute_queue X (pending_effects @ added) (case r of Err e \<Rightarrow> errors @ [e] | Ok _ \<Rightarrow> errors) c1 pe1)"
  by pat_completeness auto

lemma execute_effect_added:
  assumes "execute_effect X effect c pe = (pe1, c1, r, added)"
  shows "filter is_stage added = []" "\<not> is_stage effect \<Longrightarrow> filter is_propose added = []"
    "\<not> is_stage effect \<Longrightarrow> \<not> is_propose effect \<Longrightarrow> added = []"
  using assms on_block_created_no_stage on_local_block_proposed_no_stage
  by (cases effect; fastforce simp: plain_def split: prod.splits sum.splits BlockStatus.splits option.splits)+

termination execute_queue
proof (relation "measures [\<lambda>(X, q, _). stages q, \<lambda>(X, q, _). proposals q, \<lambda>(X, q, _). length q]")
  fix X :: "('a) raft_ext_scheme" and effect pending_effects errors c pe pe1 y c1 z r added
  assume "(pe1, y) = execute_effect X effect c pe" "(c1, z) = y" "(r, added) = z"
  then have "execute_effect X effect c pe = (pe1, c1, r, added)"
    by auto
  note new = execute_effect_added [OF this]
  show "((X, pending_effects @ added, case r of Err e \<Rightarrow> errors @ [e] | Ok _ \<Rightarrow> errors, c1, pe1),
      X, effect # pending_effects, errors, c, pe)
    \<in> measures [\<lambda>(X, q, _). stages q, \<lambda>(X, q, _). proposals q, \<lambda>(X, q, _). length q]"
    using new by (cases "is_stage effect"; cases "is_propose effect") auto
qed simp

definition execute_all ::
    "('a) raft_ext_scheme \<Rightarrow> ConsensusEffect list \<Rightarrow> ConsensusEngine \<Rightarrow> PeerEffects \<Rightarrow>
     PeerEffects \<times> ConsensusEngine \<times> (effect_error list + unit)" where
  "execute_all X effects c pe =
    (case execute_queue X effects [] c pe of
       (pe1, c1, errors) \<Rightarrow> (pe1, c1, if errors = [] then Ok () else Err errors))"

end
