(* ===== verification/Effect_Queue.thy ===== *)
theory Effect_Queue
  imports Effects
begin

text \<open>
  The effect queue of \<^verbatim>\<open>PeerEffects::execute_all\<close>: a first-in first-out loop that is extended
  while it runs. Its reference is a breadth-first run in rounds, where each round executes the
  effects the round before added.
\<close>

section \<open>One round\<close>

fun run_effects ::
    "('a) raft_ext_scheme \<Rightarrow> ConsensusEffect list \<Rightarrow> ConsensusEngine \<Rightarrow> PeerEffects \<Rightarrow>
     PeerEffects \<times> ConsensusEngine \<times> effect_error list \<times> ConsensusEffect list" where
  "run_effects X [] c pe = (pe, c, [], [])"
| "run_effects X (e # es) c pe =
    (case execute_effect X e c pe of
       (pe1, c1, r, added) \<Rightarrow>
         (case run_effects X es c1 pe1 of
            (pe2, c2, errs, added2) \<Rightarrow>
              (pe2, c2, (case r of Err x \<Rightarrow> [x] | Ok _ \<Rightarrow> []) @ errs, added @ added2)))"

lemma run_effects_append:
  "run_effects X (es @ fs) c pe =
    (case run_effects X es c pe of
       (pe1, c1, errs1, added1) \<Rightarrow>
         (case run_effects X fs c1 pe1 of
            (pe2, c2, errs2, added2) \<Rightarrow> (pe2, c2, errs1 @ errs2, added1 @ added2)))"
  by (induction es arbitrary: c pe) (simp_all split: prod.split)

lemma execute_queue_round:
  "execute_queue X (es @ fs) errors c pe =
    (case run_effects X es c pe of
       (pe1, c1, errs, added) \<Rightarrow> execute_queue X (fs @ added) (errors @ errs) c1 pe1)"
proof (induction es arbitrary: errors c pe fs)
  case (Cons e es)
  obtain pe1 c1 r added where e: "execute_effect X e c pe = (pe1, c1, r, added)"
    by (metis prod_cases4)
  show ?case
    by (cases r) (simp_all add: e Cons.IH [of "fs @ added"] split: prod.split)
qed simp

fun rank :: "ConsensusEffect \<Rightarrow> nat" where
  "rank (StageClientTransaction _) = 2"
| "rank (ProposeBlock _) = 1"
| "rank _ = 0"

lemma rank_stage: "rank e = 2 \<longleftrightarrow> is_stage e" "rank e = 1 \<longleftrightarrow> is_propose e" "rank e \<le> 2"
  by (cases e; simp)+

lemma added_rank:
  assumes "execute_effect X e c pe = (pe1, c1, r, added)" "a \<in> set added"
  shows "rank a < rank e"
proof -
  note new = execute_effect_added [OF assms(1)]
  have "\<not> is_stage a" "is_stage e \<or> \<not> is_propose a" "is_stage e \<or> is_propose e"
    using assms(2) new by (cases "is_stage e"; cases "is_propose e"; auto simp: filter_empty_conv)+
  then show ?thesis
    using rank_stage [of a] rank_stage [of e] by (cases a; cases e) auto
qed

lemma run_effects_rank:
  assumes "run_effects X es c pe = (pe1, c1, errs, added)" "\<forall>e \<in> set es. rank e < n"
  shows "\<forall>a \<in> set added. Suc (rank a) < n"
  using assms
proof (induction es arbitrary: c pe pe1 c1 errs added)
  case (Cons e es)
  obtain pe2 c2 r added2 where e: "execute_effect X e c pe = (pe2, c2, r, added2)"
    by (metis prod_cases4)
  obtain pe3 c3 errs3 added3 where es: "run_effects X es c2 pe2 = (pe3, c3, errs3, added3)"
    by (metis prod_cases4)
  show ?case
    using Cons.prems Cons.IH [OF es] added_rank [OF e] by (fastforce simp: e es)
qed simp

text \<open>Rounds, each over what the one before added.\<close>

fun run_rounds ::
    "('a) raft_ext_scheme \<Rightarrow> nat \<Rightarrow> ConsensusEffect list \<Rightarrow> ConsensusEngine \<Rightarrow> PeerEffects \<Rightarrow>
     PeerEffects \<times> ConsensusEngine \<times> effect_error list" where
  "run_rounds X 0 es c pe = (pe, c, [])"
| "run_rounds X (Suc n) es c pe =
    (case run_effects X es c pe of
       (pe1, c1, errs, added) \<Rightarrow>
         (case run_rounds X n added c1 pe1 of (pe2, c2, errs2) \<Rightarrow> (pe2, c2, errs @ errs2)))"

lemma execute_queue_rounds:
  assumes "\<forall>e \<in> set es. rank e < n"
  shows "execute_queue X es errors c pe =
    (case run_rounds X n es c pe of (pe1, c1, errs) \<Rightarrow> (pe1, c1, errors @ errs))"
  using assms
proof (induction n arbitrary: es errors c pe)
  case (Suc n)
  obtain pe1 c1 errs added where r: "run_effects X es c pe = (pe1, c1, errs, added)"
    by (metis prod_cases4)
  have "\<forall>a \<in> set added. rank a < n"
    using run_effects_rank [OF r Suc.prems] by auto
  from Suc.IH [OF this] show ?case
    using execute_queue_round [of X es "[]" errors c pe] by (simp add: r split: prod.split)
qed simp

lemma execute_all_rounds:
  "execute_all X effects c pe =
    (case run_rounds X 3 effects c pe of
       (pe1, c1, errors) \<Rightarrow> (pe1, c1, if errors = [] then Ok () else Err errors))"
proof -
  have "\<forall>e \<in> set effects. rank e < 3"
    by (metis rank_stage(3) le_imp_less_Suc numeral_3_eq_3 numeral_2_eq_2)
  from execute_queue_rounds [OF this, of X "[]" c pe] show ?thesis
    by (simp add: execute_all_def split: prod.split)
qed

text \<open>Effects that add nothing are executed in order, once each.\<close>

lemma execute_all_plain:
  assumes "\<forall>e \<in> set effects. rank e = 0"
  shows "execute_all X effects c pe =
    (case run_effects X effects c pe of
       (pe1, c1, errors, _) \<Rightarrow> (pe1, c1, if errors = [] then Ok () else Err errors))"
proof -
  have "\<forall>e \<in> set effects. rank e < Suc 0"
    using assms by simp
  from execute_queue_rounds [OF this, of X "[]" c pe] show ?thesis
    by (simp add: execute_all_def split: prod.split)
qed

section \<open>Properties\<close>

text \<open>
  C18. \<^verbatim>\<open>execute_all\<close> ends for every list of effects and every engine, although a queue entry
  may add others: it is three breadth-first rounds. The first runs the given effects in order, the
  second what they added, the third what those added, and nothing is left. Every effect is executed
  even if an earlier one fails; the result is the error of each failing effect, in the order of
  execution, and success exactly if none failed.
\<close>

theorem execute_all_three_rounds:
  "execute_all X effects c pe =
    (case run_effects X effects c pe of (pe1, c1, errs1, added1) \<Rightarrow>
     case run_effects X added1 c1 pe1 of (pe2, c2, errs2, added2) \<Rightarrow>
     case run_effects X added2 c2 pe2 of (pe3, c3, errs3, added3) \<Rightarrow>
       (pe3, c3, if errs1 @ errs2 @ errs3 = [] then Ok () else Err (errs1 @ errs2 @ errs3)))"
  by (simp add: execute_all_rounds numeral_3_eq_3 split: prod.split)

end
