(* ===== verification/Peer.thy ===== *)
theory Peer
  imports Effect_Queue
begin

text \<open>
  \<^verbatim>\<open>src/src/peer.rs\<close>: the peer, which hands messages and ticks to its consensus engine and
  executes the effects the engine answers with. The watch channel of the consensus state is the
  value last published on it; the state of the keeper and of the channel that a
  \<^verbatim>\<open>PeerStateView\<close> reads is shared with the peer, so the view is taken when it is read.
\<close>

section \<open>State\<close>

record Peer =
  peer_id :: PeerId
  consensus :: ConsensusEngine
  consensus_state :: ConsensusState
  effects :: PeerEffects

record PeerState =
  ps_peer_id :: PeerId
  ps_known_peers :: "PeerId list"
  ps_block :: BlockStorageState
  ps_consensus :: ConsensusState

record PeerStateView =
  psv_peer_id :: PeerId
  psv_block_storage_view :: BlockStorageView
  psv_consensus_state :: ConsensusState

datatype peer_error =
    PeerTransaction tx_error
  | PeerConsensus consensus_error
  | PeerEffect effect_error
  | PeerEffectBatch "effect_error list"

type_synonym 'r peer_call = "(Peer, peer_error, 'r) step"

definition Peer_new ::
    "('a) raft_ext_scheme \<Rightarrow> PeerId \<Rightarrow> RestNetwork \<Rightarrow> ConsensusEngine \<Rightarrow> BlockKeeper \<Rightarrow> SigningKey \<Rightarrow> Peer" where
  "Peer_new X me net c keeper key =
    \<lparr>peer_id = me, consensus = c, consensus_state = engine_state c,
     effects = PeerEffects_new X me net keeper key\<rparr>"

definition create_state_view :: "Peer \<Rightarrow> PeerStateView" where
  "create_state_view p =
    \<lparr>psv_peer_id = peer_id p,
     psv_block_storage_view = create_block_storage_view (block_keeper (effects p)),
     psv_consensus_state = consensus_state p\<rparr>"

definition get_state :: "PeerId list \<Rightarrow> PeerStateView \<Rightarrow> PeerState" where
  "get_state known v =
    \<lparr>ps_peer_id = psv_peer_id v, ps_known_peers = known,
     ps_block = get_latest_state (psv_block_storage_view v), ps_consensus = psv_consensus_state v\<rparr>"

section \<open>Handlers\<close>

text \<open>The state is published only when every effect has succeeded.\<close>

definition execute_consensus_effects :: "('a) raft_ext_scheme \<Rightarrow> ConsensusEffect list \<Rightarrow> unit peer_call" where
  "execute_consensus_effects X effs p =
    (case execute_all X effs (consensus p) (effects p) of
       (pe, c, Err errors) \<Rightarrow> (p\<lparr>consensus := c, effects := pe\<rparr>, Err (PeerEffectBatch errors))
     | (pe, c, Ok _) \<Rightarrow> (p\<lparr>consensus := c, effects := pe, consensus_state := engine_state c\<rparr>, Ok ()))"

text \<open>A call of the engine followed by the execution of what it answers.\<close>

definition consensus_then_effects ::
    "('a) raft_ext_scheme \<Rightarrow> ConsensusEngine \<times> (consensus_error + ConsensusEffect list) \<Rightarrow> unit peer_call" where
  "consensus_then_effects X out p =
    (case out of
       (c, Err e) \<Rightarrow> (p\<lparr>consensus := c\<rparr>, Err (PeerConsensus e))
     | (c, Ok effs) \<Rightarrow> execute_consensus_effects X effs (p\<lparr>consensus := c\<rparr>))"

definition peer_apply_synchronized_block :: "('a) raft_ext_scheme \<Rightarrow> BlockFile \<Rightarrow> unit peer_call" where
  "peer_apply_synchronized_block X b p =
    (case apply_synchronized_block X b (effects p) of
       (pe, r) \<Rightarrow> (p\<lparr>effects := pe\<rparr>, map_err PeerEffect r))"

definition process_client_transaction :: "('a) raft_ext_scheme \<Rightarrow> SignedTransaction \<Rightarrow> unit peer_call" where
  "process_client_transaction X tx p =
    (case SignedTransaction_verify X tx of
       Err e \<Rightarrow> (p, Err (PeerTransaction e))
     | Ok _ \<Rightarrow> consensus_then_effects X (on_client_transaction tx (consensus p)) p)"

definition synchronize_transaction :: "('a) raft_ext_scheme \<Rightarrow> VerifiedTransaction \<Rightarrow> unit peer_call" where
  "synchronize_transaction X vtx p =
    (case VerifiedTransaction_verify X vtx of
       Err e \<Rightarrow> (p, Err (PeerTransaction e))
     | Ok _ \<Rightarrow>
         (case stage_client_transaction X (client_tx vtx) (effects p) of
            (pe, Err e) \<Rightarrow> (p\<lparr>effects := pe\<rparr>, Err (PeerEffect e))
          | (pe, Ok AddedToMempool) \<Rightarrow> (p\<lparr>effects := pe\<rparr>, Ok ())
          | (pe, Ok (NewBlockCreated h)) \<Rightarrow>
              consensus_then_effects X (on_block_created X h (consensus p)) (p\<lparr>effects := pe\<rparr>)))"

definition process_block_proposal ::
    "('a) raft_ext_scheme \<Rightarrow> BlockHash \<Rightarrow> bytes \<Rightarrow> Signature \<Rightarrow> VerifyingKey \<Rightarrow> PeerId \<Rightarrow> unit peer_call" where
  "process_block_proposal X h bytes sig pk src p =
    (if last_completed_block (effects p) = h then (p, Ok ())
     else
       (case (case verify_block_vec X h bytes sig pk of
                Err _ \<Rightarrow> (effects p, Ok False)
              | Ok b \<Rightarrow> stage_external_block X b (effects p)) of
          (pe, Err e) \<Rightarrow> (p\<lparr>effects := pe\<rparr>, Err (PeerEffect e))
        | (pe, Ok valid) \<Rightarrow>
            consensus_then_effects X
              (on_block_proposal_validated h src valid (known_peers (network pe)) (consensus p))
              (p\<lparr>effects := pe\<rparr>)))"

definition make_vote_peer :: "('a) raft_ext_scheme \<Rightarrow> BlockHash \<Rightarrow> PeerId \<Rightarrow> bool \<Rightarrow> unit peer_call" where
  "make_vote_peer X h src approve p =
    consensus_then_effects X
      (on_block_vote h src approve (known_peers (network (effects p))) (consensus p)) p"

definition process_block_vote :: "('a) raft_ext_scheme \<Rightarrow> BlockHash \<Rightarrow> PeerId \<Rightarrow> bool \<Rightarrow> unit peer_call" where
  "process_block_vote X h src approve p =
    (if last_completed_block (effects p) \<noteq> h
     then (case ensure_uncommitted_block h (effects p) of
             Err e \<Rightarrow> (p, Err (PeerEffect e))
           | Ok _ \<Rightarrow>
               consensus_then_effects X
                 (on_block_vote h src approve (known_peers (network (effects p))) (consensus p)) p)
     else (p, Ok ()))"

definition dispatch_to_consensus ::
    "('a) raft_ext_scheme \<Rightarrow> nat \<Rightarrow> instant \<Rightarrow> PeerId \<Rightarrow> MessageBody \<Rightarrow> unit peer_call" where
  "dispatch_to_consensus X draw now src body p =
    consensus_then_effects X (on_message X draw src body now (consensus p)) p"

definition handle_tick :: "('a) raft_ext_scheme \<Rightarrow> instant \<Rightarrow> unit peer_call" where
  "handle_tick X now p =
    consensus_then_effects X (on_tick X now (known_peers (network (effects p))) (consensus p)) p"

text \<open>The dispatch of a message; \<^verbatim>\<open>handle_message\<close> prints the error and drops it.\<close>

fun process_message ::
    "('a) raft_ext_scheme \<Rightarrow> nat \<Rightarrow> instant \<Rightarrow> PeerId \<Rightarrow> MessageBody \<Rightarrow> unit peer_call" where
  "process_message X draw now src (ClientTransaction tx) p = process_client_transaction X tx p"
| "process_message X draw now src (Synchronization vtx) p = synchronize_transaction X vtx p"
| "process_message X draw now src (BlockProposal h bytes sig pk) p =
    process_block_proposal X h bytes sig pk src p"
| "process_message X draw now src (BlockApproved h) p = process_block_vote X h src True p"
| "process_message X draw now src (BlockReject h) p = process_block_vote X h src False p"
| "process_message X draw now src body p = dispatch_to_consensus X draw now src body p"

definition handle_message :: "('a) raft_ext_scheme \<Rightarrow> nat \<Rightarrow> instant \<Rightarrow> Message \<Rightarrow> Peer \<Rightarrow> Peer" where
  "handle_message X draw now m p = fst (process_message X draw now (msg_from m) (msg_body m) p)"

end
