(* ===== verification/Peer_Voting.thy ===== *)
theory Peer_Voting
  imports Peer
begin

text \<open>
  A peer with the voting engine: which blocks it approves, and what happens to a client transaction
  when it knows no other peer.
\<close>

section \<open>Effects that leave the votes alone\<close>

lemma stage_raft_entries_voting: "fst (snd (stage_raft_entries X es (VotingEngine me vs) pe)) = VotingEngine me vs"
  by (induction es arbitrary: pe) (auto simp: Let_def split: option.split sum.split prod.split)

lemma execute_effect_voting:
  "rank e = 0 \<Longrightarrow> fst (snd (execute_effect X e (VotingEngine me vs) pe)) = VotingEngine me vs"
proof (cases e)
  case (StageRaftEntries es)
  then show ?thesis
    using stage_raft_entries_voting [of X es me vs pe] by (auto split: prod.split)
qed (auto simp: plain_def)

lemma run_effects_voting:
  "\<forall>e \<in> set es. rank e = 0 \<Longrightarrow> fst (snd (run_effects X es (VotingEngine me vs) pe)) = VotingEngine me vs"
proof (induction es arbitrary: pe)
  case (Cons e es)
  obtain pe1 c1 r added where e: "execute_effect X e (VotingEngine me vs) pe = (pe1, c1, r, added)"
    by (metis prod_cases4)
  have "c1 = VotingEngine me vs"
    using execute_effect_voting [of e X me vs pe] Cons.prems by (simp add: e)
  then show ?case
    using Cons.IH [of pe1] Cons.prems by (auto simp: e split: prod.split)
qed simp

lemma execute_consensus_effects_voting:
  assumes "\<forall>e \<in> set es. rank e = 0" "consensus p = VotingEngine me vs"
  shows "consensus (fst (execute_consensus_effects X es p)) = VotingEngine me vs"
  using run_effects_voting [OF assms(1), of X me vs "effects p"]
  by (auto simp: execute_consensus_effects_def execute_all_plain [OF assms(1)] assms(2) split: prod.split)

lemma handle_voting_vote_rank: "\<forall>e \<in> set (snd (handle_voting_vote me known h q a vs)). rank e = 0"
  by (auto simp: handle_voting_vote_def Let_def split: prod.split ConsensusOutcome.split)

lemma proposal_validated_rank:
  "\<forall>e \<in> set (snd (voting_on_block_proposal_validated me h q valid known vs)). rank e = 0"
  using handle_voting_vote_rank [of me known h q True vs]
    handle_voting_vote_rank [of me known h me valid "fst (handle_voting_vote me known h q True vs)"]
  by (auto simp: voting_on_block_proposal_validated_def Let_def split: prod.split)

section \<open>Who approves a block\<close>

definition approvers :: "votings \<Rightarrow> BlockHash \<Rightarrow> PeerId set" where
  "approvers vs h = (case vs h of Some c \<Rightarrow> set (approvals c) | None \<Rightarrow> {})"

lemma handle_voting_vote_approvers:
  "approvers (fst (handle_voting_vote me known h q a vs)) h \<subseteq> approvers vs h \<union> (if a then {q} else {})"
proof -
  define c where "c = (case vs h of Some c \<Rightarrow> c | None \<Rightarrow> VotingConsensus_new me known)"
  have c: "set (approvals c) = approvers vs h"
    by (auto simp: c_def approvers_def VotingConsensus_new_def split: option.split)
  have "set (approvals (fst (make_vote q a c))) \<subseteq> set (approvals c) \<union> (if a then {q} else {})"
    by (auto simp: make_vote_def Let_def split: option.split)
  then show ?thesis
    unfolding handle_voting_vote_def Let_def c_def [symmetric]
    by (auto simp: approvers_def c [symmetric] c split: prod.splits)
qed

lemma proposal_validated_approvers:
  "approvers (fst (voting_on_block_proposal_validated me h q valid known vs)) h
    \<subseteq> approvers vs h \<union> {q} \<union> (if valid then {me} else {})"
  using handle_voting_vote_approvers [of me known h q True vs]
    handle_voting_vote_approvers [of me known h me valid "fst (handle_voting_vote me known h q True vs)"]
  by (auto simp: voting_on_block_proposal_validated_def Let_def split: prod.splits if_splits)

section \<open>Concrete inputs\<close>

definition test_peer_ext :: raft_ext where
  "test_peer_ext = block_ext.extend (test_block_ext (\<lambda>_. Some test_block1)) (raft_ext.fields (\<lambda>_. []) (\<lambda>_. None))"

lemma test_peer_ext_sel [simp]:
  "ec_verify test_peer_ext = (\<lambda>k m s. s = k @ m)" "ec_sign test_peer_ext = (\<lambda>k m. k @ m)"
  "ec_verifying_key test_peer_ext = (\<lambda>k. k)"
  "block_from_slice test_peer_ext = (\<lambda>_. Some test_block1)"
  "sha256 test_peer_ext = test_sha256" "hex_encode test_peer_ext = test_hex"
  "transactions_to_string test_peer_ext = (\<lambda>txs. concat (map signature txs))"
  "transaction_to_vec test_peer_ext = (\<lambda>t. [ucast (sequence_number (metadata t))])"
  "signed_transaction_to_vec test_peer_ext = signature"
  "block_to_vec test_peer_ext = (\<lambda>b. ucast (bf_index b) # as_bytes (bf_hash b))"
  by (simp_all add: test_peer_ext_def test_block_ext_def block_ext.defs raft_ext.defs)

lemma test_hash_not_empty: "EMPTY_HASH \<noteq> bf_hash test_block1"
proof -
  have "last (as_bytes (bf_hash test_block1)) = 8" "last (as_bytes EMPTY_HASH) = 0"
    by code_simp+
  then show ?thesis
    by auto
qed

definition test_network :: "PeerId list \<Rightarrow> RestNetwork" where
  "test_network ps = (RestNetwork_new (PeerId 1) 10)\<lparr>rn_known_peers := map (\<lambda>p. (p, SocketAddr [127, 0, 0, 1] 3000)) ps\<rparr>"

definition test_voting_peer :: "PeerId list \<Rightarrow> Peer" where
  "test_voting_peer ps = Peer_new test_peer_ext (PeerId 1) (test_network ps) (new_voting (PeerId 1)) (test_keeper 1) [7]"

lemma test_voting_peer_sel [simp]:
  "consensus (test_voting_peer ps) = VotingEngine (PeerId 1) Map.empty"
  "rn_known_peers (network (effects (test_voting_peer ps))) = map (\<lambda>p. (p, SocketAddr [127, 0, 0, 1] 3000)) ps"
  "block_keeper (effects (test_voting_peer ps)) = test_keeper 1"
  "transaction_processor (effects (test_voting_peer ps)) = TransactionProcessor_default"
  "last_completed_block (effects (test_voting_peer ps)) = EMPTY_HASH"
  by (simp_all add: test_voting_peer_def Peer_new_def PeerEffects_new_def new_voting_def test_network_def)

section \<open>Properties\<close>

text \<open>
  C19. A voting peer approves a proposed block only if it has staged it: if handling a proposal adds
  the peer's own approval of the block, then the payload carried a valid signature, decoded to a block
  with the proposed hash, that hash is the hash of its transactions and its previous hash, and the
  block extends the peer's chain. The proposal must come from another peer: a proposal that names the
  peer itself as its sender counts as its approval.
\<close>

theorem approves_only_staged_blocks:
  assumes "consensus p = VotingEngine me vs" "me \<notin> approvers vs h" "src \<noteq> me"
    and "consensus (fst (process_block_proposal X h bytes sig pk src p)) = VotingEngine me vs'"
    and "me \<in> approvers vs' h"
  shows "\<exists>b. verify_block_vec X h bytes sig pk = Ok b \<and> block_can_be_added (block_keeper (effects p)) b \<and>
    get_uncommited_block (block_keeper (fst (stage_external_block X b (effects p)))) h = Some b"
proof -
  define staged where "staged = (case verify_block_vec X h bytes sig pk of
      Err _ \<Rightarrow> (effects p, Ok False) | Ok b \<Rightarrow> stage_external_block X b (effects p))"
  obtain pe r where pe: "staged = (pe, r)"
    by fastforce
  have not_done: "last_completed_block (effects p) \<noteq> h"
    using assms by (auto simp: process_block_proposal_def)
  have "r = Ok True"
  proof (cases r)
    case (Inl e)
    then show ?thesis
      using assms not_done pe by (simp add: process_block_proposal_def staged_def)
  next
    case (Inr valid)
    define out where "out = voting_on_block_proposal_validated me h src valid (known_peers (network pe)) vs"
    have "consensus (fst (process_block_proposal X h bytes sig pk src p)) = VotingEngine me (fst out)"
      using not_done pe Inr assms(1) proposal_validated_rank
        execute_consensus_effects_voting [of "snd out" "p\<lparr>effects := pe, consensus := VotingEngine me (fst out)\<rparr>" me "fst out" X]
      by (simp add: process_block_proposal_def staged_def consensus_then_effects_def voting_call_def out_def)
    then have "vs' = fst out"
      using assms(4) by simp
    then show ?thesis
      using assms(2,3,5) proposal_validated_approvers [of me h src valid "known_peers (network pe)" vs] Inr
      by (auto simp: out_def split: if_splits)
  qed
  then obtain b where b: "verify_block_vec X h bytes sig pk = Ok b" "stage_external_block X b (effects p) = (pe, Ok True)"
    using pe by (cases "verify_block_vec X h bytes sig pk") (simp_all add: staged_def)
  have "bf_hash b = h"
    using b(1) by (auto simp: verify_block_vec_def split: sum.splits if_splits)
  then show ?thesis
    using b by (auto simp: stage_external_block_def add_external_block_def get_uncommited_block_def Let_def update_conv'
        split: if_splits prod.splits sum.splits)
qed

theorem approves_only_staged_blocks_witness:
  "\<exists>b. verify_block_vec test_peer_ext (bf_hash test_block1) [5] [9, 5] [9] = Ok b \<and>
    block_can_be_added (test_keeper 1) b \<and>
    get_uncommited_block (block_keeper (fst (stage_external_block test_peer_ext b
      (effects (test_voting_peer [PeerId 2, PeerId 3, PeerId 4]))))) (bf_hash test_block1) = Some b"
proof -
  let ?p = "test_voting_peer [PeerId 2, PeerId 3, PeerId 4]" and ?h = "bf_hash test_block1"
  have v: "verify_block_vec test_peer_ext ?h [5] [9, 5] [9] = Ok test_block1"
    by (simp add: verify_block_vec_def verify_message_def BlockFile_try_from_def verify_block_def calculate_hash_def
        test_block_file_def BlockFile_create_def test_block_ext_def)
  have "block_can_be_added (test_keeper 1) test_block1"
    by (simp add: block_can_be_added_def test_block_file_def)
  moreover have "verify_block test_peer_ext test_block1 = Ok ()"
    using v by (auto simp: verify_block_vec_def BlockFile_try_from_def split: sum.splits if_splits)
  ultimately obtain pe where pe: "stage_external_block test_peer_ext test_block1 (effects ?p) = (pe, Ok True)"
    "known_peers (network pe) = [PeerId 2, PeerId 3, PeerId 4]"
    by (simp add: stage_external_block_def add_external_block_def Let_def apply_block_transactions_def known_peers_def
        del: verify_block_iff)
  have "voting_on_block_proposal_validated (PeerId 1) ?h (PeerId 2) True [PeerId 2, PeerId 3, PeerId 4] Map.empty =
    ([?h \<mapsto> \<lparr>participants = [PeerId 1, PeerId 4, PeerId 3, PeerId 2], approvals = [PeerId 1, PeerId 2], rejections = [],
      outcome = None\<rparr>], [])"
    by (simp add: voting_on_block_proposal_validated_def handle_voting_vote_def VotingConsensus_new_def
        hash_set_from_def already_voted_def make_vote_def evaluate_outcome_def Let_def List.insert_def)
  with pe test_hash_not_empty have "\<exists>vs'. consensus (fst (process_block_proposal test_peer_ext ?h [5] [9, 5] [9] (PeerId 2) ?p)) = VotingEngine (PeerId 1) vs' \<and>
    PeerId 1 \<in> approvers vs' ?h"
    by (simp add: process_block_proposal_def v consensus_then_effects_def voting_call_def execute_consensus_effects_def
        execute_all_def approvers_def)
  then show ?thesis
    using approves_only_staged_blocks [of ?p "PeerId 1" Map.empty ?h "PeerId 2" test_peer_ext "[5]" "[9, 5]" "[9]"]
    by (auto simp: approvers_def)
qed

text \<open>
  A voting peer that knows no other peer decides alone: a valid client transaction that fills the
  mempool makes a block that is committed by the same call; one that does not stays in the mempool.
  Nothing is sent, and the votes are left alone.
\<close>

theorem solo_peer_commits:
  assumes "consensus p = VotingEngine me vs" "rn_known_peers (network (effects p)) = []"
    and "SignedTransaction_verify X tx = Ok ()"
    and "process_transaction X tx (transaction_processor (effects p)) = (tp, Ok ())"
    and "add_transaction X tx (block_keeper (effects p)) = (k, status)"
  shows "process_client_transaction X tx p =
    (case status of
       AddedToMempool \<Rightarrow>
         (p\<lparr>effects := (effects p)\<lparr>transaction_processor := tp, block_keeper := k\<rparr>, consensus_state := VotingState\<rparr>, Ok ())
     | NewBlockCreated h \<Rightarrow>
         (case commit_block X h k of
            (k', Ok _) \<Rightarrow>
              (p\<lparr>effects := (effects p)\<lparr>transaction_processor := tp, block_keeper := k'\<rparr>,
                 consensus_state := VotingState\<rparr>, Ok ())
          | (k', Err e) \<Rightarrow>
              (p\<lparr>effects := (effects p)\<lparr>transaction_processor := tp, block_keeper := k'\<rparr>\<rparr>,
               Err (PeerEffectBatch [EffStorage e]))))"
proof -
  have quiet: "broadcast_client_transaction X tx pe = pe" if "rn_known_peers (network pe) = []" for pe
    using that by (simp add: broadcast_client_transaction_def broadcast_peer_message_def)
  have staged: "stage_client_transaction X tx (effects p) =
      ((effects p)\<lparr>transaction_processor := tp, block_keeper := k\<rparr>, Ok status)"
    using assms by (simp add: stage_client_transaction_def)
  show ?thesis
    using assms staged quiet
    by (auto simp: process_client_transaction_def consensus_then_effects_def execute_consensus_effects_def
        voting_on_client_transaction_def voting_on_block_created_def execute_all_rounds numeral_3_eq_3
        broadcast_block_proposal_def known_peers_def Let_def split: BlockStatus.split prod.split sum.split)
qed

theorem solo_peer_commits_witness:
  "\<exists>p. process_client_transaction test_peer_ext (test_coin 1) (test_voting_peer []) = (p, Ok ()) \<and>
    block_height (block_storage_state (block_keeper (effects p))) = 1"
proof -
  obtain tp where tp: "process_transaction test_peer_ext (test_coin 1) TransactionProcessor_default = (tp, Ok ())"
    by (simp add: process_transaction_def test_tx_def TransactionProcessor_default_def add_coin_def Let_def)
  obtain k h where k: "add_transaction test_peer_ext (test_coin 1) (test_keeper 1) = (k, NewBlockCreated h)"
    by (simp add: add_transaction_def create_new_block_def Let_def)
  obtain k' where k': "commit_block test_peer_ext h k = (k', Ok ())" "block_height (block_storage_state k') = 1"
    using k by (auto simp: add_transaction_def create_new_block_def Let_def commit_block_def fs_write_def test_disk_def)
  have "SignedTransaction_verify test_peer_ext (test_coin 1) = Ok ()"
    by (simp add: SignedTransaction_verify_def test_tx_def to_sign_bytes_def)
  from solo_peer_commits [of "test_voting_peer []" "PeerId 1" Map.empty test_peer_ext "test_coin 1" tp k "NewBlockCreated h", OF _ _ this]
  show ?thesis
    using tp k k' by simp
qed

end
