(* ===== verification/Replication_Payload.thy ===== *)
theory Replication_Payload
  imports Peer_Voting
begin

text \<open>
  The payload of Raft replication: what a leader attaches to the entries it sends is what a follower
  accepts, and what a follower sends back does not depend on whether its effects succeeded.
\<close>

section \<open>From the leader's keeper to the follower's pending blocks\<close>

text \<open>The block a keeper holds under a hash, staged or committed.\<close>

definition held_block :: "('a) block_ext_scheme \<Rightarrow> BlockKeeper \<Rightarrow> BlockHash \<Rightarrow> BlockFile option" where
  "held_block X k h =
    (case get_uncommited_block k h of
       Some b \<Rightarrow> Some b
     | None \<Rightarrow> (case read_block_by_hash X k h of Ok b \<Rightarrow> Some b | Err _ \<Rightarrow> None))"

definition codec_correct :: "('a) block_ext_scheme \<Rightarrow> BlockKeeper \<Rightarrow> bool" where
  "codec_correct X k \<longleftrightarrow> (\<forall>h b. held_block X k h = Some b \<longrightarrow> block_from_slice X (block_to_vec X b) = Some b)"

definition disk_verified :: "('a) block_ext_scheme \<Rightarrow> BlockKeeper \<Rightarrow> bool" where
  "disk_verified X k \<longleftrightarrow> (\<forall>h b. read_block_by_hash X k h = Ok b \<longrightarrow> verify_block X b = Ok ())"

lemma find_block_by_hash_hash: "find_block_by_hash X d h names = Ok b \<Longrightarrow> bf_hash b = h"
  by (induction names) (auto split: sum.splits if_splits)

lemma held_block_ok:
  assumes "keeper_wf X k" "disk_verified X k" "held_block X k h = Some b"
  shows "bf_hash b = h \<and> verify_block X b = Ok ()"
  using assms find_block_by_hash_hash
  by (fastforce simp: held_block_def disk_verified_def get_uncommited_block_def keeper_wf_def blocks_wf_def keyed_by_def
      read_block_by_hash_def simp del: verify_block_iff split: option.splits sum.splits)

lemma replicate_entries_entries: "replicate_entries X pe es = Ok rbs \<Longrightarrow> map rb_entry rbs = es"
  by (induction es arbitrary: rbs) (auto simp: Let_def split: sum.splits)

lemma replicate_entries_Cons:
  assumes "replicate_entries X pe (e # es) = Ok rbs"
  obtains bytes rbs' where
    "if is_noop e then bytes = [] else \<exists>b. held_block X (block_keeper pe) (le_block_hash e) = Some b \<and> bytes = block_to_vec X b"
    "replicate_entries X pe es = Ok rbs'"
    "rbs = \<lparr>rb_entry = e, rb_block_file = bytes, rb_signature = ec_sign X (signing_key pe) bytes,
            rb_public_key = pe_public_key pe\<rparr> # rbs'"
  using assms by (auto simp: Let_def held_block_def split: sum.splits if_splits option.splits)

fun payload_blocks ::
    "('a) block_ext_scheme \<Rightarrow> BlockKeeper \<Rightarrow> RaftLogEntry list \<Rightarrow> (BlockHash \<rightharpoonup> BlockFile) \<Rightarrow> (BlockHash \<rightharpoonup> BlockFile)" where
  "payload_blocks X k [] bl = bl"
| "payload_blocks X k (e # es) bl =
    payload_blocks X k es (if is_noop e then bl else bl(le_block_hash e := held_block X k (le_block_hash e)))"

lemma payload_blocks_lookup:
  "payload_blocks X k es bl h =
    (if \<exists>e \<in> set es. \<not> is_noop e \<and> le_block_hash e = h then held_block X k h else bl h)"
  by (induction es arbitrary: bl) auto

lemma validate_replicated:
  assumes "ecdsa_correct X" "codec_correct X (block_keeper pe)" "keeper_wf X (block_keeper pe)" "disk_verified X (block_keeper pe)"
    and "pe_public_key pe = ec_verifying_key X (signing_key pe)"
    and "replicate_entries X pe es = Ok rbs"
  shows "validate_replicated_entries X rbs bl acc = Ok (acc @ es, payload_blocks X (block_keeper pe) es bl)"
  using assms(6)
proof (induction es arbitrary: rbs bl acc)
  case (Cons e es)
  from Cons.prems obtain bytes rbs' where
    b: "if is_noop e then bytes = [] else \<exists>b. held_block X (block_keeper pe) (le_block_hash e) = Some b \<and> bytes = block_to_vec X b"
    and rbs': "replicate_entries X pe es = Ok rbs'"
    and rbs: "rbs = \<lparr>rb_entry = e, rb_block_file = bytes, rb_signature = ec_sign X (signing_key pe) bytes,
            rb_public_key = pe_public_key pe\<rparr> # rbs'"
    by (rule replicate_entries_Cons)
  have sig: "verify_message X (pe_public_key pe) (ec_sign X (signing_key pe) bytes) bytes = Ok ()"
    using assms(1,5) by (simp add: verify_message_def ecdsa_correct_def)
  show ?case
  proof (cases "is_noop e")
    case True
    then show ?thesis
      using b sig Cons.IH [OF rbs'] by (simp add: rbs verify_message_def)
  next
    case False
    then obtain blk where blk: "held_block X (block_keeper pe) (le_block_hash e) = Some blk" "bytes = block_to_vec X blk"
      using b by auto
    then have "verify_block_vec X (le_block_hash e) bytes (ec_sign X (signing_key pe) bytes) (pe_public_key pe) = Ok blk"
      using sig held_block_ok [OF assms(3,4) blk(1)] assms(2) blk(1)
      by (auto simp: verify_block_vec_Ok codec_correct_def)
    then show ?thesis
      using False blk Cons.IH [OF rbs'] by (simp add: rbs fun_upd_def)
  qed
qed simp

section \<open>Messages handed to the network\<close>

definition net_extends :: "RestNetwork \<Rightarrow> RestNetwork \<Rightarrow> bool" where
  "net_extends n n' \<longleftrightarrow> known_peers n' = known_peers n \<and> (\<exists>ms. handed_over n' = handed_over n @ ms)"

lemma net_extends_refl: "net_extends n n"
  by (simp add: net_extends_def)

lemma net_extends_trans: "net_extends n1 n2 \<Longrightarrow> net_extends n2 n3 \<Longrightarrow> net_extends n1 n3"
  by (auto simp: net_extends_def)

lemma net_extends_send: "net_extends n (send_peer_message m n)"
  by (simp add: net_extends_def rn.handed_send rn.known_send)

lemma net_extends_broadcast: "net_extends n (broadcast_peer_message b f n)"
  by (simp add: net_extends_def rn.handed_broadcast rn.known_broadcast)

lemmas net_extends_intros = net_extends_refl net_extends_send net_extends_broadcast

lemma net_extends_stage_raft_entries: "network (fst (stage_raft_entries X es c pe)) = network pe"
  by (induction es arbitrary: c pe)
    (auto simp: Let_def apply_block_transactions_def split: option.split sum.split prod.split)

lemma net_extends_execute_effect: "net_extends (network pe) (network (fst (execute_effect X e c pe)))"
proof (cases e)
  case (StageRaftEntries es)
  then show ?thesis
    using net_extends_stage_raft_entries [of X es c pe] net_extends_refl by (auto split: prod.split)
next
  case (StageClientTransaction tx)
  then show ?thesis
    by (auto simp: stage_client_transaction_def net_extends_refl split: sum.split prod.split BlockStatus.split)
next
  case (ProposeBlock h)
  then show ?thesis
    by (auto simp: broadcast_block_proposal_def Let_def net_extends_intros split: sum.split prod.split option.split)
qed (auto simp: plain_def send_raft_append_entries_def execute_commit_def execute_rollback_def Let_def
    broadcast_client_transaction_def net_extends_intros split: sum.split prod.split option.split)

lemma net_extends_run_effects: "net_extends (network pe) (network (fst (run_effects X es c pe)))"
proof (induction es arbitrary: c pe)
  case (Cons e es)
  obtain pe1 c1 r added where e: "execute_effect X e c pe = (pe1, c1, r, added)"
    by (metis prod_cases4)
  then show ?case
    using net_extends_execute_effect [of pe X e c] Cons.IH [of pe1 c1] net_extends_trans by (auto split: prod.split)
qed (simp add: net_extends_refl)

lemma stage_raft_entries_peer_id: "pe_peer_id (fst (stage_raft_entries X es c pe)) = pe_peer_id pe"
  by (induction es arbitrary: c pe)
    (auto simp: Let_def apply_block_transactions_def split: option.split sum.split prod.split)

lemma execute_effect_peer_id: "pe_peer_id (fst (execute_effect X e c pe)) = pe_peer_id pe"
proof (cases e)
  case (StageRaftEntries es)
  then show ?thesis
    using stage_raft_entries_peer_id [of X es c pe] by (auto split: prod.split)
qed (auto simp: plain_def send_raft_append_entries_def execute_commit_def execute_rollback_def Let_def
    stage_client_transaction_def broadcast_block_proposal_def broadcast_client_transaction_def
    split: sum.split prod.split option.split BlockStatus.split)

lemma run_effects_sends:
  assumes "Send to body \<in> set es" "to \<in> set (known_peers (network pe))"
  shows "\<lparr>msg_from = pe_peer_id pe, msg_to = to, msg_body = body\<rparr> \<in> set (handed_over (network (fst (run_effects X es c pe))))"
  using assms
proof (induction es arbitrary: c pe)
  case (Cons e es)
  obtain pe1 c1 r added where e: "execute_effect X e c pe = (pe1, c1, r, added)"
    by (metis prod_cases4)
  have id: "pe_peer_id pe1 = pe_peer_id pe" and known: "known_peers (network pe1) = known_peers (network pe)"
    using execute_effect_peer_id [of X e c pe] net_extends_execute_effect [of pe X e c]
    by (simp_all add: e net_extends_def)
  obtain ms where ms: "handed_over (network (fst (run_effects X es c1 pe1))) = handed_over (network pe1) @ ms"
    using net_extends_run_effects [of pe1 X es c1] by (auto simp: net_extends_def)
  show ?case
  proof (cases "e = Send to body")
    case True
    then have "\<lparr>msg_from = pe_peer_id pe, msg_to = to, msg_body = body\<rparr> \<in> set (handed_over (network pe1))"
      using e Cons.prems(2) by (auto simp: rn.handed_send)
    then show ?thesis
      using ms by (auto simp: e split: prod.split)
  next
    case False
    then show ?thesis
      using Cons.IH [of pe1 c1] Cons.prems id known by (auto simp: e split: prod.split)
  qed
qed simp

section \<open>Concrete inputs\<close>

definition test_raft_effects :: PeerEffects where
  "test_raft_effects = (PeerEffects_new test_peer_ext (PeerId 1) (test_network [PeerId 2]) test_staged [7])"

definition test_raft_entry :: RaftLogEntry where
  "test_raft_entry = \<lparr>le_term = 1, le_index = 1, le_block_hash = bf_hash test_block1\<rparr>"

abbreviation test_raft_engine :: ConsensusEngine where
  "test_raft_engine \<equiv> RaftEngine (new_with_log 0 0 (PeerId 1) [] 0 (InMemory InMemory_new))"

section \<open>Properties\<close>

text \<open>
  C25. What a leader replicates, a follower accepts: when the leader finds the block of every entry
  among its staged or committed blocks, the signed payload it builds passes the follower's validation,
  which returns the same entries in the same order together with exactly the blocks the leader holds.
\<close>

theorem replicated_entries_validate:
  assumes "ecdsa_correct X" "codec_correct X (block_keeper pe)" "keeper_wf X (block_keeper pe)"
    and "disk_verified X (block_keeper pe)" "pe_public_key pe = ec_verifying_key X (signing_key pe)"
    and "replicate_entries X pe es = Ok rbs"
  shows "\<exists>blocks. validate_replicated_entries X rbs Map.empty [] = Ok (es, blocks) \<and>
    (\<forall>h. blocks h = (if \<exists>e \<in> set es. \<not> is_noop e \<and> le_block_hash e = h
                      then held_block X (block_keeper pe) h else None))"
  using validate_replicated [OF assms, of Map.empty "[]"] by (simp add: payload_blocks_lookup)

theorem replicated_entries_validate_witness:
  "\<exists>rbs blocks. replicate_entries test_peer_ext test_raft_effects [test_raft_entry, noop 1 2] = Ok rbs \<and>
    validate_replicated_entries test_peer_ext rbs Map.empty [] = Ok ([test_raft_entry, noop 1 2], blocks) \<and>
    blocks (bf_hash test_block1) = Some test_block1"
proof -
  let ?pe = test_raft_effects
  have keeper: "block_keeper ?pe = test_staged" "pe_public_key ?pe = ec_verifying_key test_peer_ext (signing_key ?pe)"
    by (simp_all add: test_raft_effects_def PeerEffects_new_def)
  have held: "held_block test_peer_ext test_staged h = (if h = bf_hash test_block1 then Some test_block1 else None)" for h
    by (simp add: held_block_def get_uncommited_block_def read_block_by_hash_def list_all_blocks_def
        dir_list_all_blocks_def test_disk_def)
  have "disk_verified test_peer_ext test_staged"
    by (simp add: disk_verified_def read_block_by_hash_def list_all_blocks_def dir_list_all_blocks_def test_disk_def)
  moreover have "codec_correct test_peer_ext test_staged"
    by (simp add: codec_correct_def held)
  moreover have "ecdsa_correct test_peer_ext"
    by (simp add: ecdsa_correct_def)
  moreover have "keeper_wf test_peer_ext test_staged"
    by (simp add: keeper_wf_def blocks_wf_def keys_distinct_def keyed_by_def test_block_file_def calculate_hash_def)
  moreover obtain rbs where "replicate_entries test_peer_ext ?pe [test_raft_entry, noop 1 2] = Ok rbs"
    by (simp add: keeper is_noop_def noop_def test_raft_entry_def get_uncommited_block_def Let_def test_hash_not_empty [symmetric])
  ultimately show ?thesis
    using replicated_entries_validate [of test_peer_ext ?pe "[test_raft_entry, noop 1 2]" rbs] test_hash_not_empty
    by (auto simp: keeper held is_noop_def test_raft_entry_def test_hash_not_empty [symmetric])
qed

text \<open>
  C36. A reply is sent whether or not the effects before it succeed: among effects that add no
  others, a message to a known peer is handed to the network even if staging or committing failed, so
  an acknowledgement of Raft entries does not show that their blocks were staged.
\<close>

theorem reply_sent_despite_errors:
  assumes "\<forall>e \<in> set effs. rank e = 0" "Send to body \<in> set effs" "to \<in> set (known_peers (network pe))"
    and "execute_all X effs c pe = (pe', c', r)"
  shows "\<lparr>msg_from = pe_peer_id pe, msg_to = to, msg_body = body\<rparr> \<in> set (handed_over (network pe'))"
  using run_effects_sends [OF assms(2,3), of X c] assms(4)
  by (auto simp: execute_all_plain [OF assms(1)] split: prod.splits)

theorem reply_sent_despite_errors_witness:
  "\<exists>pe' c'. execute_all test_peer_ext [StageRaftEntries [\<lparr>le_term = 1, le_index = 1, le_block_hash = BlockHash [3]\<rparr>],
      Send (PeerId 2) (RaftAppendEntriesResponse 1 True 1)] test_raft_engine test_raft_effects =
      (pe', c', Err [RaftBlockNotFound (BlockHash [3]) 1]) \<and>
    \<lparr>msg_from = PeerId 1, msg_to = PeerId 2, msg_body = RaftAppendEntriesResponse 1 True 1\<rparr> \<in> set (handed_over (network pe'))"
proof -
  let ?e = "\<lparr>le_term = 1, le_index = 1, le_block_hash = BlockHash [3]\<rparr>"
  let ?effs = "[StageRaftEntries [?e], Send (PeerId 2) (RaftAppendEntriesResponse 1 True 1)]"
  have "\<not> is_noop ?e"
    by (auto simp: is_noop_def EMPTY_HASH_def dest: arg_cong [of _ _ length])
  moreover have "BlockHash [3] \<noteq> bf_hash test_block1"
    by (auto simp: test_block_file_def calculate_hash_def test_sha256_def dest: arg_cong [of _ _ length])
  ultimately obtain pe' c' where ex: "execute_all test_peer_ext ?effs test_raft_engine test_raft_effects =
      (pe', c', Err [RaftBlockNotFound (BlockHash [3]) 1])"
    by (simp add: execute_all_plain take_pending_block_def new_with_log_def test_raft_effects_def PeerEffects_new_def get_uncommited_block_def)
  then show ?thesis
    using reply_sent_despite_errors [of ?effs "PeerId 2" "RaftAppendEntriesResponse 1 True 1" test_raft_effects test_peer_ext
        test_raft_engine]
    by (simp add: test_raft_effects_def PeerEffects_new_def known_peers_def test_network_def)
qed

end
