(* ===== verification/Rejected_Blocks.thy ===== *)
theory Rejected_Blocks
  imports Peer_Voting
begin

text \<open>
  What the rejection of a peer's own block leaves behind: the effect \<^verbatim>\<open>RollbackBlock\<close> undoes the
  transactions of the block and returns them to the mempool, which makes the same block again.
\<close>

lemma reverse_applied [simp]:
  "applied_transactions (reverse_add_coin a n p) = applied_transactions p"
  "applied_transactions (reverse_send_coins s r n p) = applied_transactions p"
  by (simp_all add: reverse_add_coin_def reverse_send_coins_def split: option.split)

lemma rollback_transaction_applied:
  "applied_transactions (rollback_transaction X tx p) = applied_transactions p - {tx_id X tx}"
  by (auto simp: rollback_transaction_def Let_def split: Operation.split)

lemma rollback_transactions_applied:
  "applied_transactions (rollback_transactions X txs p) = applied_transactions p - tx_id X ` set txs"
  by (induction txs arbitrary: p) (auto simp: rollback_transactions_def rollback_transaction_applied)

section \<open>Properties\<close>

text \<open>
  C34. A rejected block stays behind without its transactions: after a peer has made a block from its
  mempool, the effect that rolls it back succeeds, the same block is staged again under the same hash,
  and none of its transactions is applied any more; a later commit of that hash writes the block to disk
  and still leaves its transactions out of the accounts.
\<close>

theorem rejected_block_stays_unapplied:
  assumes "keeper_wf X k" "add_transaction X tx k = (block_keeper pe, NewBlockCreated h)"
  shows "\<exists>pe1 b. execute_rollback X h pe = (pe1, Ok ()) \<and> get_uncommited_block (block_keeper pe1) h = Some b \<and>
    (\<forall>t \<in> set (bf_transactions b). tx_id X t \<notin> applied_transactions (transaction_processor pe1)) \<and>
    (\<forall>pe2. execute_commit X h pe1 = (pe2, Ok ()) \<longrightarrow> transaction_processor pe2 = transaction_processor pe1)"
proof -
  obtain k2 b where k2: "rollback_block X h (block_keeper pe) = (k2, Ok ())"
    "map_of (uncommited_blocks (block_keeper pe)) h = Some b" "map_of (uncommited_blocks k2) h = Some b"
    using rollback_recreates [OF assms] by blast
  have "\<forall>pe1 pe2. execute_commit X h pe1 = (pe2, Ok ()) \<longrightarrow> transaction_processor pe2 = transaction_processor pe1"
    by (auto simp: execute_commit_def split: prod.splits sum.splits)
  then show ?thesis
    using k2 by (simp add: execute_rollback_def get_uncommited_block_def rollback_transactions_applied Let_def)
qed

theorem rejected_block_stays_unapplied_witness:
  "\<exists>k1 h pe1 b. add_transaction test_peer_ext (test_coin 1) (test_keeper 1) = (k1, NewBlockCreated h) \<and>
    execute_rollback test_peer_ext h ((effects (test_voting_peer []))\<lparr>block_keeper := k1\<rparr>) = (pe1, Ok ()) \<and>
    get_uncommited_block (block_keeper pe1) h = Some b"
proof -
  obtain k1 h where "add_transaction test_peer_ext (test_coin 1) (test_keeper 1) = (k1, NewBlockCreated h)"
    by (simp add: add_transaction_def create_new_block_def Let_def)
  then show ?thesis
    using rejected_block_stays_unapplied [OF test_keeper_wf, of test_peer_ext "test_coin 1" 1
        "(effects (test_voting_peer []))\<lparr>block_keeper := k1\<rparr>" h] by auto
qed

end
