(* ===== verification/Synchronization.thy ===== *)
theory Synchronization
  imports Peer
begin

text \<open>
  \<^verbatim>\<open>src/src/synchronization.rs\<close>: catching up with the blocks of other peers. The network is shared
  with other tasks, so what it answers may differ from one call to the next: each pass of the loop
  reads its own \<open>sync_net\<close>, the network operations at that moment together with the draws of the
  random generator.
\<close>

section \<open>Definitions\<close>

datatype SyncState = SUCCESS | FAIL

datatype sync_outcome = SyncReturned SyncState | SyncPanicked

record sync_net =
  sn_known_peers :: "PeerId list"
  sn_send_and_wait_for_all :: "NetworkMessage \<Rightarrow> PeerId list \<Rightarrow> (PeerId \<times> (request_error + BlockStorageState)) list"
  sn_send_and_wait :: "PeerId \<Rightarrow> NetworkMessage \<Rightarrow> request_error + BlockFile"
  sn_choose_multiple :: "nat \<Rightarrow> PeerId list \<Rightarrow> PeerId list"
  sn_draw :: nat

type_synonym PeersStates = "(PeerId \<times> BlockStorageState) list"

definition get_peers_for_index :: "u32 \<Rightarrow> PeersStates \<Rightarrow> PeerId list" where
  "get_peers_for_index ix ps = map fst (filter (\<lambda>(_, s). ix \<le> block_height s) ps)"

definition get_max_index :: "PeersStates \<Rightarrow> u32" where
  "get_max_index ps = foldr (\<lambda>(_, s). max (block_height s)) ps 0"

fun block_states_match :: "BlockStorageState list \<Rightarrow> bool" where
  "block_states_match (s # t # ss) = (s = t \<and> block_states_match (t # ss))"
| "block_states_match _ = True"

definition ok_values :: "('k \<times> ('e + 'v)) list \<Rightarrow> ('k \<times> 'v) list" where
  "ok_values rs = List.map_filter (\<lambda>(k, r). case r of Ok v \<Rightarrow> Some (k, v) | Err _ \<Rightarrow> None) rs"

definition get_latest_indexes :: "sync_net \<Rightarrow> PeersStates" where
  "get_latest_indexes n = ok_values (sn_send_and_wait_for_all n GetLatestBlockState (sn_known_peers n))"

text \<open>
  The two panics: a response whose body cannot be read (\<open>deserialize_resp\<close>), and
  \<^verbatim>\<open>random_range(0..n)\<close> on an empty range. The outer \<open>None\<close> is a panic.
\<close>

definition panics :: "('k \<times> (request_error + 'v)) list \<Rightarrow> bool" where
  "panics rs \<longleftrightarrow> list_ex (\<lambda>(_, r). case r of Err BodyUnreadable \<Rightarrow> True | _ \<Rightarrow> False) rs"

definition get_block_file :: "sync_net \<Rightarrow> u32 \<Rightarrow> PeersStates \<Rightarrow> BlockFile option option" where
  "get_block_file n ix ps =
    (let number_of_peers = min (length (sn_known_peers n)) 3;
         peers_to_request = sn_choose_multiple n number_of_peers (get_peers_for_index ix ps);
         answers = sn_send_and_wait_for_all n (GetBlockState ix) peers_to_request;
         results = map snd (ok_values answers)
     in (if panics answers then None
         else if length results = number_of_peers \<and> block_states_match results
         then (if number_of_peers = 0 then None
               else
                 let random_peer = peers_to_request ! (sn_draw n mod number_of_peers)
                 in (case sn_send_and_wait n random_peer (GetBlock ix) of
                       Ok b \<Rightarrow> Some (Some b)
                     | Err BodyUnreadable \<Rightarrow> None
                     | Err _ \<Rightarrow> Some None))
         else Some None))"

partial_function (option) sync_loop ::
    "(nat \<Rightarrow> sync_net) \<Rightarrow> (BlockFile \<Rightarrow> ('s, 'e, unit) step) \<Rightarrow> PeersStates \<Rightarrow> nat \<Rightarrow> u32 \<Rightarrow> nat \<Rightarrow> 's \<Rightarrow>
     ('s \<times> sync_outcome) option" where
  "sync_loop nets apply_block ps k idx errors_count s =
    (if get_max_index ps < idx then Some (s, SyncReturned SUCCESS)
     else if errors_count = 3 then Some (s, SyncReturned FAIL)
     else (case get_block_file (nets k) idx ps of
             None \<Rightarrow> Some (s, SyncPanicked)
           | Some None \<Rightarrow> sync_loop nets apply_block ps (Suc k) idx (Suc errors_count) s
           | Some (Some b) \<Rightarrow>
               (case apply_block b s of
                  (s1, Ok _) \<Rightarrow> sync_loop nets apply_block ps (Suc k) (idx + 1) errors_count s1
                | (s1, Err _) \<Rightarrow> sync_loop nets apply_block ps (Suc k) idx (Suc errors_count) s1)))"

definition check_and_retrieve_missing_blocks ::
    "(nat \<Rightarrow> sync_net) \<Rightarrow> u32 \<Rightarrow> (BlockFile \<Rightarrow> ('s, 'e, unit) step) \<Rightarrow> 's \<Rightarrow> ('s \<times> sync_outcome) option" where
  "check_and_retrieve_missing_blocks nets peer_height apply_block s =
    (let peers_states = get_latest_indexes (nets 0)
     in (if panics (sn_send_and_wait_for_all (nets 0) GetLatestBlockState (sn_known_peers (nets 0)))
         then Some (s, SyncPanicked)
         else if peer_height = get_max_index peers_states then Some (s, SyncReturned SUCCESS)
         else sync_loop nets apply_block peers_states 1 (peer_height + 1) 0 s))"

section \<open>Heights\<close>

lemma get_max_index_simps [simp]:
  "get_max_index [] = 0"
  "get_max_index ((p, s) # ps) = max (block_height s) (get_max_index ps)"
  by (simp_all add: get_max_index_def)

lemma get_max_index_ge: "(p, s) \<in> set ps \<Longrightarrow> block_height s \<le> get_max_index ps"
  by (induction ps) (auto simp: le_max_iff_disj)

lemma get_max_index_member: "0 < get_max_index ps \<Longrightarrow> \<exists>p s. (p, s) \<in> set ps \<and> block_height s = get_max_index ps"
  by (induction ps) (fastforce simp: max_def split: if_splits)+

section \<open>Termination\<close>

text \<open>The heights still missing and the error budget left bound the passes of the loop.\<close>

lemma sync_loop_returns:
  assumes "unat (get_max_index ps) < 2 ^ 32 - 1" "errors \<le> 3"
  shows "\<exists>r. sync_loop nets apply_block ps k idx errors s = Some r"
  using assms(2)
proof (induction "Suc (unat (get_max_index ps)) - unat idx + (3 - errors)" arbitrary: k idx errors s
    rule: less_induct)
  case less
  show ?case
  proof (cases "get_max_index ps < idx \<or> errors = 3")
    case True
    then show ?thesis
      by (subst sync_loop.simps) auto
  next
    case False
    then have h: "\<not> get_max_index ps < idx" "errors < 3" "unat idx \<le> unat (get_max_index ps)"
      using less.prems by (auto simp: word_le_nat_alt linorder_not_less)
    have next_idx: "unat (idx + 1) = Suc (unat idx)"
      using h(3) assms(1) unat_plus_u32 [of idx 1] by simp
    have retry: "\<exists>r. sync_loop nets apply_block ps (Suc k) idx (Suc errors) t = Some r" for t
      by (rule less.hyps) (use h in auto)
    have advance: "\<exists>r. sync_loop nets apply_block ps (Suc k) (idx + 1) errors t = Some r" for t
      by (rule less.hyps) (use h next_idx in auto)
    show ?thesis
      using h retry advance
      by (subst sync_loop.simps) (auto split: option.split prod.split sum.split)
  qed
qed

section \<open>Invariants of the loop\<close>

definition sync_inv_step ::
    "(nat \<Rightarrow> sync_net) \<Rightarrow> (BlockFile \<Rightarrow> ('s, 'e, unit) step) \<Rightarrow> PeersStates \<Rightarrow> (u32 \<Rightarrow> 's \<Rightarrow> bool) \<Rightarrow> bool" where
  "sync_inv_step nets apply_block ps Inv \<longleftrightarrow>
    (\<forall>k idx s b s'. Inv idx s \<and> idx \<le> get_max_index ps \<and> get_block_file (nets k) idx ps = Some (Some b) \<longrightarrow>
      (\<forall>u. apply_block b s = (s', Ok u) \<longrightarrow> Inv (idx + 1) s') \<and>
      (\<forall>e. apply_block b s = (s', Err e) \<longrightarrow> Inv idx s'))"

lemma sync_loop_invariant:
  fixes apply_block :: "BlockFile \<Rightarrow> ('s, 'e, unit) step"
  assumes "sync_inv_step nets apply_block ps Inv" "Inv idx s"
    and "sync_loop nets apply_block ps k idx errors s = Some r"
  shows "\<exists>idx'. Inv idx' (fst r) \<and> (snd r = SyncReturned SUCCESS \<longrightarrow> get_max_index ps < idx')"
proof -
  define P where "P = (\<lambda>(nets :: nat \<Rightarrow> sync_net) apply_block (ps :: PeersStates) (k :: nat) idx (errors :: nat) s
    (r :: 's \<times> sync_outcome). sync_inv_step nets (apply_block :: BlockFile \<Rightarrow> ('s, 'e, unit) step) ps Inv \<longrightarrow> Inv idx s \<longrightarrow>
      (\<exists>idx'. Inv idx' (fst r) \<and> (snd r = SyncReturned SUCCESS \<longrightarrow> get_max_index ps < idx')))"
  have "P nets apply_block ps k idx errors s r"
  proof (rule sync_loop.raw_induct [OF _ assms(3)])
    fix rec nets apply_block ps k idx errors s r
    assume IH: "\<And>nets apply_block ps k idx errors s r.
        rec nets apply_block ps k idx errors s = Some r \<Longrightarrow> P nets apply_block ps k idx errors s r"
      and body: "(if get_max_index ps < idx then Some (s, SyncReturned SUCCESS)
        else if errors = 3 then Some (s, SyncReturned FAIL)
        else (case get_block_file (nets k) idx ps of
               None \<Rightarrow> Some (s, SyncPanicked)
             | Some None \<Rightarrow> rec nets apply_block ps (Suc k) idx (Suc errors) s
             | Some (Some b) \<Rightarrow>
                 (case apply_block b s of
                    (s1, Ok _) \<Rightarrow> rec nets apply_block ps (Suc k) (idx + 1) errors s1
                  | (s1, Err _) \<Rightarrow> rec nets apply_block ps (Suc k) idx (Suc errors) s1))) = Some r"
    show "P nets apply_block ps k idx errors s r"
      unfolding P_def
    proof (intro impI)
      assume inv_step: "sync_inv_step nets apply_block ps Inv" and inv: "Inv idx s"
      let ?G = "\<exists>idx'. Inv idx' (fst r) \<and> (snd r = SyncReturned SUCCESS \<longrightarrow> get_max_index ps < idx')"
      have step: ?G if "rec nets apply_block ps (Suc k) i e s2 = Some r" "Inv i s2" for i e s2
        using IH [OF that(1)] inv_step that(2) by (simp add: P_def)
      have applied: "Inv (idx + 1) s1" if "get_block_file (nets k) idx ps = Some (Some b)" "apply_block b s = (s1, Ok u)"
        "\<not> get_max_index ps < idx" for b s1 u
        using inv_step inv that unfolding sync_inv_step_def by (metis not_less)
      have failed: "Inv idx s1" if "get_block_file (nets k) idx ps = Some (Some b)" "apply_block b s = (s1, Err e)"
        "\<not> get_max_index ps < idx" for b s1 e
        using inv_step inv that unfolding sync_inv_step_def by (metis not_less)
      show ?G
        using body inv
        by (auto split: if_splits option.splits prod.splits sum.splits intro: step applied failed)
    qed
  qed
  then show ?thesis
    using assms(1,2) by (simp add: P_def)
qed

lemma sync_invariant:
  assumes "check_and_retrieve_missing_blocks nets h apply_block s = Some (s', out)"
    and "sync_inv_step nets apply_block (get_latest_indexes (nets 0)) Inv" "Inv (h + 1) s"
  shows "\<exists>idx'. Inv idx' s'"
  using assms sync_loop_invariant [OF assms(2,3), of 1 0]
  by (auto simp: check_and_retrieve_missing_blocks_def Let_def split: if_splits)

lemma sync_keeps:
  assumes "\<And>s. Q s s" "\<And>s t u. Q s t \<Longrightarrow> Q t u \<Longrightarrow> Q s u" "\<And>b s. Q s (fst (apply_block b s))"
    and "check_and_retrieve_missing_blocks nets h apply_block s = Some (s', out)"
  shows "Q s s'"
proof -
  have "sync_inv_step nets apply_block (get_latest_indexes (nets 0)) (\<lambda>_. Q s)"
    unfolding sync_inv_step_def using assms(2,3) by (metis fst_conv)
  then show ?thesis
    using sync_invariant [OF assms(4)] assms(1) by blast
qed

end
