(* ===== verification/Peer_Guide.thy ===== *)
theory Peer_Guide
  imports Peer Synchronization
begin

text \<open>
  What holds between the consensus engine of a peer, its block keeper and the effects the engine has
  asked for. A peer changes its engine only by the calls of \<open>engine_call\<close>, and its keeper only by
  four operations, where it commits a block only when an effect says so. The locale takes an
  invariant of engine, keeper and pending effects that these operations keep and shows once that every
  effect, every handler and the effect queue keep it. Synchronization commits blocks without an effect
  and needs one law more.
\<close>

section \<open>Calls of the engine\<close>

inductive engine_call :: "('a) raft_ext_scheme \<Rightarrow> consensus_call \<Rightarrow> bool" for X where
  client: "engine_call X (on_client_transaction tx)"
| created: "engine_call X (on_block_created X h)"
| proposed: "engine_call X (on_local_block_proposed h known)"
| validated: "engine_call X (on_block_proposal_validated h proposer valid known)"
| voted: "engine_call X (on_block_vote h from approve known)"
| ticked: "engine_call X (on_tick X now known)"
| received: "engine_call X (on_message X draw from body now)"
| taken: "engine_call X (\<lambda>c. (fst (take_pending_raft_block h c), Ok []))"

text \<open>The effects a call asks for; a call that fails asks for none.\<close>

definition answered :: "consensus_error + ConsensusEffect list \<Rightarrow> ConsensusEffect list" where
  "answered r = (case r of Ok effs \<Rightarrow> effs | Err _ \<Rightarrow> [])"

lemma answered_simps [simp]: "answered (Ok effs) = effs" "answered (Err e) = []"
  by (simp_all add: answered_def)

section \<open>Invariants of a peer\<close>

locale guided_peer =
  fixes X :: "('a) raft_ext_scheme"
    and G :: "ConsensusEngine \<Rightarrow> BlockKeeper \<Rightarrow> ConsensusEffect list \<Rightarrow> bool"
  assumes G_call: "engine_call X f \<Longrightarrow> G c k q \<Longrightarrow> G (fst (f c)) k (q @ answered (snd (f c)))"
    and G_drop: "G c k (e # q) \<Longrightarrow> G c k q"
    and G_add_transaction: "G c k q \<Longrightarrow> G c (fst (add_transaction X tx k)) q"
    and G_add_external_block: "G c k q \<Longrightarrow> G c (fst (add_external_block X b k)) q"
    and G_rollback_block: "G c k q \<Longrightarrow> G c (fst (rollback_block X h k)) q"
    and G_commit_block: "G c k (CommitBlock h # q) \<Longrightarrow> G c (fst (commit_block X h k)) q"
    and G_propose_block: "G c k (ProposeBlock h # q) \<Longrightarrow> G c (fst (commit_block X h k)) q"
begin

lemma G_called:
  assumes "engine_call X f" "f c = (c', r)" "G c k q"
  shows "G c' k (q @ answered r)"
  using G_call [OF assms(1,3)] assms(2) by simp

lemma keeper_apply_block_transactions [simp]: "block_keeper (apply_block_transactions X b pe) = block_keeper pe"
  by (simp add: apply_block_transactions_def)

lemma G_stage_client_transaction:
  "G c (block_keeper pe) q \<Longrightarrow> G c (block_keeper (fst (stage_client_transaction X tx pe))) q"
  using G_add_transaction [of c "block_keeper pe" q tx]
  by (auto simp: stage_client_transaction_def split: sum.split prod.split)

lemma G_stage_external_block:
  "G c (block_keeper pe) q \<Longrightarrow> G c (block_keeper (fst (stage_external_block X b pe))) q"
  using G_add_external_block [of c "block_keeper pe" q b]
  by (auto simp: stage_external_block_def Let_def split: sum.split prod.split)

lemma G_stage_raft_entries:
  "\<lbrakk>G c (block_keeper pe) q; stage_raft_entries X es c pe = (pe', c', r)\<rbrakk> \<Longrightarrow> G c' (block_keeper pe') q"
proof (induction es arbitrary: c pe)
  case (Cons e es)
  show ?case
  proof (cases "is_noop e")
    case False
    obtain c1 pb where block: "take_pending_raft_block (le_block_hash e) c = (c1, pb)"
      by fastforce
    have c1: "G c1 (block_keeper pe) q"
      using G_call [OF engine_call.taken [of X "le_block_hash e"] Cons.prems(1)] by (simp add: block)
    have staged: "G c1 k q" if "add_external_block X b (block_keeper pe) = (k, x)" for b k x
      using G_add_external_block [OF c1, of b] that by simp
    have further: "G c' (block_keeper pe') q"
      if "add_external_block X b (block_keeper pe) = (k, x)"
        "stage_raft_entries X es c1 ((apply_block_transactions X b pe)\<lparr>block_keeper := k\<rparr>) = (pe', c', r)" for b k x
      using Cons.IH [OF _ that(2)] staged [OF that(1)] by simp
    show ?thesis
      using Cons.prems(2) False Cons.IH [OF c1] c1
      by (auto simp: block Let_def dest: staged further split: if_splits option.splits sum.splits prod.splits)
  qed (use Cons in simp)
qed simp

lemma G_broadcast_block_proposal:
  "\<lbrakk>G c (block_keeper pe) (ProposeBlock h # q); broadcast_block_proposal X h pe = (pe', r)\<rbrakk> \<Longrightarrow> G c (block_keeper pe') q"
  using G_propose_block [of c "block_keeper pe" h q] G_drop [of c "block_keeper pe" "ProposeBlock h" q]
  by (auto simp: broadcast_block_proposal_def Let_def split: if_splits sum.splits prod.splits option.splits)

lemma G_execute_rollback: "G c (block_keeper pe) q \<Longrightarrow> G c (block_keeper (fst (execute_rollback X h pe))) q"
  using G_rollback_block [of c "block_keeper pe" q h]
  by (auto simp: execute_rollback_def Let_def split: sum.split prod.split option.split)

lemma G_execute_commit:
  "G c (block_keeper pe) (CommitBlock h # q) \<Longrightarrow> G c (block_keeper (fst (execute_commit X h pe))) q"
  using G_commit_block [of c "block_keeper pe" h q] by (auto simp: execute_commit_def split: sum.split prod.split)

lemma keeper_send_raft_append_entries [simp]:
  "block_keeper (fst (send_raft_append_entries X to t pi pt es lc pe)) = block_keeper pe"
  by (auto simp: send_raft_append_entries_def split: sum.split)

lemma G_execute_effect:
  assumes "G c (block_keeper pe) (e # q)" "execute_effect X e c pe = (pe1, c1, r, added)"
  shows "G c1 (block_keeper pe1) (q @ added)"
proof (cases e)
  case (StageClientTransaction tx)
  obtain pe2 s where s: "stage_client_transaction X tx pe = (pe2, s)"
    by fastforce
  have "G c (block_keeper pe2) q"
    using G_stage_client_transaction [OF G_drop [OF assms(1)], of tx] s by simp
  then show ?thesis
    using assms(2) StageClientTransaction s G_called [OF engine_call.created, of _ c]
    by (fastforce split: sum.splits prod.splits BlockStatus.splits)
next
  case (StageRaftEntries es)
  then show ?thesis
    using assms(2) G_stage_raft_entries [OF G_drop [OF assms(1)]] by (auto split: prod.splits)
next
  case (ProposeBlock h)
  obtain pe2 s where s: "broadcast_block_proposal X h pe = (pe2, s)"
    by fastforce
  have "G c (block_keeper pe2) q"
    using G_broadcast_block_proposal [of c pe h q] assms(1) ProposeBlock s by simp
  then show ?thesis
    using assms(2) ProposeBlock s G_called [OF engine_call.proposed, of _ _ c]
    by (fastforce split: sum.splits prod.splits option.splits)
next
  case (CommitBlock h)
  then show ?thesis
    using assms G_execute_commit [of c pe h q] by (auto simp: plain_def)
next
  case (RollbackBlock h)
  then show ?thesis
    using assms(2) G_execute_rollback [OF G_drop [OF assms(1)], of h] by (auto simp: plain_def)
qed (use assms(2) G_drop [OF assms(1)] in \<open>auto simp: plain_def broadcast_client_transaction_def\<close>)

lemma G_run_effects:
  "\<lbrakk>G c (block_keeper pe) (es @ q); run_effects X es c pe = (pe1, c1, errs, added)\<rbrakk> \<Longrightarrow> G c1 (block_keeper pe1) (q @ added)"
proof (induction es arbitrary: c pe q errs added)
  case (Cons e es)
  obtain pe2 c2 r added2 where e: "execute_effect X e c pe = (pe2, c2, r, added2)"
    by (metis prod_cases4)
  obtain errs3 added3 where es: "run_effects X es c2 pe2 = (pe1, c1, errs3, added3)" "added = added2 @ added3"
    using Cons.prems(2) by (auto simp: e split: prod.splits)
  have "G c2 (block_keeper pe2) (es @ q @ added2)"
    using G_execute_effect [OF _ e, of "es @ q"] Cons.prems(1) by simp
  from Cons.IH [OF this es(1)] show ?case
    by (simp add: es(2))
qed simp

lemma G_drop_all: "G c k q \<Longrightarrow> G c k []"
  by (induction q) (auto dest: G_drop)

lemma G_run_rounds: "\<lbrakk>G c (block_keeper pe) es; run_rounds X n es c pe = (pe', c', errs)\<rbrakk> \<Longrightarrow> G c' (block_keeper pe') []"
proof (induction n arbitrary: es c pe errs)
  case (Suc n)
  obtain pe1 c1 errs1 added where r: "run_effects X es c pe = (pe1, c1, errs1, added)"
    by (metis prod_cases4)
  have "G c1 (block_keeper pe1) added"
    using G_run_effects [OF _ r, of "[]"] Suc.prems(1) by simp
  then show ?case
    using Suc.IH Suc.prems(2) by (auto simp: r split: prod.splits)
qed (auto dest: G_drop_all)

lemma G_execute_all: "\<lbrakk>G c (block_keeper pe) es; execute_all X es c pe = (pe', c', r)\<rbrakk> \<Longrightarrow> G c' (block_keeper pe') []"
  using G_run_rounds by (auto simp: execute_all_rounds split: prod.splits)

section \<open>Handlers of the peer\<close>

abbreviation GP :: "Peer \<Rightarrow> bool" where
  "GP p \<equiv> G (consensus p) (block_keeper (effects p)) []"

lemma GP_execute_consensus_effects:
  "G (consensus p) (block_keeper (effects p)) es \<Longrightarrow> GP (fst (execute_consensus_effects X es p))"
  using G_execute_all [of "consensus p" "effects p" es]
  by (auto simp: execute_consensus_effects_def split: prod.split sum.split)

lemma GP_consensus_then_effects:
  assumes "engine_call X f" "G (consensus p) (block_keeper pe) []"
  shows "GP (fst (consensus_then_effects X (f (consensus p)) (p\<lparr>effects := pe\<rparr>)))"
proof -
  obtain c r where f: "f (consensus p) = (c, r)"
    by fastforce
  have "G c (block_keeper pe) (answered r)"
    using G_called [OF assms(1) f assms(2)] by simp
  then show ?thesis
    using GP_execute_consensus_effects [of "p\<lparr>effects := pe, consensus := c\<rparr>"]
    by (cases r) (auto simp: consensus_then_effects_def f)
qed

lemma GP_consensus_call:
  "\<lbrakk>engine_call X f; GP p\<rbrakk> \<Longrightarrow> GP (fst (consensus_then_effects X (f (consensus p)) p))"
  using GP_consensus_then_effects [of f p "effects p"] by simp

lemma GP_synchronize_transaction:
  assumes "GP p"
  shows "GP (fst (synchronize_transaction X vtx p))"
proof -
  obtain pe r where s: "stage_client_transaction X (client_tx vtx) (effects p) = (pe, r)"
    by fastforce
  have "G (consensus p) (block_keeper pe) []"
    using G_stage_client_transaction [OF assms, of "client_tx vtx"] s by simp
  then show ?thesis
    using assms GP_consensus_then_effects [OF engine_call.created, of p pe]
    by (auto simp: synchronize_transaction_def s split: sum.split BlockStatus.split)
qed

lemma GP_process_block_proposal:
  assumes "GP p"
  shows "GP (fst (process_block_proposal X h bytes sig pk src p))"
proof -
  define out where "out = (case verify_block_vec X h bytes sig pk of
      Err _ \<Rightarrow> (effects p, Ok False) | Ok b \<Rightarrow> stage_external_block X b (effects p))"
  obtain pe r where out: "out = (pe, r)"
    by fastforce
  have "G (consensus p) (block_keeper pe) []"
    using assms G_stage_external_block [OF assms] out by (auto simp: out_def split: sum.splits) (metis fst_conv)
  then show ?thesis
    using assms GP_consensus_then_effects [OF engine_call.validated, of p pe]
    by (auto simp: process_block_proposal_def out_def [symmetric] out split: sum.split)
qed

lemma GP_handle_message: "GP p \<Longrightarrow> GP (handle_message X draw now m p)"
  using GP_consensus_call [OF engine_call.client, of p] GP_consensus_call [OF engine_call.voted, of p]
    GP_consensus_call [OF engine_call.received, of p]
  by (cases "msg_body m")
    (simp_all add: handle_message_def process_client_transaction_def process_block_vote_def dispatch_to_consensus_def
      GP_synchronize_transaction GP_process_block_proposal split: sum.split del: on_message.simps)

lemma GP_make_vote_peer: "GP p \<Longrightarrow> GP (fst (make_vote_peer X h src approve p))"
  unfolding make_vote_peer_def by (rule GP_consensus_call [OF engine_call.voted])

lemma GP_handle_tick: "GP p \<Longrightarrow> GP (fst (handle_tick X now p))"
  unfolding handle_tick_def by (rule GP_consensus_call [OF engine_call.ticked])

end

section \<open>Synchronization\<close>

locale synced_peer = guided_peer +
  assumes G_sync_commit: "G c k q \<Longrightarrow> G c (fst (commit_block X h k)) q"
begin

lemma G_apply_synchronized_block:
  assumes "G c (block_keeper pe) q"
  shows "G c (block_keeper (fst (apply_synchronized_block X b pe))) q"
proof -
  obtain k r where k: "add_external_block X b (block_keeper pe) = (k, r)"
    by fastforce
  have "G c k q"
    using G_add_external_block [OF assms, of b] k by simp
  then show ?thesis
    using assms G_sync_commit [of c k q "bf_hash b"]
    by (auto simp: apply_synchronized_block_def Let_def k split: sum.split prod.split)
qed

lemma GP_check_and_retrieve_missing_blocks:
  assumes "check_and_retrieve_missing_blocks nets h (peer_apply_synchronized_block X) p = Some (p', out)" "GP p"
  shows "GP p'"
proof -
  have "GP p \<longrightarrow> GP (fst (peer_apply_synchronized_block X b p))" for b p
    using G_apply_synchronized_block [of "consensus p" "effects p" "[]" b]
    by (auto simp: peer_apply_synchronized_block_def split: prod.split)
  then show ?thesis
    using sync_keeps [of "\<lambda>p p'. GP p \<longrightarrow> GP p'", OF _ _ _ assms(1)] assms(2) by blast
qed

end

section \<open>Relations kept by the keeper's operations\<close>

text \<open>
  A transitive relation that the four operations of the keeper keep relates the keepers before and
  after, whatever the engine does.
\<close>

locale keeper_relation =
  fixes X :: "('a) raft_ext_scheme"
    and R :: "BlockKeeper \<Rightarrow> BlockKeeper \<Rightarrow> bool"
  assumes R_refl: "R k k"
    and R_trans: "R k1 k2 \<Longrightarrow> R k2 k3 \<Longrightarrow> R k1 k3"
    and R_add_transaction: "R k (fst (add_transaction X tx k))"
    and R_add_external_block: "R k (fst (add_external_block X b k))"
    and R_commit_block: "R k (fst (commit_block X h k))"
    and R_rollback_block: "R k (fst (rollback_block X h k))"

sublocale keeper_relation \<subseteq> guide: synced_peer X "\<lambda>c k q. R k0 k" for k0
  by unfold_locales (blast intro: R_trans R_add_transaction R_add_external_block R_commit_block R_rollback_block)+

end
