(* ===== verification/Keeper_Growth.thy ===== *)
theory Keeper_Growth
  imports Peer_Guide
begin

text \<open>
  Relations every peer operation keeps on its block keeper: well-formedness, and that the block
  directory is only appended to. A directory grows by \<open>n\<close> when the height has advanced by \<open>n\<close> and only the
  files of the new heights have been written. The height is a 32-bit number that wraps; the commit
  that brings it to its greatest value writes the file of that height, so a directory without this file
  shows that it has not wrapped yet.
\<close>

interpretation kw: keeper_relation X "\<lambda>k k'. keeper_wf X k \<longrightarrow> keeper_wf X k'" for X
  by unfold_locales (auto simp: add_transaction_wf add_external_block_wf commit_block_wf rollback_block_wf)

abbreviation height :: "BlockKeeper \<Rightarrow> u32" where
  "height k \<equiv> block_height (block_storage_state k)"

definition new_names :: "u32 \<Rightarrow> nat \<Rightarrow> string set" where
  "new_names h n = (\<lambda>j. block_filename_for_index (h + word_of_nat j)) ` {1..n}"

definition grows :: "nat \<Rightarrow> BlockKeeper \<Rightarrow> BlockKeeper \<Rightarrow> bool" where
  "grows n k k' \<longleftrightarrow> height k' = height k + word_of_nat n \<and>
    (\<forall>f. f \<notin> new_names (height k) n \<longrightarrow> map_of (files (path_to_blocks k')) f = map_of (files (path_to_blocks k)) f) \<and>
    read_failures (path_to_blocks k') = read_failures (path_to_blocks k)"

lemma grows_0: "\<lbrakk>path_to_blocks k' = path_to_blocks k; block_storage_state k' = block_storage_state k\<rbrakk> \<Longrightarrow> grows 0 k k'"
  by (simp add: grows_def)

lemma new_names_add: "new_names h (n + m) = new_names h n \<union> new_names (h + word_of_nat n) m"
proof -
  have "{1..n + m} = {1..n} \<union> (\<lambda>j. n + j) ` {1..m}"
    by (auto simp: image_iff)
  then show ?thesis
    unfolding new_names_def by (simp only: image_Un image_image of_nat_add add.assoc)
qed

lemma grows_trans: "\<lbrakk>grows n k1 k2; grows m k2 k3\<rbrakk> \<Longrightarrow> grows (n + m) k1 k3"
  by (simp add: grows_def new_names_add add.assoc)

section \<open>The keeper's operations\<close>

lemma add_transaction_store:
  "path_to_blocks (fst (add_transaction X tx k)) = path_to_blocks k"
  "block_storage_state (fst (add_transaction X tx k)) = block_storage_state k"
  by (auto simp: add_transaction_def create_new_block_def Let_def split: prod.split)

lemma fold_store:
  assumes "\<And>x k. path_to_blocks (f x k) = path_to_blocks k \<and> block_storage_state (f x k) = block_storage_state k"
  shows "path_to_blocks (fold f xs k) = path_to_blocks k \<and> block_storage_state (fold f xs k) = block_storage_state k"
  using assms by (induction xs arbitrary: k) auto

lemma add_external_block_store:
  "path_to_blocks (fst (add_external_block X b k)) = path_to_blocks k"
  "block_storage_state (fst (add_external_block X b k)) = block_storage_state k"
  using fold_store [of "move_to_pending X" "bf_transactions b" k]
  by (auto simp: add_external_block_def Let_def move_to_pending_def split: sum.split option.split)

lemma rollback_block_store:
  "path_to_blocks (fst (rollback_block X h k)) = path_to_blocks k"
  "block_storage_state (fst (rollback_block X h k)) = block_storage_state k"
  using fold_store [of "readd_pending X"]
  by (auto simp: rollback_block_def readd_pending_def add_transaction_store split: option.split)

lemma commit_block_fails: "snd (commit_block X h k) = Err e \<Longrightarrow> fst (commit_block X h k) = k"
  by (auto simp: commit_block_def Let_def split: option.splits)

lemma commit_block_grows_1: "commit_block X h k = (k', Ok ()) \<Longrightarrow> grows 1 k k'"
  by (auto simp: commit_block_def Let_def fs_write_def grows_def new_names_def update_conv' split: option.splits if_splits)

section \<open>Appending to the directory\<close>

abbreviation stored :: "BlockKeeper \<Rightarrow> string \<Rightarrow> bytes option" where
  "stored k \<equiv> map_of (files (path_to_blocks k))"

abbreviation last_height :: u32 where
  "last_height \<equiv> - 1"

definition added_only :: "BlockKeeper \<Rightarrow> BlockKeeper \<Rightarrow> bool" where
  "added_only k k' \<longleftrightarrow> height k' \<noteq> last_height \<and> height k \<le> height k' \<and>
    (\<forall>f. stored k' f \<noteq> stored k f \<longrightarrow> (\<exists>i. height k < i \<and> i \<le> height k' \<and> f = block_filename_for_index i)) \<and>
    (\<forall>i. height k < i \<and> i \<le> height k' \<longrightarrow> stored k' (block_filename_for_index i) \<noteq> None)"

definition appends_only :: "BlockKeeper \<Rightarrow> BlockKeeper \<Rightarrow> bool" where
  "appends_only k k' \<longleftrightarrow> read_failures (path_to_blocks k') = read_failures (path_to_blocks k) \<and>
    dom (stored k) \<subseteq> dom (stored k') \<and>
    (height k \<noteq> last_height \<and> stored k' (block_filename_for_index last_height) = None \<longrightarrow> added_only k k')"

lemma appends_only_same:
  "\<lbrakk>path_to_blocks k' = path_to_blocks k; block_storage_state k' = block_storage_state k\<rbrakk> \<Longrightarrow> appends_only k k'"
  by (auto simp: appends_only_def added_only_def)

lemma added_only_trans:
  assumes "added_only k1 k2" "added_only k2 k3" "dom (stored k2) \<subseteq> dom (stored k3)"
  shows "added_only k1 k3"
proof -
  have h: "height k1 \<le> height k2" "height k2 \<le> height k3" "height k3 \<noteq> last_height"
    using assms(1,2) by (simp_all add: added_only_def)
  have "\<exists>i. height k1 < i \<and> i \<le> height k3 \<and> f = block_filename_for_index i" if f: "stored k3 f \<noteq> stored k1 f" for f
  proof (cases "stored k3 f = stored k2 f")
    case True
    then obtain i where "height k1 < i" "i \<le> height k2" "f = block_filename_for_index i"
      using f assms(1) by (metis added_only_def)
    then show ?thesis
      using order_trans [OF _ h(2), of i] by auto
  next
    case False
    then obtain i where "height k2 < i" "i \<le> height k3" "f = block_filename_for_index i"
      using assms(2) unfolding added_only_def by blast
    then show ?thesis
      using order.strict_trans1 [OF h(1), of i] by auto
  qed
  moreover have "stored k3 (block_filename_for_index i) \<noteq> None" if i: "height k1 < i" "i \<le> height k3" for i
  proof (cases "i \<le> height k2")
    case True
    then have "block_filename_for_index i \<in> dom (stored k2)"
      using i assms(1) by (simp add: added_only_def domIff)
    then show ?thesis
      using assms(3) by blast
  qed (use i assms(2) in \<open>simp add: added_only_def\<close>)
  ultimately show ?thesis
    using h unfolding added_only_def by (meson order_trans)
qed

lemma appends_only_trans:
  assumes "appends_only k1 k2" "appends_only k2 k3"
  shows "appends_only k1 k3"
proof -
  have "added_only k1 k3" if a: "height k1 \<noteq> last_height" "stored k3 (block_filename_for_index last_height) = None"
  proof -
    have "stored k2 (block_filename_for_index last_height) = None"
      using assms(2) a(2) unfolding appends_only_def by (meson domIff subsetD)
    then have 1: "added_only k1 k2"
      using assms(1) a(1) by (simp add: appends_only_def)
    moreover from this have "added_only k2 k3"
      using assms(2) a(2) by (simp add: appends_only_def added_only_def [of k1])
    ultimately show ?thesis
      using assms(2) added_only_trans by (auto simp: appends_only_def)
  qed
  moreover have "dom (stored k1) \<subseteq> dom (stored k2)" "dom (stored k2) \<subseteq> dom (stored k3)"
    "read_failures (path_to_blocks k3) = read_failures (path_to_blocks k1)"
    using assms by (simp_all add: appends_only_def)
  ultimately show ?thesis
    using subset_trans [of "dom (stored k1)" "dom (stored k2)" "dom (stored k3)"] by (simp add: appends_only_def)
qed

lemma commit_block_writes:
  assumes "commit_block X h k = (k', Ok ())"
  obtains c where "height k' = height k + 1" "stored k' = (stored k)(block_filename_for_index (height k + 1) \<mapsto> c)"
    "read_failures (path_to_blocks k') = read_failures (path_to_blocks k)"
  using assms by (auto simp: commit_block_def Let_def fs_write_def update_conv' split: option.splits if_splits)

lemma commit_block_appends: "appends_only k (fst (commit_block X h k))"
proof (cases "snd (commit_block X h k)")
  case (Inl e)
  then have "fst (commit_block X h k) = k"
    by (rule commit_block_fails)
  then show ?thesis
    by (simp add: appends_only_same)
next
  case (Inr u)
  then have "commit_block X h k = (fst (commit_block X h k), Ok ())"
    by (simp add: prod_eq_iff)
  then obtain c where w: "height (fst (commit_block X h k)) = height k + 1"
    "stored (fst (commit_block X h k)) = (stored k)(block_filename_for_index (height k + 1) \<mapsto> c)"
    "read_failures (path_to_blocks (fst (commit_block X h k))) = read_failures (path_to_blocks k)"
    by (rule commit_block_writes)
  have "added_only k (fst (commit_block X h k))"
    if a: "height k \<noteq> last_height" "stored (fst (commit_block X h k)) (block_filename_for_index last_height) = None"
  proof -
    have "stored (fst (commit_block X h k)) (block_filename_for_index (height k + 1)) = Some c"
      by (simp add: w(2))
    then have "height k + 1 \<noteq> last_height"
      using a(2) by force
    moreover have "height k < height k + 1"
      using a(1) unatSuc [of "height k"] by (simp add: word_less_nat_alt add.commute eq_neg_iff_add_eq_0)
    moreover have "i = height k + 1" if "height k < i" "i \<le> height k + 1" for i
      using that by (metis inc_le order_antisym)
    ultimately show ?thesis
      by (auto simp: added_only_def w)
  qed
  then show ?thesis
    by (auto simp: appends_only_def w)
qed

interpretation kn: keeper_relation X appends_only for X
proof
  show "appends_only k k" for k
    by (simp add: appends_only_same)
  show "\<lbrakk>appends_only k1 k2; appends_only k2 k3\<rbrakk> \<Longrightarrow> appends_only k1 k3" for k1 k2 k3
    by (rule appends_only_trans)
qed (simp_all add: appends_only_same add_transaction_store add_external_block_store rollback_block_store commit_block_appends)

section \<open>Old blocks stay\<close>

lemma added_only_old_blocks:
  assumes "added_only k k'" "read_failures (path_to_blocks k') = read_failures (path_to_blocks k)" "i \<le> height k"
  shows "read_from_disk_by_index X (path_to_blocks k') i = read_from_disk_by_index X (path_to_blocks k) i"
proof -
  have "stored k' (block_filename_for_index i) = stored k (block_filename_for_index i)"
  proof (rule ccontr)
    assume "stored k' (block_filename_for_index i) \<noteq> stored k (block_filename_for_index i)"
    then obtain j where "height k < j" "block_filename_for_index i = block_filename_for_index j"
      using assms(1) unfolding added_only_def by blast
    then show False
      using assms(3) by (simp add: filename_inj)
  qed
  then show ?thesis
    using assms(2) unfolding read_from_disk_by_index_def read_from_disk_def by presburger
qed

end
