(* ===== verification/Http.thy ===== *)
theory Http
  imports Rest_Network
begin

text \<open>
  HTTP as the two services and their clients use it: the request that \<^verbatim>\<open>send_message\<close> builds
  (\<^verbatim>\<open>src/src/network/rest_network.rs\<close> and \<^verbatim>\<open>src/src/network/discovery_client.rs\<close>), with the body and path of
  \<^verbatim>\<open>src/src/network/mod.rs\<close>, and the look-up of a route. The JSON codecs, the router and the
  extractors of the web framework are parameters; what is documented of the router is the predicate
  \<open>axum_router\<close>.
\<close>

section \<open>Requests and responses\<close>

record http_request =
  rq_method :: http_method
  rq_base :: string
  rq_path :: string
  rq_headers :: "(string \<times> string option) list"
  rq_body :: string
  rq_timeout :: duration

record http_response =
  rs_status :: nat
  rs_body :: string

text \<open>
  The codecs, the texts of the channel's errors, which content types the JSON extractor takes, and
  the answer of the framework to a request whose parts it cannot extract.
\<close>

record http_ext =
  message_to_string :: "Message \<Rightarrow> string"
  message_from_str :: "string \<Rightarrow> Message option"
  register_to_string :: "PeerId \<times> SocketAddr \<Rightarrow> string"
  register_from_str :: "string \<Rightarrow> (PeerId \<times> SocketAddr) option"
  network_message_to_string :: "NetworkMessage \<Rightarrow> string"
  peers_to_string :: "(PeerId \<times> SocketAddr) list \<Rightarrow> string"
  peers_from_str :: "string \<Rightarrow> (PeerId \<times> SocketAddr) list option"
  network_error_text :: "network_error \<Rightarrow> string"
  json_content_type :: "string \<Rightarrow> bool"
  extract_rejection :: "http_request \<Rightarrow> http_response"

definition REQUEST_TIMEOUT :: duration where
  "REQUEST_TIMEOUT = 30000"

definition body_of :: "('a) http_ext_scheme \<Rightarrow> NetworkMessage \<Rightarrow> string" where
  "body_of H m =
    (case m of
       PeerMessage message \<Rightarrow> message_to_string H message
     | Register p addr \<Rightarrow> register_to_string H (p, addr)
     | GetPeers \<Rightarrow> []
     | _ \<Rightarrow> (case method_of m of GET \<Rightarrow> [] | POST \<Rightarrow> network_message_to_string H m))"

text \<open>The request builder of both clients, for the part of the URL before the path.\<close>

definition build_request :: "('a) http_ext_scheme \<Rightarrow> string \<Rightarrow> NetworkMessage \<Rightarrow> http_request" where
  "build_request H base m =
    (let builder = \<lparr>rq_method = method_of m, rq_base = base, rq_path = path m, rq_headers = [], rq_body = [],
           rq_timeout = REQUEST_TIMEOUT\<rparr>
     in (if method_of m \<noteq> GET
         then builder\<lparr>rq_body := body_of H m, rq_headers := [(''content-type'', Some ''application/json'')]\<rparr>
         else builder))"

text \<open>How the standard library prints a socket address: IPv4, and IPv6 with its longest run of zero groups compressed.\<close>

fun join :: "string \<Rightarrow> string list \<Rightarrow> string" where
  "join sep [] = []"
| "join sep [s] = s"
| "join sep (s # ss) = s @ sep @ join sep ss"

definition hex_digit :: "nat \<Rightarrow> char" where
  "hex_digit d = (if d < 10 then digit_char d else char_of (87 + d))"

fun show_hex :: "nat \<Rightarrow> string" where
  "show_hex n = (if n < 16 then [hex_digit n] else show_hex (n div 16) @ [hex_digit (n mod 16)])"

declare show_hex.simps [simp del]

fun ipv6_groups :: "u8 list \<Rightarrow> nat list" where
  "ipv6_groups (a # b # bs) = (256 * unat a + unat b) # ipv6_groups bs"
| "ipv6_groups _ = []"

text \<open>The first longest run of zeros: its start and its length.\<close>

fun zero_run :: "nat list \<Rightarrow> nat \<Rightarrow> nat \<times> nat \<Rightarrow> nat \<times> nat \<Rightarrow> nat \<times> nat" where
  "zero_run [] i cur best = best"
| "zero_run (g # gs) i (start, len) best =
    (if g = 0
     then let cur = ((if len = 0 then i else start), Suc len)
          in zero_run gs (Suc i) cur (if snd best < snd cur then cur else best)
     else zero_run gs (Suc i) (0, 0) best)"

definition ipv4_fmt :: "u8 list \<Rightarrow> string" where
  "ipv4_fmt bs = join ''.'' (map (show_nat \<circ> unat) bs)"

definition ipv6_fmt :: "u8 list \<Rightarrow> string" where
  "ipv6_fmt bs =
    (if take 12 bs = replicate 10 0 @ [255, 255] then ''::ffff:'' @ ipv4_fmt (drop 12 bs)
     else
       let gs = ipv6_groups bs; (start, len) = zero_run gs 0 (0, 0) (0, 0)
       in (if 1 < len
           then join '':'' (map show_hex (take start gs)) @ ''::'' @ join '':'' (map show_hex (drop (start + len) gs))
           else join '':'' (map show_hex gs)))"

definition IpAddr_fmt :: "u8 list \<Rightarrow> string" where
  "IpAddr_fmt bs = (if length bs = 4 then ipv4_fmt bs else ipv6_fmt bs)"

definition SocketAddr_fmt :: "SocketAddr \<Rightarrow> string" where
  "SocketAddr_fmt a =
    (if length (ip a) = 4 then ipv4_fmt (ip a) else ''['' @ ipv6_fmt (ip a) @ '']'') @ '':'' @ show_nat (unat (port a))"

text \<open>The request a peer sends to another.\<close>

definition rest_request :: "('a) http_ext_scheme \<Rightarrow> NetworkMessage \<Rightarrow> SocketAddr \<Rightarrow> http_request" where
  "rest_request H m to = build_request H (''http://'' @ SocketAddr_fmt to) m"

section \<open>Routes\<close>

type_synonym 'h routes = "(string \<times> http_method \<times> 'h) list"

datatype route_result = Routed string "string list" | MethodNotAllowed | NoRoute

type_synonym router = "(string \<times> http_method) list \<Rightarrow> http_method \<Rightarrow> string \<Rightarrow> route_result"

fun segments :: "string \<Rightarrow> string list" where
  "segments [] = [[]]"
| "segments (c # s) =
    (if c = CHR ''/'' then [] # segments s
     else case segments s of seg # segs \<Rightarrow> (c # seg) # segs | [] \<Rightarrow> [[c]])"

definition is_capture :: "string \<Rightarrow> bool" where
  "is_capture seg \<longleftrightarrow> seg \<noteq> [] \<and> hd seg = CHR ''{'' \<and> last seg = CHR ''}''"

definition segment_matches :: "string \<Rightarrow> string \<Rightarrow> bool" where
  "segment_matches p s \<longleftrightarrow> (if is_capture p then s \<noteq> [] else p = s)"

definition route_matches :: "string \<Rightarrow> string \<Rightarrow> bool" where
  "route_matches pattern p \<longleftrightarrow> list_all2 segment_matches (segments pattern) (segments p)"

definition captured :: "string \<Rightarrow> string \<Rightarrow> string list" where
  "captured pattern p = map snd (filter (is_capture \<circ> fst) (zip (segments pattern) (segments p)))"

definition is_static :: "string \<Rightarrow> bool" where
  "is_static pattern \<longleftrightarrow> \<not> list_ex is_capture (segments pattern)"

text \<open>
  What is documented of the router: among routes with different patterns, a path that is itself a
  pattern without captures goes to that route, and a path that only one pattern matches goes to that
  one, with the segments in the places of its captures; a path that no pattern matches has no
  route. A route answers its own method only. Paths with escapes are left open.
\<close>

definition axum_router :: "router \<Rightarrow> bool" where
  "axum_router lookup \<longleftrightarrow> (\<forall>routes m p. distinct (map fst routes) \<and> CHR ''%'' \<notin> set p \<longrightarrow>
    (\<forall>(pattern, m') \<in> set routes. route_matches pattern p \<and>
        (is_static pattern \<or> (\<forall>q \<in> fst ` set routes. route_matches q p \<longrightarrow> q = pattern)) \<longrightarrow>
      lookup routes m p = (if m = m' then Routed pattern (captured pattern p) else MethodNotAllowed)) \<and>
    ((\<forall>q \<in> fst ` set routes. \<not> route_matches q p) \<longrightarrow> lookup routes m p = NoRoute))"

text \<open>The handler of a request and its captures, or the framework's answer.\<close>

definition dispatch :: "router \<Rightarrow> 'h routes \<Rightarrow> http_request \<Rightarrow> http_response + 'h \<times> string list" where
  "dispatch lookup routes rq =
    (case lookup (map (\<lambda>(q, m, _). (q, m)) routes) (rq_method rq) (rq_path rq) of
       Routed pattern caps \<Rightarrow>
         (case map_of routes pattern of
            Some (_, h) \<Rightarrow> Ok (h, caps)
          | None \<Rightarrow> Err \<lparr>rs_status = 404, rs_body = []\<rparr>)
     | MethodNotAllowed \<Rightarrow> Err \<lparr>rs_status = 405, rs_body = []\<rparr>
     | NoRoute \<Rightarrow> Err \<lparr>rs_status = 404, rs_body = []\<rparr>)"

text \<open>The JSON extractor wants a JSON content type and a body that decodes.\<close>

definition header :: "http_request \<Rightarrow> string \<Rightarrow> string option option" where
  "header rq name = map_of (rq_headers rq) name"

definition extract_json :: "('a) http_ext_scheme \<Rightarrow> (string \<Rightarrow> 't option) \<Rightarrow> http_request \<Rightarrow> http_response + 't" where
  "extract_json H dec rq =
    (case header rq ''content-type'' of
       Some (Some t) \<Rightarrow>
         if json_content_type H t
         then (case dec (rq_body rq) of Some v \<Rightarrow> Ok v | None \<Rightarrow> Err (extract_rejection H rq))
         else Err (extract_rejection H rq)
     | _ \<Rightarrow> Err (extract_rejection H rq))"

definition ok_response :: "string \<Rightarrow> http_response" where
  "ok_response text = \<lparr>rs_status = 200, rs_body = text\<rparr>"

text \<open>
  A router that behaves as documented: static routes first, then the first route that matches.
\<close>

definition first_match :: router where
  "first_match routes m p =
    (case filter (\<lambda>(q, _). is_static q \<and> route_matches q p) routes @ filter (\<lambda>(q, _). route_matches q p) routes of
       [] \<Rightarrow> NoRoute
     | (q, m') # _ \<Rightarrow> if m = m' then Routed q (captured q p) else MethodNotAllowed)"

section \<open>Lemmas\<close>

lemma segments_plain: "CHR ''/'' \<notin> set s \<Longrightarrow> segments s = [s]"
  by (induction s) auto

lemma segments_not_Nil [simp]: "segments s \<noteq> []"
  by (induction s) (auto split: list.split)

lemma segments_append: "segments (s @ CHR ''/'' # t) = segments s @ segments t"
proof (induction s)
  case (Cons c s)
  then show ?case by (cases "segments s") auto
qed simp

lemma join_segments: "join ''/'' (segments s) = s"
proof (induction s)
  case (Cons c s)
  obtain x xs where "segments s = x # xs"
    by (metis segments_not_Nil list.exhaust)
  then show ?case
    using Cons by (cases xs) auto
qed simp

lemma static_match:
  assumes "is_static q" "route_matches q p"
  shows "p = q"
proof -
  have "list_all2 segment_matches xs ys \<Longrightarrow> \<not> list_ex is_capture xs \<Longrightarrow> xs = ys" for xs ys
    by (induction xs ys rule: list_all2_induct) (auto simp: segment_matches_def split: if_splits)
  then have "segments q = segments p"
    using assms by (simp add: is_static_def route_matches_def)
  then show ?thesis
    by (metis join_segments)
qed

lemma first_match_axum: "axum_router first_match"
proof -
  have hit: "first_match routes m p = (if m = m' then Routed q (captured q p) else MethodNotAllowed)"
    if d: "distinct (map fst routes)" and q: "(q, m') \<in> set routes" "route_matches q p"
      and only: "is_static q \<or> (\<forall>r \<in> fst ` set routes. route_matches r p \<longrightarrow> r = q)" for routes m p q m'
  proof -
    let ?xs = "filter (\<lambda>(q, _). is_static q \<and> route_matches q p) routes @ filter (\<lambda>(q, _). route_matches q p) routes"
    have same: "x = (q, m')" if "x \<in> set ?xs" "is_static (fst x) \<or> \<not> is_static q" for x
    proof -
      have x: "route_matches (fst x) p" "x \<in> set routes"
        using that(1) by auto
      have "fst x = q"
      proof (cases "is_static q")
        case True
        then show ?thesis
          using static_match [OF _ x(1)] static_match [OF _ q(2)] that(2) by simp
      qed (use only x in auto)
      then show ?thesis
        using d q(1) that(1) by (cases x) (auto dest: eq_key_imp_eq_value)
    qed
    have "(q, m') \<in> set ?xs"
      using q by simp
    then obtain x xs where xs: "?xs = x # xs"
      by (metis list.set_cases)
    moreover have "is_static (fst x) \<or> \<not> is_static q"
    proof (cases "filter (\<lambda>(q, _). is_static q \<and> route_matches q p) routes")
      case Nil
      then show ?thesis
        using q by (auto simp: filter_empty_conv)
    next
      case (Cons y ys)
      then have "y \<in> set (filter (\<lambda>(q, _). is_static q \<and> route_matches q p) routes)" "x = y"
        using xs by simp_all
      then show ?thesis
        by auto
    qed
    ultimately have "x = (q, m')"
      by (intro same) auto
    then show ?thesis
      using xs by (simp add: first_match_def)
  qed
  have miss: "first_match routes m p = NoRoute" if "\<forall>q \<in> fst ` set routes. \<not> route_matches q p" for routes m p
    using that by (simp add: first_match_def filter_empty_conv case_prod_unfold)
  show ?thesis
    unfolding axum_router_def
  proof (intro allI impI conjI, goal_cases)
    case (1 routes m p)
    then show ?case
      by (clarify, intro hit) blast+
  qed (rule miss)
qed

lemma axum_lookup:
  assumes "axum_router lookup" "distinct (map fst routes)" "CHR ''%'' \<notin> set p"
  shows "\<lbrakk>(q, m') \<in> set routes; route_matches q p;
      is_static q \<or> (\<forall>r \<in> fst ` set routes. route_matches r p \<longrightarrow> r = q)\<rbrakk> \<Longrightarrow>
      lookup routes m p = (if m = m' then Routed q (captured q p) else MethodNotAllowed)"
    and "\<forall>r \<in> fst ` set routes. \<not> route_matches r p \<Longrightarrow> lookup routes m p = NoRoute"
proof -
  note router = assms(1) [unfolded axum_router_def, THEN spec, of routes, THEN spec, of m, THEN spec, of p,
      THEN mp, OF conjI [OF assms(2,3)]]
  show "lookup routes m p = (if m = m' then Routed q (captured q p) else MethodNotAllowed)"
    if "(q, m') \<in> set routes" "route_matches q p"
      "is_static q \<or> (\<forall>r \<in> fst ` set routes. route_matches r p \<longrightarrow> r = q)"
    using router [THEN conjunct1, THEN bspec, OF that(1)] that(2,3) by blast
  show "\<forall>r \<in> fst ` set routes. \<not> route_matches r p \<Longrightarrow> lookup routes m p = NoRoute"
    using router [THEN conjunct2] by (rule mp)
qed

lemma route_keys:
  "map fst (map (\<lambda>(q, m, _). (q, m)) routes) = map fst routes"
  "fst ` set (map (\<lambda>(q, m, _). (q, m)) routes) = fst ` set routes"
  by (auto simp: case_prod_unfold image_image)

lemma dispatch_route:
  assumes "axum_router lookup" "distinct (map fst routes)" "CHR ''%'' \<notin> set (rq_path rq)"
    and "(q, rq_method rq, h) \<in> set routes" "route_matches q (rq_path rq)"
    and "is_static q \<or> (\<forall>r \<in> fst ` set routes. route_matches r (rq_path rq) \<longrightarrow> r = q)"
  shows "dispatch lookup routes rq = Ok (h, captured q (rq_path rq))"
proof -
  have "(q, rq_method rq) \<in> set (map (\<lambda>(q, m, _). (q, m)) routes)"
    using assms(4) by force
  from axum_lookup(1) [OF assms(1) _ assms(3) this assms(5), of "rq_method rq", unfolded route_keys, OF assms(2,6)]
  have "lookup (map (\<lambda>(q, m, _). (q, m)) routes) (rq_method rq) (rq_path rq) = Routed q (captured q (rq_path rq))"
    by simp
  moreover have "map_of routes q = Some (rq_method rq, h)"
    using assms(2,4) by simp
  ultimately show ?thesis
    by (simp add: dispatch_def)
qed

lemma dispatch_no_route:
  assumes "axum_router lookup" "distinct (map fst routes)" "CHR ''%'' \<notin> set (rq_path rq)"
    and "\<forall>r \<in> fst ` set routes. \<not> route_matches r (rq_path rq)"
  shows "dispatch lookup routes rq = Err \<lparr>rs_status = 404, rs_body = []\<rparr>"
  using axum_lookup(2) [OF assms(1) _ assms(3), of "map (\<lambda>(q, m, _). (q, m)) routes" "rq_method rq",
      unfolded route_keys, OF assms(2,4)]
  by (simp add: dispatch_def)

lemma show_nat_plain: "c \<in> set (show_nat n) \<Longrightarrow> is_digit c"
  using show_nat_digits [of n] by (simp add: list_all_iff)

lemma build_request_sel [simp]:
  "rq_method (build_request H base m) = method_of m"
  "rq_path (build_request H base m) = path m"
  by (simp_all add: build_request_def Let_def)

lemma local_host_fmt [simp]: "ipv4_fmt [127, 0, 0, 1] = ''127.0.0.1''" "IpAddr_fmt [127, 0, 0, 1] = ''127.0.0.1''"
  by (simp_all add: IpAddr_fmt_def ipv4_fmt_def show_nat.simps [of 127] show_nat.simps [of 12] show_nat.simps [of "Suc 0"]
      show_nat.simps [of 0] digit_char_def char_of_def bit_0 bit_Suc)

lemma extract_built:
  assumes "method_of m = POST" "json_content_type H ''application/json''" "dec (body_of H m) = Some v"
  shows "extract_json H dec (build_request H base m) = Ok v"
  using assms by (simp add: extract_json_def build_request_def header_def)

end
