(* ===== verification/Runtime.thy ===== *)
theory Runtime
  imports Keeper_Growth Http
begin

text \<open>
  \<^verbatim>\<open>src/src/config.rs\<close> and \<^verbatim>\<open>src/src/peer_runtime.rs\<close>: the configuration of a peer, its start, and the
  event loop that receives messages, synchronizes and ticks. The tasks that share the network with the
  loop (the HTTP server and the discovery task) are events of their own. Reading an address
  (\<^verbatim>\<open>IpAddr::from_str\<close>, name resolution) is a parameter.
\<close>

section \<open>Configuration\<close>

definition PEER_ID_ENV_VAR :: string where
  "PEER_ID_ENV_VAR = ''PEER_ID''"

definition CONSENSUS_MODE_ENV_VAR :: string where
  "CONSENSUS_MODE_ENV_VAR = ''CONSENSUS_MODE''"

definition PEER_BIND_HOST_ENV_VAR :: string where
  "PEER_BIND_HOST_ENV_VAR = ''PEER_BIND_HOST''"

definition PEER_ADVERTISE_HOST_ENV_VAR :: string where
  "PEER_ADVERTISE_HOST_ENV_VAR = ''PEER_ADVERTISE_HOST''"

definition DISCOVERY_HOST_ENV_VAR :: string where
  "DISCOVERY_HOST_ENV_VAR = ''DISCOVERY_HOST''"

definition DISCOVERY_BIND_HOST_ENV_VAR :: string where
  "DISCOVERY_BIND_HOST_ENV_VAR = ''DISCOVERY_BIND_HOST''"

definition DISCOVERY_PORT_ENV_VAR :: string where
  "DISCOVERY_PORT_ENV_VAR = ''DISCOVERY_PORT''"

lemmas env_vars = PEER_ID_ENV_VAR_def CONSENSUS_MODE_ENV_VAR_def PEER_BIND_HOST_ENV_VAR_def PEER_ADVERTISE_HOST_ENV_VAR_def
  DISCOVERY_HOST_ENV_VAR_def DISCOVERY_BIND_HOST_ENV_VAR_def DISCOVERY_PORT_ENV_VAR_def

definition DEFAULT_CHANNEL_SIZE :: nat where
  "DEFAULT_CHANNEL_SIZE = 1000"

definition DEFAULT_MEMPOOL_SIZE :: nat where
  "DEFAULT_MEMPOOL_SIZE = 5"

definition DEFAULT_BASE_PORT :: u16 where
  "DEFAULT_BASE_PORT = 3000"

definition DEFAULT_LOCAL_HOST :: "u8 list" where
  "DEFAULT_LOCAL_HOST = [127, 0, 0, 1]"

datatype ConsensusMode = VotingMode | RaftMode

definition ascii_lowercase :: "char \<Rightarrow> char" where
  "ascii_lowercase c =
    (if 65 \<le> (of_char c :: nat) \<and> (of_char c :: nat) \<le> 90 then char_of (of_char c + 32 :: nat) else c)"

definition ConsensusMode_from_str :: "string \<Rightarrow> ConsensusMode option" where
  "ConsensusMode_from_str value_str =
    (let s = map ascii_lowercase value_str
     in (if s = ''voting'' then Some VotingMode else if s = ''raft'' then Some RaftMode else None))"

record environment =
  env_var :: "string \<Rightarrow> string option"
  ip_from_str :: "string \<Rightarrow> u8 list option"
  to_socket_addrs :: "string \<Rightarrow> u16 \<Rightarrow> SocketAddr list option"

record PeerConfig =
  cfg_peer_id :: PeerId
  listening_addr :: SocketAddr
  advertised_addr :: SocketAddr
  channel_size :: nat
  consensus_mode :: ConsensusMode

datatype config_error =
    PeerIdMissing
  | PeerIdNotANumber
  | UnknownConsensusMode
  | PeerIdOutOfRange peer_id_error
  | BindHostNotAnIp
  | AdvertiseHostUnresolved
  | AdvertiseHostNoAddress

definition PeerConfig_from_env :: "environment \<Rightarrow> config_error + PeerConfig" where
  "PeerConfig_from_env E =
    (case env_var E PEER_ID_ENV_VAR of
       None \<Rightarrow> Err PeerIdMissing
     | Some id_str \<Rightarrow>
         (case PeerId_from_str id_str of
            Err _ \<Rightarrow> Err PeerIdNotANumber
          | Ok pid \<Rightarrow>
              (case ConsensusMode_from_str (case env_var E CONSENSUS_MODE_ENV_VAR of Some s \<Rightarrow> s | None \<Rightarrow> ''raft'') of
                 None \<Rightarrow> Err UnknownConsensusMode
               | Some mode \<Rightarrow>
                   (case PeerId_try_into pid of
                      Err e \<Rightarrow> Err (PeerIdOutOfRange e)
                    | Ok port_offset \<Rightarrow>
                        let port_nr = DEFAULT_BASE_PORT + port_offset;
                            bind_host = (case env_var E PEER_BIND_HOST_ENV_VAR of Some s \<Rightarrow> s | None \<Rightarrow> IpAddr_fmt DEFAULT_LOCAL_HOST)
                        in (case ip_from_str E bind_host of
                              None \<Rightarrow> Err BindHostNotAnIp
                            | Some bind_ip \<Rightarrow>
                                let listening = SocketAddr bind_ip port_nr;
                                    cfg = (\<lambda>advertised. \<lparr>cfg_peer_id = pid, listening_addr = listening,
                                      advertised_addr = advertised, channel_size = DEFAULT_CHANNEL_SIZE,
                                      consensus_mode = mode\<rparr>)
                                in (case env_var E PEER_ADVERTISE_HOST_ENV_VAR of
                                      None \<Rightarrow> Ok (cfg listening)
                                    | Some host \<Rightarrow>
                                        (case to_socket_addrs E host port_nr of
                                           None \<Rightarrow> Err AdvertiseHostUnresolved
                                         | Some [] \<Rightarrow> Err AdvertiseHostNoAddress
                                         | Some (a # _) \<Rightarrow> Ok (cfg a))))))))"

section \<open>Start\<close>

definition create_raft_consensus ::
    "('a) raft_ext_scheme \<Rightarrow> nat \<Rightarrow> instant \<Rightarrow> PeerId \<Rightarrow> FileRaftLogStore \<Rightarrow> BlockKeeper \<Rightarrow>
     consensus_error + ConsensusEngine" where
  "create_raft_consensus X draw now pid store keeper =
    new_raft_with_storage X draw now pid (File store) (ucast (block_height (block_storage_state keeper)))"

record peer_dir =
  pd_blocks :: Disk
  pd_key :: key_dir
  pd_raft_log :: FileRaftLogStore

record runtime =
  rt_peer :: Peer
  rt_mode :: ConsensusMode

datatype start_error =
    BlockNamePanic
  | KeyPanic key_panic
  | StartConsensus consensus_error

text \<open>\<^verbatim>\<open>run_peer\<close> up to its loop; the first component is the key directory afterwards.\<close>

definition start_peer ::
    "('a) raft_ext_scheme \<Rightarrow> nat \<Rightarrow> instant \<Rightarrow> SigningKey \<Rightarrow> PeerConfig \<Rightarrow> peer_dir \<Rightarrow>
     key_dir \<times> (start_error + runtime)" where
  "start_peer X draw now fresh cfg d =
    (let net = RestNetwork_new (cfg_peer_id cfg) (channel_size cfg)
     in (case BlockKeeper_new X (pd_blocks d) DEFAULT_MEMPOOL_SIZE of
           None \<Rightarrow> (pd_key d, Err BlockNamePanic)
         | Some keeper \<Rightarrow>
             (case get_or_create_key X fresh (pd_key d) of
                (kd, Err e) \<Rightarrow> (kd, Err (KeyPanic e))
              | (kd, Ok key) \<Rightarrow>
                  (case (case consensus_mode cfg of
                           VotingMode \<Rightarrow> Ok (new_voting (cfg_peer_id cfg))
                         | RaftMode \<Rightarrow> create_raft_consensus X draw now (cfg_peer_id cfg) (pd_raft_log d) keeper) of
                     Err e \<Rightarrow> (kd, Err (StartConsensus e))
                   | Ok engine \<Rightarrow>
                       (kd, Ok \<lparr>rt_peer = Peer_new X (cfg_peer_id cfg) net engine keeper key,
                                rt_mode = consensus_mode cfg\<rparr>)))))"

text \<open>\<^verbatim>\<open>src/src/bin/peer_runner.rs\<close>: configure and start.\<close>

definition peer_runner_main ::
    "('a) raft_ext_scheme \<Rightarrow> environment \<Rightarrow> nat \<Rightarrow> instant \<Rightarrow> SigningKey \<Rightarrow> (PeerId \<Rightarrow> peer_dir) \<Rightarrow>
     config_error + key_dir \<times> (start_error + runtime)" where
  "peer_runner_main X E draw now fresh dirs =
    (case PeerConfig_from_env E of
       Err e \<Rightarrow> Err e
     | Ok cfg \<Rightarrow> Ok (start_peer X draw now fresh cfg (dirs (cfg_peer_id cfg))))"

section \<open>The event loop\<close>

datatype runtime_event =
    Receive nat instant
  | SyncTick "nat \<Rightarrow> sync_net"
  | ConsensusTick instant
  | PeerPosted Message
  | ClientPosted MessageBody
  | PeersRefreshed "(PeerId \<times> SocketAddr) list"

datatype runtime_result =
    Continues runtime
  | NotReady
  | TaskPanics
  | NeverReturns

definition on_network :: "(RestNetwork \<Rightarrow> RestNetwork) \<Rightarrow> runtime \<Rightarrow> runtime" where
  "on_network f rt =
    (let p = rt_peer rt
     in rt\<lparr>rt_peer := p\<lparr>effects := (effects p)\<lparr>network := f (network (effects p))\<rparr>\<rparr>\<rparr>)"

fun runtime_step :: "('a) raft_ext_scheme \<Rightarrow> runtime_event \<Rightarrow> runtime \<Rightarrow> runtime_result" where
  "runtime_step X (Receive draw now) rt =
    (case peer_channel (network (effects (rt_peer rt))) of
       [] \<Rightarrow> NotReady
     | m # ms \<Rightarrow>
         let rt1 = on_network (\<lambda>net. net\<lparr>peer_channel := ms\<rparr>) rt
         in Continues (rt1\<lparr>rt_peer := handle_message X draw now m (rt_peer rt1)\<rparr>))"
| "runtime_step X (SyncTick nets) rt =
    (if rt_mode rt = VotingMode
     then (case check_and_retrieve_missing_blocks nets
                  (block_height (block_storage_state (block_keeper (effects (rt_peer rt)))))
                  (peer_apply_synchronized_block X) (rt_peer rt) of
             None \<Rightarrow> NeverReturns
           | Some (p, SyncPanicked) \<Rightarrow> TaskPanics
           | Some (p, SyncReturned _) \<Rightarrow> Continues (rt\<lparr>rt_peer := p\<rparr>))
     else NotReady)"
| "runtime_step X (ConsensusTick now) rt =
    (if requires_tick (consensus (rt_peer rt))
     then Continues (rt\<lparr>rt_peer := fst (handle_tick X now (rt_peer rt))\<rparr>)
     else NotReady)"
| "runtime_step X (PeerPosted m) rt = Continues (on_network (\<lambda>net. fst (on_message_received m net)) rt)"
| "runtime_step X (ClientPosted body) rt = Continues (on_network (\<lambda>net. fst (receive_client_message body net)) rt)"
| "runtime_step X (PeersRefreshed ps) rt =
    Continues (on_network (\<lambda>net. fst (update_peers (Ok ps :: unit + _) net)) rt)"

inductive runs :: "('a) raft_ext_scheme \<Rightarrow> runtime \<Rightarrow> runtime \<Rightarrow> bool" for X where
  stay: "runs X rt rt"
| go: "runs X rt rt1 \<Longrightarrow> runtime_step X e rt1 = Continues rt2 \<Longrightarrow> runs X rt rt2"

inductive_cases runs_cases: "runs X rt rt'"

end
