(* ===== verification/Sync_Chain.thy ===== *)
theory Sync_Chain
  imports Keeper_Growth Peer_Voting
begin

text \<open>
  Synchronization and the chain: what a peer accepts from others while it catches up, and when it
  catches up.
\<close>

section \<open>One synchronized block\<close>

text \<open>A keeper that has the blocks \<open>bs\<close> on a disk that works, whatever it has staged.\<close>

definition synced :: "('a) block_ext_scheme \<Rightarrow> BlockFile list \<Rightarrow> BlockKeeper \<Rightarrow> bool" where
  "synced X bs k \<longleftrightarrow> store_ok X k \<and> keeper_blocks X k = Some bs \<and>
    disk_writable (path_to_blocks k) \<and> read_failures (path_to_blocks k) = {}"

lemma synced_tip:
  "synced X bs k \<Longrightarrow> last_commited_hash (block_storage_state k) = chain_tip EMPTY_HASH bs \<and> unat (height k) = length bs
    \<and> chain_linked X EMPTY_HASH 1 bs"
  using committed_blocks_length by (fastforce simp: synced_def store_ok_def keeper_blocks_def)

lemma store_ok_cong:
  "\<lbrakk>path_to_blocks k' = path_to_blocks k; block_storage_state k' = block_storage_state k\<rbrakk> \<Longrightarrow>
    store_ok X k' = store_ok X k \<and> keeper_blocks X k' = keeper_blocks X k"
  by (simp add: store_ok_def keeper_blocks_def)

lemma fold_move_uncommited: "uncommited_blocks (fold (move_to_pending X) txs k) = uncommited_blocks k"
  by (induction txs arbitrary: k) (auto simp: move_to_pending_def split: option.split)

lemma add_external_block_unchanged: "add_external_block X b k = (k', Err e) \<Longrightarrow> k' = k"
  by (auto simp: add_external_block_def Let_def split: sum.splits)

lemma add_external_block_staged:
  assumes "add_external_block X b k = (k', Ok u)"
  shows "verify_block X b = Ok () \<and> uncommited_blocks k' = AList.update (bf_hash b) b (uncommited_blocks k) \<and>
    path_to_blocks k' = path_to_blocks k \<and> block_storage_state k' = block_storage_state k"
  using assms add_external_block_store [of X b k] fold_move_uncommited [of X "bf_transactions b" k]
  by (auto simp: add_external_block_def Let_def split: sum.splits)

lemma delete_update: "map_of xs h = None \<Longrightarrow> AList.delete h (AList.update h b xs) = xs"
  by (induction xs) (auto split: if_splits)

lemma block_can_be_added_fresh: "block_can_be_added k b \<Longrightarrow> map_of (uncommited_blocks k) (bf_hash b) = None"
  by (simp add: block_can_be_added_def split: if_splits)

lemma block_can_be_added_next:
  "\<lbrakk>block_can_be_added k b; bf_index b = height k + 1\<rbrakk> \<Longrightarrow> extends_tip k b"
  by (simp add: block_can_be_added_def extends_tip_def split: if_splits)

text \<open>
  An accepted block becomes the next file and the staged blocks stay; the chain invariant is kept
  if it extends the tip.
\<close>

lemma apply_synchronized_block_writes:
  assumes "synced X bs (block_keeper pe)" "block_from_slice X (block_to_vec X b) = Some b"
    and "unat (height (block_keeper pe)) + 1 < 2 ^ 32"
    and "block_can_be_added (block_keeper pe) b" "verify_block X b = Ok ()"
  obtains pe' c where "apply_synchronized_block X b pe = (pe', Ok ())"
    "keeper_blocks X (block_keeper pe') = Some (bs @ [b])"
    "uncommited_blocks (block_keeper pe') = uncommited_blocks (block_keeper pe)"
    "height (block_keeper pe') = height (block_keeper pe) + 1"
    "stored (block_keeper pe') = (stored (block_keeper pe))(block_filename_for_index (height (block_keeper pe) + 1) \<mapsto> c)"
    "block_pattern_correct X \<Longrightarrow> extends_tip (block_keeper pe) b \<Longrightarrow> synced X (bs @ [b]) (block_keeper pe')"
proof -
  let ?k = "block_keeper pe"
  obtain k1 where k1: "add_external_block X b ?k = (k1, Ok ())"
    using assms(5) by (simp add: add_external_block_def Let_def del: verify_block_iff)
  note st = add_external_block_staged [OF k1]
  have b: "map_of (uncommited_blocks k1) (bf_hash b) = Some b"
    using st by (simp add: update_conv')
  obtain k2 where k2: "commit_block X (bf_hash b) k1 = (k2, Ok ())"
    using assms(1) st b by (simp add: commit_block_def fs_write_def synced_def Let_def)
  have un: "uncommited_blocks k2 = uncommited_blocks ?k"
    using k2 b st delete_update [OF block_can_be_added_fresh [OF assms(4)]]
    by (auto simp: commit_block_def Let_def split: option.splits)
  have stores: "stores_block X k1 b"
    using assms(1,2) st by (simp add: stores_block_def synced_def)
  have room: "unat (height k1) + 1 < 2 ^ 32"
    using assms(3) st by simp
  have ok: "store_ok X k1" "keeper_blocks X k1 = Some bs"
    using assms(1) store_ok_cong [of k1 ?k X] st by (simp_all add: synced_def)
  obtain c where w: "height k2 = height k1 + 1" "stored k2 = (stored k1)(block_filename_for_index (height k1 + 1) \<mapsto> c)"
    by (rule commit_block_writes [OF k2])
  have blocks: "keeper_blocks X k2 = Some (bs @ [b])"
    using commit_appends [OF k2 b stores room ok(2)] by simp
  have disk: "disk_writable (path_to_blocks k2)" "read_failures (path_to_blocks k2) = {}"
    using k2 b assms(1) st by (auto simp: commit_block_def fs_write_def synced_def Let_def split: if_splits)
  have "synced X (bs @ [b]) k2" if "block_pattern_correct X" "extends_tip ?k b"
  proof -
    have "extends_tip k1 b"
      using that(2) st by (simp add: extends_tip_def)
    then show ?thesis
      using commit_store_ok [OF that(1) ok(1) k2 b refl assms(5) _ stores room] blocks disk by (simp add: synced_def)
  qed
  moreover have "\<exists>pe'. apply_synchronized_block X b pe = (pe', Ok ()) \<and> block_keeper pe' = k2"
    using assms(4) k1 k2 by (simp add: apply_synchronized_block_def apply_block_transactions_def Let_def)
  ultimately show thesis
    using that un blocks w st by metis
qed

lemma apply_synchronized_block_rejects:
  assumes "\<not> (block_can_be_added (block_keeper pe) b \<and> verify_block X b = Ok ())"
  shows "\<exists>pe' e. apply_synchronized_block X b pe = (pe', Err e) \<and> block_keeper pe' = block_keeper pe \<and>
    transaction_processor pe' = (if block_can_be_added (block_keeper pe) b
      then apply_transactions X (bf_transactions b) (transaction_processor pe) else transaction_processor pe)"
proof (cases "block_can_be_added (block_keeper pe) b")
  case True
  then obtain e where "add_external_block X b (block_keeper pe) = (block_keeper pe, Err e)"
    using assms by (cases "verify_block X b") (auto simp: add_external_block_def simp del: verify_block_iff)
  then show ?thesis
    using True by (simp add: apply_synchronized_block_def apply_block_transactions_def Let_def)
qed (simp add: apply_synchronized_block_def)

section \<open>The peer\<close>

lemma peer_apply_effects:
  "peer_apply_synchronized_block X b p =
    (p\<lparr>effects := fst (apply_synchronized_block X b (effects p))\<rparr>, map_err PeerEffect (snd (apply_synchronized_block X b (effects p))))"
  by (simp add: peer_apply_synchronized_block_def split: prod.split)

abbreviation peer_keeper :: "Peer \<Rightarrow> BlockKeeper" where
  "peer_keeper p \<equiv> block_keeper (effects p)"

definition fetchable :: "(nat \<Rightarrow> sync_net) \<Rightarrow> BlockFile set" where
  "fetchable nets = {b. \<exists>k p ix. sn_send_and_wait (nets k) p (GetBlock ix) = Ok b}"

definition codec_on :: "('a) block_ext_scheme \<Rightarrow> BlockFile set \<Rightarrow> bool" where
  "codec_on X bs \<longleftrightarrow> (\<forall>b \<in> bs. block_from_slice X (block_to_vec X b) = Some b)"

lemma get_block_file_asked:
  assumes "get_block_file n ix ps = Some (Some b)"
  obtains q where "sn_send_and_wait n q (GetBlock ix) = Ok b"
  using assms by (auto simp: get_block_file_def Let_def split: if_splits sum.splits request_error.splits)

lemma get_block_file_fetchable: "get_block_file (nets k) idx ps = Some (Some b) \<Longrightarrow> b \<in> fetchable nets"
  by (erule get_block_file_asked) (auto simp: fetchable_def)

text \<open>
  A block whose parent is staged is served only in answer to the question for its own index. With nothing
  staged this holds of every network.
\<close>

definition staged_in_order :: "(nat \<Rightarrow> sync_net) \<Rightarrow> (BlockHash \<times> BlockFile) list \<Rightarrow> bool" where
  "staged_in_order nets us \<longleftrightarrow> (\<forall>k q ix b. sn_send_and_wait (nets k) q (GetBlock ix) = Ok b \<and>
    bf_previous_hash b \<in> bf_hash ` snd ` set us \<longrightarrow> bf_index b = ix)"

definition extends_chain ::
    "('a) block_ext_scheme \<Rightarrow> BlockFile list \<Rightarrow> (BlockHash \<times> BlockFile) list \<Rightarrow> u32 \<Rightarrow> Peer \<Rightarrow> bool" where
  "extends_chain X bs us idx p \<longleftrightarrow> (\<exists>ext. synced X (bs @ ext) (peer_keeper p)) \<and> uncommited_blocks (peer_keeper p) = us \<and>
    unat idx = Suc (unat (height (peer_keeper p)))"

lemma accepted_extends_tip:
  assumes "block_can_be_added k b" "staged_in_order nets (uncommited_blocks k)"
    and "sn_send_and_wait (nets j) q (GetBlock (height k + 1)) = Ok b"
  shows "extends_tip k b"
proof (cases rule: block_can_be_added_cases [OF assms(1)])
  case (2 parent)
  then have "bf_previous_hash b \<in> bf_hash ` snd ` set (uncommited_blocks k)"
    by blast
  then have "bf_index b = height k + 1"
    using assms(2,3) unfolding staged_in_order_def by metis
  then show ?thesis
    by (rule block_can_be_added_next [OF assms(1)])
qed

lemma extends_chain_step:
  assumes "block_pattern_correct X" "codec_on X (fetchable nets)" "unat (get_max_index ps) < 2 ^ 32 - 1" "staged_in_order nets us"
  shows "sync_inv_step nets (peer_apply_synchronized_block X) ps (extends_chain X bs us)"
  unfolding sync_inv_step_def
proof (intro allI impI)
  fix k idx p b p'
  assume a: "extends_chain X bs us idx p \<and> idx \<le> get_max_index ps \<and> get_block_file (nets k) idx ps = Some (Some b)"
  then obtain ext where ext: "synced X (bs @ ext) (peer_keeper p)" "uncommited_blocks (peer_keeper p) = us"
    "unat idx = Suc (unat (height (peer_keeper p)))"
    by (auto simp: extends_chain_def)
  have codec: "block_from_slice X (block_to_vec X b) = Some b"
    using a get_block_file_fetchable assms(2) by (auto simp: codec_on_def)
  show "(\<forall>u. peer_apply_synchronized_block X b p = (p', Ok u) \<longrightarrow> extends_chain X bs us (idx + 1) p') \<and>
      (\<forall>e. peer_apply_synchronized_block X b p = (p', Err e) \<longrightarrow> extends_chain X bs us idx p')"
  proof (cases "block_can_be_added (peer_keeper p) b \<and> verify_block X b = Ok ()")
    case True
    have small: "unat idx < 2 ^ 32 - 1"
      using a assms(3) by (simp add: word_le_nat_alt)
    then have room: "unat (height (peer_keeper p)) + 1 < 2 ^ 32"
      using ext(3) by simp
    then have "idx = height (peer_keeper p) + 1"
      using ext(3) unat_height_Suc [of "height (peer_keeper p)"] by (metis word_unat_eq_iff)
    then obtain q where "sn_send_and_wait (nets k) q (GetBlock (height (peer_keeper p) + 1)) = Ok b"
      using a get_block_file_asked by blast
    then have "extends_tip (peer_keeper p) b"
      using True ext(2) assms(4) accepted_extends_tip by blast
    then obtain pe' where "apply_synchronized_block X b (effects p) = (pe', Ok ())" "uncommited_blocks (block_keeper pe') = us"
      "synced X ((bs @ ext) @ [b]) (block_keeper pe')" "height (block_keeper pe') = height (peer_keeper p) + 1"
      using apply_synchronized_block_writes [OF ext(1) codec room] True assms(1) ext(2) by metis
    then show ?thesis
      using ext small unat_height_Suc [of "height (peer_keeper p)"] unat_height_Suc [of idx]
      by (auto simp: peer_apply_effects extends_chain_def)
  next
    case False
    then obtain pe' e where "apply_synchronized_block X b (effects p) = (pe', Err e)" "block_keeper pe' = peer_keeper p"
      using apply_synchronized_block_rejects [of "effects p" b X] by auto
    then show ?thesis
      using ext by (auto simp: peer_apply_effects extends_chain_def)
  qed
qed

section \<open>Honest sources\<close>

text \<open>
  A network all of whose peers serve the same chain: every known peer reports its length, every
  question for the state or the file of one of its blocks is answered from it, and the random choice
  picks distinct elements, as many as asked for if there are that many.
\<close>

abbreviation tip_state :: "BlockFile list \<Rightarrow> BlockStorageState" where
  "tip_state bs \<equiv> BlockStorageState_from (last bs)"

definition honest_net :: "BlockFile list \<Rightarrow> PeerId list \<Rightarrow> sync_net \<Rightarrow> bool" where
  "honest_net bs ps n \<longleftrightarrow> sn_known_peers n = ps \<and>
    (\<forall>qs. set qs \<subseteq> set ps \<and> distinct qs \<longrightarrow>
      mset (sn_send_and_wait_for_all n GetLatestBlockState qs) = mset (map (\<lambda>q. (q, Ok (tip_state bs))) qs)) \<and>
    (\<forall>qs ix. set qs \<subseteq> set ps \<and> distinct qs \<and> 1 \<le> unat ix \<and> unat ix \<le> length bs \<longrightarrow>
      mset (sn_send_and_wait_for_all n (GetBlockState ix) qs) =
        mset (map (\<lambda>q. (q, Ok (BlockStorageState_from (bs ! (unat ix - 1))))) qs)) \<and>
    (\<forall>q ix. q \<in> set ps \<and> 1 \<le> unat ix \<and> unat ix \<le> length bs \<longrightarrow>
      sn_send_and_wait n q (GetBlock ix) = Ok (bs ! (unat ix - 1))) \<and>
    (\<forall>m qs. distinct qs \<longrightarrow> distinct (sn_choose_multiple n m qs) \<and> set (sn_choose_multiple n m qs) \<subseteq> set qs \<and>
      length (sn_choose_multiple n m qs) = min m (length qs))"

lemma mset_map_filter: "mset xs = mset ys \<Longrightarrow> mset (List.map_filter f xs) = mset (List.map_filter f ys)"
  by (simp only: List.map_filter_def mset_map mset_filter)

lemma ok_values_mset:
  fixes rs :: "('k \<times> ('e + 'v)) list"
  assumes "mset rs = mset (map (\<lambda>q. (q, Ok v)) qs)"
  shows "mset (ok_values rs) = mset (map (\<lambda>q. (q, v)) qs)"
proof -
  have "mset (ok_values rs) = mset (ok_values (map (\<lambda>q. (q, Ok v :: 'e + 'v)) qs))"
    unfolding ok_values_def by (rule mset_map_filter) (rule assms)
  also have "ok_values (map (\<lambda>q. (q, Ok v :: 'e + 'v)) qs) = map (\<lambda>q. (q, v)) qs"
    by (induction qs) (simp_all add: ok_values_def)
  finally show ?thesis .
qed

lemma panics_mset:
  assumes "mset rs = mset (map (\<lambda>q. (q, Ok v)) qs)"
  shows "\<not> panics rs"
  using mset_eq_setD [OF assms] by (auto simp: panics_def list_ex_iff)

lemma honest_choose:
  "honest_net bs ps n \<Longrightarrow> distinct qs \<Longrightarrow> distinct (sn_choose_multiple n m qs) \<and>
    set (sn_choose_multiple n m qs) \<subseteq> set qs \<and> length (sn_choose_multiple n m qs) = min m (length qs)"
  unfolding honest_net_def by blast

lemma honest_states:
  "\<lbrakk>honest_net bs ps n; set qs \<subseteq> set ps; distinct qs; 1 \<le> unat ix; unat ix \<le> length bs\<rbrakk> \<Longrightarrow>
    mset (sn_send_and_wait_for_all n (GetBlockState ix) qs) =
      mset (map (\<lambda>q. (q, Ok (BlockStorageState_from (bs ! (unat ix - 1))))) qs)"
  unfolding honest_net_def by blast

lemma block_states_match_same: "\<forall>s \<in> set ss. s = v \<Longrightarrow> block_states_match ss"
  by (induction ss rule: block_states_match.induct) auto

lemma get_max_index_same:
  "ps \<noteq> [] \<Longrightarrow> (\<forall>(q, s) \<in> set ps. block_height s = v) \<Longrightarrow> get_max_index ps = v"
proof (induction ps)
  case (Cons x ps)
  then show ?case
    by (cases x; cases "ps = []") auto
qed simp

lemma honest_latest:
  assumes "honest_net bs ps n" "distinct ps" "ps \<noteq> []"
  shows "get_max_index (get_latest_indexes n) = block_height (tip_state bs)"
    "mset (get_latest_indexes n) = mset (map (\<lambda>q. (q, tip_state bs)) ps)"
    "\<not> panics (sn_send_and_wait_for_all n GetLatestBlockState (sn_known_peers n))"
proof -
  have all: "mset (sn_send_and_wait_for_all n GetLatestBlockState (sn_known_peers n)) = mset (map (\<lambda>q. (q, Ok (tip_state bs))) ps)"
    using assms(1,2) unfolding honest_net_def by auto
  show "\<not> panics (sn_send_and_wait_for_all n GetLatestBlockState (sn_known_peers n))"
    by (rule panics_mset [OF all])
  show m: "mset (get_latest_indexes n) = mset (map (\<lambda>q. (q, tip_state bs)) ps)"
    unfolding get_latest_indexes_def by (rule ok_values_mset [OF all])
  then have "set (get_latest_indexes n) = (\<lambda>q. (q, tip_state bs)) ` set ps"
    by (metis set_map set_mset_mset)
  then show "get_max_index (get_latest_indexes n) = block_height (tip_state bs)"
    using assms(3) by (intro get_max_index_same) auto
qed

lemma honest_block_file:
  assumes "honest_net bs ps n" "distinct ps" "ps \<noteq> []" "1 \<le> unat ix" "unat ix \<le> length bs"
    and "mset sts = mset (map (\<lambda>q. (q, tip_state bs)) ps)" "ix \<le> block_height (tip_state bs)"
  shows "get_block_file n ix sts = Some (Some (bs ! (unat ix - 1)))"
proof -
  define m where "m = min (length ps) 3"
  have sources: "mset (get_peers_for_index ix sts) = mset ps"
  proof -
    have "mset (filter (\<lambda>(_, s). ix \<le> block_height s) sts) =
        filter_mset (\<lambda>(_, s). ix \<le> block_height s) (mset (map (\<lambda>q. (q, tip_state bs)) ps))"
      by (simp add: assms(6))
    also have "\<dots> = mset (map (\<lambda>q. (q, tip_state bs)) ps)"
      unfolding mset_filter [symmetric] using assms(7) by (induction ps) auto
    finally have "image_mset fst (mset (filter (\<lambda>(_, s). ix \<le> block_height s) sts)) = mset ps"
      by (simp add: multiset.map_comp comp_def)
    then show ?thesis
      by (simp add: get_peers_for_index_def)
  qed
  define qs where "qs = sn_choose_multiple n m (get_peers_for_index ix sts)"
  have "distinct (get_peers_for_index ix sts)" "length (get_peers_for_index ix sts) = length ps"
    "set (get_peers_for_index ix sts) = set ps"
    using sources assms(2) by (metis mset_eq_imp_distinct_iff, metis size_mset, metis set_mset_mset)
  then have qs: "distinct qs" "set qs \<subseteq> set ps" "length qs = m"
    using honest_choose [OF assms(1), of "get_peers_for_index ix sts" m] by (auto simp: qs_def m_def)
  define ans where "ans = sn_send_and_wait_for_all n (GetBlockState ix) qs"
  have ans: "\<not> panics ans"
    unfolding ans_def by (rule panics_mset [OF honest_states [OF assms(1) qs(2,1) assms(4,5)]])
  define rs where "rs = ok_values ans"
  have rs: "mset rs = mset (map (\<lambda>q. (q, BlockStorageState_from (bs ! (unat ix - 1)))) qs)"
    unfolding rs_def ans_def by (rule ok_values_mset [OF honest_states [OF assms(1) qs(2,1) assms(4,5)]])
  have "length rs = m"
    using rs qs(3) by (metis length_map size_mset)
  moreover have "\<forall>s \<in> set (map snd rs). s = BlockStorageState_from (bs ! (unat ix - 1))"
    using mset_eq_setD [OF rs] by auto
  moreover from this have "block_states_match (map snd rs)"
    by (rule block_states_match_same)
  ultimately have "length (map snd rs) = m \<and> block_states_match (map snd rs)"
    by simp
  moreover have "0 < m"
    using assms(3) by (simp add: m_def)
  moreover from this have "qs ! (sn_draw n mod m) \<in> set ps"
    using qs by (metis mod_less_divisor nth_mem subsetD)
  ultimately show ?thesis
    using assms(1,4,5) ans unfolding get_block_file_def Let_def
    by (auto simp: honest_net_def m_def [symmetric] qs_def [symmetric] ans_def [symmetric] rs_def [symmetric])
qed

section \<open>Catching up\<close>

lemma chain_linked_nth:
  "chain_linked X h m bs \<Longrightarrow> i < length bs \<Longrightarrow>
    bf_previous_hash (bs ! i) = chain_tip h (take i bs) \<and> unat (bf_index (bs ! i)) = m + i \<and> verify_block X (bs ! i) = Ok ()"
proof (induction bs arbitrary: h m i)
  case (Cons b bs)
  show ?case
  proof (cases i)
    case (Suc j)
    then show ?thesis
      using Cons.IH [of "bf_hash b" "Suc m" j] Cons.prems by (auto simp: chain_tip_def)
  qed (use Cons.prems in \<open>auto simp: chain_tip_def\<close>)
qed simp

text \<open>The blocks the peer has not staged; a staged block is refused when it is fetched.\<close>

abbreviation unstaged :: "(BlockHash \<times> BlockFile) list \<Rightarrow> BlockFile \<Rightarrow> bool" where
  "unstaged us b \<equiv> bf_hash b \<notin> fst ` set us"

lemma next_block_accepted:
  assumes "block_pattern_correct X" "codec_on X (set bs)" "chain_linked X EMPTY_HASH 1 bs" "length bs < 2 ^ 32 - 1"
    and "i < length bs" "synced X (take i bs) (peer_keeper p)" "unstaged (uncommited_blocks (peer_keeper p)) (bs ! i)"
  shows "\<exists>p'. peer_apply_synchronized_block X (bs ! i) p = (p', Ok ()) \<and> synced X (take (Suc i) bs) (peer_keeper p') \<and>
    uncommited_blocks (peer_keeper p') = uncommited_blocks (peer_keeper p)"
proof -
  have h: "unat (height (peer_keeper p)) = i"
    "last_commited_hash (block_storage_state (peer_keeper p)) = chain_tip EMPTY_HASH (take i bs)"
    using synced_tip [OF assms(6)] assms(5) by simp_all
  note b = chain_linked_nth [OF assms(3,5)]
  have "unat (height (peer_keeper p) + 1) = Suc i"
    using h assms(4,5) unat_height_Suc [of "height (peer_keeper p)"] by simp
  then have ix: "bf_index (bs ! i) = height (peer_keeper p) + 1"
    using b by (metis add.commute plus_1_eq_Suc word_of_unat)
  moreover from this have "bf_index (bs ! i) \<noteq> 0"
    using b by (metis Suc_eq_plus1_left nat.distinct(1) unat_0)
  moreover have "map_of (uncommited_blocks (peer_keeper p)) (bf_hash (bs ! i)) = None"
    using assms(7) by (simp add: map_of_eq_None_iff)
  ultimately have add: "block_can_be_added (peer_keeper p) (bs ! i)"
    using b h(2) by (simp add: block_can_be_added_def)
  have codec: "block_from_slice X (block_to_vec X (bs ! i)) = Some (bs ! i)"
    using assms(2,5) by (simp add: codec_on_def)
  have room: "unat (height (peer_keeper p)) + 1 < 2 ^ 32"
    using h(1) assms(4,5) by simp
  obtain pe' where "apply_synchronized_block X (bs ! i) (effects p) = (pe', Ok ())"
    "synced X (take i bs @ [bs ! i]) (block_keeper pe')" "uncommited_blocks (block_keeper pe') = uncommited_blocks (peer_keeper p)"
    using apply_synchronized_block_writes [OF assms(6) codec room add] b assms(1) block_can_be_added_next [OF add ix] by metis
  then show ?thesis
    using assms(5) by (simp add: peer_apply_effects take_Suc_conv_app_nth)
qed

lemma staged_block_refused:
  assumes "\<not> unstaged (uncommited_blocks (peer_keeper p)) b"
  shows "\<exists>e. peer_apply_synchronized_block X b p = (p, Err e)"
proof -
  have "map_of (uncommited_blocks (peer_keeper p)) (bf_hash b) \<noteq> None"
    using assms by (simp add: map_of_eq_None_iff)
  then have "\<not> block_can_be_added (peer_keeper p) b"
    by (simp add: block_can_be_added_def)
  then show ?thesis
    by (simp add: peer_apply_effects apply_synchronized_block_def map_err_def)
qed

text \<open>A pass that neither applies a block nor changes the state repeats until the errors are used up.\<close>

lemma sync_loop_stuck:
  assumes "idx \<le> get_max_index sts"
    and "\<And>k. get_block_file (nets k) idx sts = Some None \<or>
      (\<exists>b e. get_block_file (nets k) idx sts = Some (Some b) \<and> apply_block b s = (s, Err e))"
    and "errors \<le> 3"
  shows "sync_loop nets apply_block sts k idx errors s = Some (s, SyncReturned FAIL)"
  using assms(3)
proof (induction "3 - errors" arbitrary: errors k)
  case 0
  then show ?case
    using assms(1) by (subst sync_loop.simps) simp
next
  case (Suc n)
  then have "sync_loop nets apply_block sts (Suc k) idx (Suc errors) s = Some (s, SyncReturned FAIL)"
    by simp
  then show ?case
    using assms(1) assms(2) [of k] Suc.hyps(2) by (subst sync_loop.simps) auto
qed

lemma sync_loop_catches_up:
  assumes "block_pattern_correct X" "codec_on X (set bs)" "chain_linked X EMPTY_HASH 1 bs" "length bs < 2 ^ 32 - 1"
    and "\<And>k. honest_net bs ps (nets k)" "distinct ps" "ps \<noteq> []"
    and "mset sts = mset (map (\<lambda>q. (q, tip_state bs)) ps)" "get_max_index sts = block_height (tip_state bs)"
    and "unat (block_height (tip_state bs)) = length bs"
    and "i \<le> length bs" "synced X (take i bs) (peer_keeper p)" "uncommited_blocks (peer_keeper p) = us" "unat idx = Suc i"
  shows "\<exists>p'. sync_loop nets (peer_apply_synchronized_block X) sts k idx 0 p =
      Some (p', SyncReturned (if list_all (unstaged us) (drop i bs) then SUCCESS else FAIL)) \<and>
    synced X (take i bs @ takeWhile (unstaged us) (drop i bs)) (peer_keeper p') \<and> uncommited_blocks (peer_keeper p') = us"
  using assms(11-14)
proof (induction "length bs - i" arbitrary: i k idx p)
  case 0
  then show ?case
    using assms(9,10) by (subst sync_loop.simps) (simp add: word_less_nat_alt)
next
  case (Suc n)
  have i: "i < length bs"
    using Suc by simp
  have fetched: "get_block_file (nets k) idx sts = Some (Some (bs ! i))" for k
    using honest_block_file [OF assms(5-7), where ix = idx and sts = sts] i Suc.prems(4) assms(8,10)
    by (simp add: word_le_nat_alt)
  have idx: "\<not> get_max_index sts < idx" "idx \<le> get_max_index sts"
    using i Suc.prems(4) assms(9,10) by (simp_all add: word_less_nat_alt word_le_nat_alt)
  have drop: "drop i bs = bs ! i # drop (Suc i) bs"
    using i by (simp add: Cons_nth_drop_Suc)
  show ?case
  proof (cases "unstaged us (bs ! i)")
    case True
    then obtain p' where p': "peer_apply_synchronized_block X (bs ! i) p = (p', Ok ())"
        "synced X (take (Suc i) bs) (peer_keeper p')" "uncommited_blocks (peer_keeper p') = us"
      using next_block_accepted [OF assms(1-4) i Suc.prems(2)] Suc.prems(3) by blast
    moreover have "unat (idx + 1) = Suc (Suc i)"
      using i Suc.prems(4) assms(4) unat_height_Suc [of idx] by simp
    ultimately show ?thesis
      using Suc.hyps(1) [of "Suc i" p' "idx + 1" "Suc k"] Suc.hyps(2) i fetched idx(1) True
      by (subst sync_loop.simps) (simp add: drop take_Suc_conv_app_nth)
  next
    case False
    then obtain e where "peer_apply_synchronized_block X (bs ! i) p = (p, Err e)"
      using staged_block_refused [of "bs ! i" p X] Suc.prems(3) by blast
    then have "sync_loop nets (peer_apply_synchronized_block X) sts k idx 0 p = Some (p, SyncReturned FAIL)"
      using fetched by (intro sync_loop_stuck [OF idx(2)]) auto
    then show ?thesis
      using False Suc.prems(2,3) by (simp add: drop)
  qed
qed

lemma sync_from_honest_peers:
  assumes "block_pattern_correct X" "codec_on X (set bs)" "chain_linked X EMPTY_HASH 1 bs" "length bs < 2 ^ 32 - 1"
    and "\<forall>k. honest_net bs ps (nets k)" "distinct ps" "ps \<noteq> []"
    and "i < length bs" "synced X (take i bs) (peer_keeper p)" "uncommited_blocks (peer_keeper p) = us"
  shows "\<exists>p'. check_and_retrieve_missing_blocks nets (height (peer_keeper p)) (peer_apply_synchronized_block X) p =
      Some (p', SyncReturned (if list_all (unstaged us) (drop i bs) then SUCCESS else FAIL)) \<and>
    keeper_blocks X (peer_keeper p') = Some (take i bs @ takeWhile (unstaged us) (drop i bs)) \<and>
    uncommited_blocks (peer_keeper p') = us"
proof -
  let ?sts = "get_latest_indexes (nets 0)"
  have nets: "honest_net bs ps (nets k)" for k
    using assms(5) by blast
  have tip: "unat (block_height (tip_state bs)) = length bs"
    using chain_linked_nth [OF assms(3), of "length bs - 1"] assms(8) last_conv_nth [of bs]
    by (cases "bs = []") (auto simp: BlockStorageState_from_def)
  have h: "unat (height (peer_keeper p)) = i"
    using synced_tip [OF assms(9)] assms(8) by simp
  then have "unat (height (peer_keeper p) + 1) = Suc i"
    using assms(4,8) unat_height_Suc [of "height (peer_keeper p)"] by simp
  moreover have "height (peer_keeper p) \<noteq> get_max_index ?sts"
    using h tip assms(8) honest_latest(1) [OF nets assms(6,7)] by (metis less_irrefl)
  ultimately show ?thesis
    using sync_loop_catches_up [where nets = nets and sts = ?sts and k = 1 and
        idx = "height (peer_keeper p) + 1", OF assms(1-4) nets assms(6,7) honest_latest(2) [OF nets assms(6,7)]
        honest_latest(1) [OF nets assms(6,7)] tip _ assms(9,10)] assms(8) honest_latest(3) [OF nets assms(6,7)]
    by (auto simp: check_and_retrieve_missing_blocks_def Let_def synced_def)
qed

section \<open>One source\<close>

lemma sync_returns:
  assumes "unat (get_max_index (get_latest_indexes (nets 0))) < 2 ^ 32 - 1"
  shows "\<exists>r. check_and_retrieve_missing_blocks nets peer_height apply_block s = Some r"
  using sync_loop_returns [OF assms, of 0 nets apply_block 1 "peer_height + 1" s]
  by (auto simp: check_and_retrieve_missing_blocks_def Let_def)

text \<open>A network of one peer, which reports one state and answers every question for a block with one block.\<close>

definition one_peer_net :: "PeerId \<Rightarrow> BlockStorageState \<Rightarrow> BlockFile \<Rightarrow> sync_net" where
  "one_peer_net q st b = \<lparr>sn_known_peers = [q], sn_send_and_wait_for_all = (\<lambda>_ qs. map (\<lambda>q. (q, Ok st)) qs),
    sn_send_and_wait = (\<lambda>_ _. Ok b), sn_choose_multiple = take, sn_draw = 0\<rparr>"

lemma one_peer_sync:
  assumes "block_height st = h + 1" "unat h + 2 < 2 ^ 32" "apply_block b s = (s', Ok ())"
  shows "check_and_retrieve_missing_blocks (\<lambda>_. one_peer_net q st b) h apply_block s = Some (s', SyncReturned SUCCESS)"
proof -
  have latest: "get_latest_indexes (one_peer_net q st b) = [(q, st)]"
    "\<not> panics (sn_send_and_wait_for_all (one_peer_net q st b) GetLatestBlockState (sn_known_peers (one_peer_net q st b)))"
    by (simp_all add: get_latest_indexes_def one_peer_net_def ok_values_def panics_def)
  have "unat (h + 1) = Suc (unat h)" "unat (h + 1 + 1) = Suc (Suc (unat h))"
    using assms(2) unat_height_Suc [of h] unat_height_Suc [of "h + 1"] by simp_all
  then have h: "h \<noteq> h + 1" "h + 1 < h + 1 + 1"
    by (metis n_not_Suc_n, simp add: word_less_nat_alt)
  have fetched: "get_block_file (one_peer_net q st b) (h + 1) [(q, st)] = Some (Some b)"
    by (simp add: get_block_file_def get_peers_for_index_def one_peer_net_def ok_values_def panics_def assms(1) Let_def)
  have "sync_loop (\<lambda>_. one_peer_net q st b) apply_block [(q, st)] (Suc 1) (h + 1 + 1) 0 s' = Some (s', SyncReturned SUCCESS)"
    using h(2) assms(1) by (subst sync_loop.simps) simp
  then have "sync_loop (\<lambda>_. one_peer_net q st b) apply_block [(q, st)] 1 (h + 1) 0 s = Some (s', SyncReturned SUCCESS)"
    using fetched assms(1,3) by (subst sync_loop.simps) simp
  then show ?thesis
    using latest h(1) assms(1) by (simp add: check_and_retrieve_missing_blocks_def)
qed

section \<open>Concrete inputs\<close>

definition test_sync_net :: "BlockFile list \<Rightarrow> PeerId list \<Rightarrow> sync_net" where
  "test_sync_net bs ps = \<lparr>sn_known_peers = ps,
    sn_send_and_wait_for_all = (\<lambda>m qs. map (\<lambda>q. (q,
      case m of GetBlockState ix \<Rightarrow> Ok (BlockStorageState_from (bs ! (unat ix - 1))) | _ \<Rightarrow> Ok (tip_state bs))) qs),
    sn_send_and_wait = (\<lambda>q m. case m of GetBlock ix \<Rightarrow>
      (if 1 \<le> unat ix \<and> unat ix \<le> length bs then Ok (bs ! (unat ix - 1)) else Err RequestFailed) | _ \<Rightarrow> Err RequestFailed),
    sn_choose_multiple = (\<lambda>m qs. take m qs), sn_draw = 0\<rparr>"

lemma test_sync_net_honest: "honest_net bs ps (test_sync_net bs ps)"
  by (auto simp: honest_net_def test_sync_net_def dest: in_set_takeD)

lemma test_peer_pattern: "block_pattern_correct test_peer_ext"
proof -
  have "block_captures test_peer_ext = block_captures (test_block_ext (\<lambda>_. None))"
    by (simp add: test_peer_ext_def test_block_ext_def block_ext.defs raft_ext.defs)
  then show ?thesis
    by (simp add: block_pattern_correct_def test_captures_Some)
qed

lemma test_peer_synced: "synced test_peer_ext [] (peer_keeper (test_voting_peer ps))"
  by (simp add: synced_def store_ok_def keeper_blocks_def chain_tip_def block_names_def test_disk_def)

lemma test_chain_linked: "chain_linked test_peer_ext EMPTY_HASH 1 [test_block1]"
  by (simp add: test_block_file_def calculate_hash_def)

text \<open>Two known peers, of which one has a block.\<close>

definition test_uneven_net :: sync_net where
  "test_uneven_net = (test_sync_net [test_block1] [PeerId 2, PeerId 3])\<lparr>sn_send_and_wait_for_all :=
    (\<lambda>m qs. map (\<lambda>q. (q, Ok \<lparr>block_height = if q = PeerId 2 then 1 else 0, last_commited_hash = EMPTY_HASH\<rparr>)) qs)\<rparr>"

section \<open>Properties\<close>

text \<open>
  C11. Synchronization only extends the chain, whatever it returns and whatever the network answers to
  any of its questions, with one restriction on the network that matters only while blocks are
  staged: a block whose parent is staged is served only in answer to the question for its own index. The disk
  works, and the heights stay below the largest 32-bit number. Then the blocks the peer had stay, in
  order and unchanged, those added after them extend them to a hash-linked chain of
  verified blocks with consecutive indexes, and the staged blocks are the same as before.
\<close>

theorem sync_only_extends_chain:
  assumes "block_pattern_correct X" "codec_on X (fetchable nets)" "synced X bs (peer_keeper p)"
    and "length bs < 2 ^ 32 - 1" "unat (get_max_index (get_latest_indexes (nets 0))) < 2 ^ 32 - 1"
    and "\<forall>k q ix b. sn_send_and_wait (nets k) q (GetBlock ix) = Ok b \<and>
      bf_previous_hash b \<in> bf_hash ` snd ` set (uncommited_blocks (peer_keeper p)) \<longrightarrow> bf_index b = ix"
    and "check_and_retrieve_missing_blocks nets (height (peer_keeper p)) (peer_apply_synchronized_block X) p = Some (p', out)"
  shows "\<exists>ext. keeper_blocks X (peer_keeper p') = Some (bs @ ext) \<and> chain_linked X EMPTY_HASH 1 (bs @ ext) \<and>
    store_ok X (peer_keeper p') \<and> uncommited_blocks (peer_keeper p') = uncommited_blocks (peer_keeper p)"
proof -
  let ?us = "uncommited_blocks (peer_keeper p)"
  have order: "staged_in_order nets ?us"
    unfolding staged_in_order_def by (rule assms(6))
  have "unat (height (peer_keeper p) + 1) = Suc (unat (height (peer_keeper p)))"
    using assms(4) synced_tip [OF assms(3)] unat_height_Suc [of "height (peer_keeper p)"] by simp
  then have "extends_chain X bs ?us (height (peer_keeper p) + 1) p"
    using assms(3) by (auto simp: extends_chain_def intro: exI [of _ "[]"])
  then obtain idx' where "extends_chain X bs ?us idx' p'"
    using sync_invariant [OF assms(7) extends_chain_step [OF assms(1,2,5) order]] by blast
  then obtain ext where ext: "synced X (bs @ ext) (peer_keeper p')" "uncommited_blocks (peer_keeper p') = ?us"
    by (auto simp: extends_chain_def)
  show ?thesis
    using ext synced_tip [OF ext(1)] by (intro exI [of _ ext]) (simp add: synced_def)
qed

theorem sync_only_extends_chain_witness:
  "let out = check_and_retrieve_missing_blocks (\<lambda>_. test_sync_net [test_block1] [PeerId 2]) 0
      (peer_apply_synchronized_block test_peer_ext) (test_voting_peer [PeerId 2])
   in (\<exists>p' r ext. out = Some (p', r) \<and> keeper_blocks test_peer_ext (peer_keeper p') = Some ([] @ ext) \<and>
        store_ok test_peer_ext (peer_keeper p'))"
proof -
  let ?nets = "\<lambda>_ :: nat. test_sync_net [test_block1] [PeerId 2]" and ?p = "test_voting_peer [PeerId 2]"
  have max: "get_max_index (get_latest_indexes (?nets 0)) = 1"
    by (simp add: get_latest_indexes_def test_sync_net_def ok_values_def BlockStorageState_from_def test_block_file_def)
  have "codec_on test_peer_ext (fetchable ?nets)"
    by (auto simp: codec_on_def fetchable_def test_sync_net_def split: if_splits)
  moreover obtain r where r: "check_and_retrieve_missing_blocks ?nets 0 (peer_apply_synchronized_block test_peer_ext) ?p = Some r"
    using sync_returns [of ?nets 0 "peer_apply_synchronized_block test_peer_ext" ?p] max by auto
  ultimately show ?thesis
    using sync_only_extends_chain [OF test_peer_pattern _ test_peer_synced, of ?nets "[PeerId 2]" "fst r" "snd r"] max
    by (cases r) (auto simp: Let_def)
qed

text \<open>
  C33. Synchronization can break the chain of a peer that has a block staged. If one peer reports the next
  height and serves, when asked for that block, a verified block of the height after it whose parent is
  the staged block, then \<open>block_can_be_added\<close> accepts it for its staged parent, \<open>commit_block\<close> writes it as
  the next file, and synchronization returns success: the directory then holds the old blocks followed by one with the
  wrong index and the wrong predecessor, and the staged block is skipped.
\<close>

theorem staged_parent_breaks_chain:
  assumes "synced X bs (peer_keeper p)" "uncommited_blocks (peer_keeper p) = [(bf_hash s, s)]"
    and "bf_index s = height (peer_keeper p) + 1" "length bs + 2 < 2 ^ 32"
    and "bf_index b = bf_index s + 1" "bf_previous_hash b = bf_hash s" "bf_hash b \<noteq> bf_hash s"
    and "verify_block X b = Ok ()" "block_from_slice X (block_to_vec X b) = Some b"
    and "block_height st = height (peer_keeper p) + 1"
  shows "\<exists>p'. check_and_retrieve_missing_blocks (\<lambda>_. one_peer_net q st b) (height (peer_keeper p))
      (peer_apply_synchronized_block X) p = Some (p', SyncReturned SUCCESS) \<and>
    keeper_blocks X (peer_keeper p') = Some (bs @ [b]) \<and> \<not> chain_linked X EMPTY_HASH 1 (bs @ [b]) \<and>
    uncommited_blocks (peer_keeper p') = [(bf_hash s, s)]"
proof -
  let ?h = "height (peer_keeper p)"
  have h: "unat ?h = length bs"
    using synced_tip [OF assms(1)] by simp
  then have h1: "unat (?h + 1) = Suc (length bs)"
    using assms(4) unat_height_Suc [of ?h] by simp
  then have ix: "unat (bf_index b) = length bs + 2"
    using assms(3,4,5) unat_height_Suc [of "?h + 1"] by simp
  have "bf_index b \<noteq> 0"
    using ix by auto
  moreover have "?h \<noteq> bf_index b - 1"
    using h1 h assms(3,5) by (metis add_diff_cancel_right' n_not_Suc_n)
  ultimately have add: "block_can_be_added (peer_keeper p) b"
    using assms(2,3,5-7) by (simp add: block_can_be_added_def)
  have room: "unat ?h + 1 < 2 ^ 32" "unat ?h + 2 < 2 ^ 32"
    using assms(4) h by simp_all
  obtain pe' where pe': "apply_synchronized_block X b (effects p) = (pe', Ok ())" "keeper_blocks X (block_keeper pe') = Some (bs @ [b])"
    "uncommited_blocks (block_keeper pe') = uncommited_blocks (peer_keeper p)"
    using apply_synchronized_block_writes [OF assms(1,9) room(1) add assms(8)] by metis
  have "\<not> chain_linked X EMPTY_HASH 1 (bs @ [b])"
    using chain_linked_nth [of X EMPTY_HASH 1 "bs @ [b]" "length bs"] ix by auto
  moreover have "peer_apply_synchronized_block X b p = (p\<lparr>effects := pe'\<rparr>, Ok ())"
    using pe'(1) by (simp add: peer_apply_effects map_err_def)
  ultimately show ?thesis
    using one_peer_sync [OF assms(10) room(2), where apply_block = "peer_apply_synchronized_block X" and s = p and b = b and q = q]
      pe'(2,3) assms(2) by simp
qed

abbreviation test_block3 :: BlockFile where
  "test_block3 \<equiv> test_block_file [test_coin 2] (bf_hash test_block1) 2"

theorem staged_parent_breaks_chain_witness:
  "\<exists>(X :: raft_ext) p p'. uncommited_blocks (peer_keeper p) = [(bf_hash test_block1, test_block1)] \<and>
    check_and_retrieve_missing_blocks (\<lambda>_. one_peer_net (PeerId 2) \<lparr>block_height = 1, last_commited_hash = bf_hash test_block1\<rparr> test_block3)
      0 (peer_apply_synchronized_block X) p = Some (p', SyncReturned SUCCESS) \<and>
    keeper_blocks X (peer_keeper p') = Some [test_block3] \<and> \<not> chain_linked X EMPTY_HASH 1 [test_block3]"
proof -
  let ?X = "test_peer_ext\<lparr>block_from_slice := \<lambda>_. Some test_block3\<rparr>"
  let ?k = "(test_keeper 1)\<lparr>uncommited_blocks := [(bf_hash test_block1, test_block1)]\<rparr>"
  let ?p = "(test_voting_peer [])\<lparr>effects := (effects (test_voting_peer []))\<lparr>block_keeper := ?k\<rparr>\<rparr>"
  have k: "synced ?X [] (peer_keeper ?p)"
    by (simp add: synced_def store_ok_def keeper_blocks_def chain_tip_def block_names_def test_disk_def)
  have "last (as_bytes (bf_hash test_block3)) \<noteq> last (as_bytes (bf_hash test_block1))"
    by code_simp
  then have ne: "bf_hash test_block3 \<noteq> bf_hash test_block1"
    by metis
  have v: "verify_block ?X test_block3 = Ok ()"
    by (simp add: test_block_file_def calculate_hash_def)
  have ix: "bf_index test_block1 = 1" "bf_index test_block3 = 2" "bf_previous_hash test_block3 = bf_hash test_block1"
    by (simp_all add: test_block_file_def)
  obtain p' where "check_and_retrieve_missing_blocks
      (\<lambda>_. one_peer_net (PeerId 2) \<lparr>block_height = 1, last_commited_hash = bf_hash test_block1\<rparr> test_block3)
      0 (peer_apply_synchronized_block ?X) ?p = Some (p', SyncReturned SUCCESS)"
    "keeper_blocks ?X (peer_keeper p') = Some [test_block3]" "\<not> chain_linked ?X EMPTY_HASH 1 [test_block3]"
    using staged_parent_breaks_chain [OF k, of test_block1 test_block3 "\<lparr>block_height = 1, last_commited_hash = bf_hash test_block1\<rparr>" "PeerId 2"]
      ne v ix by (auto simp del: verify_block_iff chain_linked.simps)
  moreover have "uncommited_blocks (peer_keeper ?p) = [(bf_hash test_block1, test_block1)]"
    by simp
  ultimately show ?thesis
    by blast
qed



text \<open>
  Synchronization needs as many sources as it would ask: if fewer than three peers (or than all
  known peers, when there are fewer than three) have the next block, it fails after three passes without
  asking any of them for the block, however long the chain of those that have it.
\<close>

theorem sync_fails_with_few_sources:
  assumes "\<forall>k qs m. length (sn_send_and_wait_for_all (nets k) m qs) \<le> length qs"
    and "\<forall>k qs m. \<not> panics (sn_send_and_wait_for_all (nets k) m qs)"
    and "\<forall>k qs m. length (sn_choose_multiple (nets k) m qs) \<le> length qs"
    and "\<forall>k. length (get_peers_for_index (peer_height + 1) (get_latest_indexes (nets 0)))
      < min (length (sn_known_peers (nets k))) 3"
    and "peer_height + 1 \<le> get_max_index (get_latest_indexes (nets 0))"
    and "peer_height \<noteq> get_max_index (get_latest_indexes (nets 0))"
  shows "check_and_retrieve_missing_blocks nets peer_height apply_block s = Some (s, SyncReturned FAIL)"
proof -
  let ?sts = "get_latest_indexes (nets 0)" and ?idx = "peer_height + 1"
  have "length (ok_values rs) \<le> length rs" for rs :: "(PeerId \<times> (request_error + BlockStorageState)) list"
    by (simp add: ok_values_def List.map_filter_def)
  then have few: "get_block_file (nets k) ?idx ?sts = Some None" for k
  proof -
    let ?m = "min (length (sn_known_peers (nets k))) 3"
    let ?qs = "sn_choose_multiple (nets k) ?m (get_peers_for_index ?idx ?sts)"
    have "length (ok_values (sn_send_and_wait_for_all (nets k) (GetBlockState ?idx) ?qs)) < ?m"
      using \<open>\<And>rs. length (ok_values rs) \<le> length rs\<close> assms(1,3,4) by (meson order.strict_trans1 order.trans)
    then show ?thesis
      using assms(2) unfolding get_block_file_def Let_def by (metis length_map less_irrefl)
  qed
  then have "sync_loop nets apply_block ?sts 1 ?idx 0 s = Some (s, SyncReturned FAIL)"
    using assms(5) by (intro sync_loop_stuck) simp_all
  then show ?thesis
    using assms(2,6) by (simp add: check_and_retrieve_missing_blocks_def Let_def)
qed

theorem sync_fails_with_few_sources_witness:
  "check_and_retrieve_missing_blocks (\<lambda>_. test_uneven_net) 0 (peer_apply_synchronized_block test_peer_ext) (test_voting_peer []) =
    Some (test_voting_peer [], SyncReturned FAIL)"
proof -
  have "get_latest_indexes test_uneven_net =
    [(PeerId 2, \<lparr>block_height = 1, last_commited_hash = EMPTY_HASH\<rparr>), (PeerId 3, \<lparr>block_height = 0, last_commited_hash = EMPTY_HASH\<rparr>)]"
    by (simp add: get_latest_indexes_def test_uneven_net_def test_sync_net_def ok_values_def)
  moreover have "sn_known_peers test_uneven_net = [PeerId 2, PeerId 3]"
    "sn_choose_multiple test_uneven_net m qs = take m qs"
    "length (sn_send_and_wait_for_all test_uneven_net r qs) = length qs"
    "\<not> panics (sn_send_and_wait_for_all test_uneven_net r qs)" for m qs r
    by (auto simp: test_uneven_net_def test_sync_net_def panics_def list_ex_iff)
  ultimately show ?thesis
    using sync_fails_with_few_sources [of "\<lambda>_. test_uneven_net" 0] by (simp add: get_peers_for_index_def)
qed

text \<open>
  C35. A synchronized block is applied before it is verified: a block that links to the chain but
  whose hash is wrong is refused and leaves the blocks as they were, yet its transactions have been
  processed and stay in the accounts.
\<close>

theorem refused_block_is_applied:
  assumes "block_can_be_added (peer_keeper p) b" "verify_block X b \<noteq> Ok ()"
  shows "\<exists>p' e. peer_apply_synchronized_block X b p = (p', Err e) \<and> peer_keeper p' = peer_keeper p \<and>
    transaction_processor (effects p') = apply_transactions X (bf_transactions b) (transaction_processor (effects p))"
  using apply_synchronized_block_rejects [of "effects p" b X] assms by (auto simp: peer_apply_effects)

theorem refused_block_is_applied_witness:
  "\<exists>p' e. peer_apply_synchronized_block test_peer_ext (test_block1\<lparr>bf_hash := BlockHash [1]\<rparr>) (test_voting_peer []) = (p', Err e) \<and>
    peer_keeper p' = test_keeper 1 \<and>
    accounts (transaction_processor (effects p')) ''A'' = Some \<lparr>asset_type = BTC, balance = 10\<rparr>"
proof -
  let ?b = "test_block1\<lparr>bf_hash := BlockHash [1]\<rparr>"
  have "block_can_be_added (peer_keeper (test_voting_peer [])) ?b"
    by (simp add: block_can_be_added_def test_block_file_def)
  moreover have "verify_block test_peer_ext ?b \<noteq> Ok ()"
    by (auto simp: calculate_hash_def test_sha256_def dest: arg_cong [of _ _ length])
  ultimately show ?thesis
    using refused_block_is_applied [of "test_voting_peer []" ?b test_peer_ext]
    by (auto simp: test_block_file_def process_transaction_def TransactionProcessor_default_def add_coin_def test_tx_def
        to_string_hex_def test_hex_def Let_def)
qed

end
