(* ===== verification/Runtime_Safety.thy ===== *)
theory Runtime_Safety
  imports Runtime Sync_Chain
begin

text \<open>
  Invariants of a running peer: whatever messages, ticks, synchronizations and changes of the peer
  table a run consists of, and whatever the other peers answer.
\<close>

section \<open>Runs keep what the keeper's operations keep\<close>

abbreviation keeper_of :: "runtime \<Rightarrow> BlockKeeper" where
  "keeper_of rt \<equiv> block_keeper (effects (rt_peer rt))"

lemma on_network_keeper [simp]: "keeper_of (on_network f rt) = keeper_of rt"
  by (simp add: on_network_def Let_def)

lemma on_network_consensus [simp]:
  "consensus (rt_peer (on_network f rt)) = consensus (rt_peer rt)" "rt_mode (on_network f rt) = rt_mode rt"
  by (simp_all add: on_network_def Let_def)

fun syncs :: "runtime_event \<Rightarrow> bool" where
  "syncs (SyncTick _) = True"
| "syncs _ = False"

lemma runtime_step_mode: "runtime_step X e rt = Continues rt' \<Longrightarrow> rt_mode rt' = rt_mode rt"
  by (cases e) (auto simp: Let_def split: list.splits if_splits option.splits sync_outcome.splits)

context guided_peer
begin

lemma GP_unsynced_step:
  assumes "runtime_step X e rt = Continues rt'" "\<not> syncs e" "GP (rt_peer rt)"
  shows "GP (rt_peer rt')"
proof (cases e)
  case (Receive draw now)
  then obtain m ms where "peer_channel (network (effects (rt_peer rt))) = m # ms"
    using assms by (auto split: list.splits)
  then show ?thesis
    using assms Receive
      GP_handle_message [of "rt_peer (on_network (\<lambda>net. net\<lparr>peer_channel := ms\<rparr>) rt)" draw now m]
    by (auto simp: Let_def)
next
  case (ConsensusTick now)
  then show ?thesis
    using assms GP_handle_tick [of "rt_peer rt" now] by (auto split: if_splits)
qed (use assms in auto)

lemma GP_raft_runs: "\<lbrakk>runs X rt rt'; rt_mode rt = RaftMode; GP (rt_peer rt)\<rbrakk> \<Longrightarrow> GP (rt_peer rt') \<and> rt_mode rt' = RaftMode"
proof (induction rule: runs.induct)
  case (go rt rt1 e rt2)
  then have "\<not> syncs e"
    by (cases e) auto
  then show ?case
    using go GP_unsynced_step runtime_step_mode by metis
qed simp

end

context synced_peer
begin

lemma GP_runtime_step:
  assumes "runtime_step X e rt = Continues rt'" "GP (rt_peer rt)"
  shows "GP (rt_peer rt')"
proof (cases e)
  case (SyncTick nets)
  then obtain p st where "check_and_retrieve_missing_blocks nets (block_height (block_storage_state (keeper_of rt)))
      (peer_apply_synchronized_block X) (rt_peer rt) = Some (p, SyncReturned st)" "rt' = rt\<lparr>rt_peer := p\<rparr>"
    using assms by (auto split: if_splits option.splits sync_outcome.splits)
  then show ?thesis
    using GP_check_and_retrieve_missing_blocks assms(2) by simp
qed (rule GP_unsynced_step [OF assms(1) _ assms(2)], simp)+

lemma GP_runs: "\<lbrakk>runs X rt rt'; GP (rt_peer rt)\<rbrakk> \<Longrightarrow> GP (rt_peer rt')"
  by (induction rule: runs.induct) (auto intro: GP_runtime_step)

end

context keeper_relation
begin

lemma R_runs: "runs X rt rt' \<Longrightarrow> R (keeper_of rt) (keeper_of rt')"
  by (rule guide.GP_runs) (auto intro: R_refl)

end

lemma start_peer_wf:
  assumes "start_peer X draw now fresh cfg d = (kd, Ok rt)"
  shows "keeper_wf X (keeper_of rt)"
  using assms BlockKeeper_new_wf
  by (fastforce simp: start_peer_def Let_def Peer_new_def PeerEffects_new_def split: option.splits prod.splits sum.splits)

section \<open>Concrete inputs\<close>

definition test_peer_dir :: peer_dir where
  "test_peer_dir = \<lparr>pd_blocks = test_disk, pd_key = \<lparr>dir_creatable = True, key_writable = True, key_file = None\<rparr>,
    pd_raft_log = \<lparr>rl_contents = None, rl_readable = True, rl_parent_creatable = True, rl_writable = True\<rparr>\<rparr>"

definition test_config :: PeerConfig where
  "test_config = \<lparr>cfg_peer_id = PeerId 1, listening_addr = SocketAddr [127, 0, 0, 1] 3001,
    advertised_addr = SocketAddr [127, 0, 0, 1] 3001, channel_size = DEFAULT_CHANNEL_SIZE, consensus_mode = VotingMode\<rparr>"

section \<open>Properties\<close>

text \<open>
  C10. The committed history of a peer is never rewritten. From every state a started peer can reach,
  and along every further run, the keeper is well-formed, and as long as the greatest 32-bit height has
  not been reached (the file of that height is not in the directory), the height does not
  go back; the only files of the directory that changed are those of the heights between
  the old and the new one, and each of these is there; and every block file up to the old height reads as before. This
  holds for every sequence of messages, ticks, synchronizations and changes of the peer table, with either
  consensus engine, whatever fails and whatever the other peers send.
\<close>

theorem runs_never_rewrite_blocks:
  assumes "start_peer X draw now fresh cfg d = (kd, Ok rt0)" "runs X rt0 rt" "runs X rt rt'"
    and "height (keeper_of rt) \<noteq> - 1"
    and "map_of (files (path_to_blocks (keeper_of rt'))) (block_filename_for_index (- 1)) = None"
  shows "keeper_wf X (keeper_of rt') \<and> height (keeper_of rt) \<le> height (keeper_of rt') \<and>
    (\<forall>f. map_of (files (path_to_blocks (keeper_of rt'))) f \<noteq> map_of (files (path_to_blocks (keeper_of rt))) f \<longrightarrow>
      (\<exists>i. height (keeper_of rt) < i \<and> i \<le> height (keeper_of rt') \<and> f = block_filename_for_index i)) \<and>
    (\<forall>i. height (keeper_of rt) < i \<and> i \<le> height (keeper_of rt') \<longrightarrow>
      map_of (files (path_to_blocks (keeper_of rt'))) (block_filename_for_index i) \<noteq> None) \<and>
    (\<forall>i \<le> height (keeper_of rt). read_from_disk_by_index X (path_to_blocks (keeper_of rt')) i =
      read_from_disk_by_index X (path_to_blocks (keeper_of rt)) i)"
proof -
  have wf: "keeper_wf X (keeper_of rt')"
    using kw.R_runs [OF assms(2)] kw.R_runs [OF assms(3)] start_peer_wf [OF assms(1)] by blast
  have "appends_only (keeper_of rt) (keeper_of rt')"
    by (rule kn.R_runs [OF assms(3)])
  then have a: "added_only (keeper_of rt) (keeper_of rt')"
    "read_failures (path_to_blocks (keeper_of rt')) = read_failures (path_to_blocks (keeper_of rt))"
    using assms(4,5) by (simp_all add: appends_only_def)
  show ?thesis
    using wf a(1) added_only_old_blocks [OF a] unfolding added_only_def by blast
qed

theorem runs_never_rewrite_blocks_witness:
  "\<exists>rt0 rt'. start_peer test_peer_ext 0 0 (replicate 32 7) test_config test_peer_dir =
      ((pd_key test_peer_dir)\<lparr>key_file := Some (replicate 32 7)\<rparr>, Ok rt0) \<and>
    runs test_peer_ext rt0 rt' \<and> height (keeper_of rt') = 1 \<and> keeper_wf test_peer_ext (keeper_of rt') \<and>
    map_of (files (path_to_blocks (keeper_of rt'))) (block_filename_for_index 1) \<noteq> None"
proof -
  obtain rt0 where rt0: "start_peer test_peer_ext 0 0 (replicate 32 7) test_config test_peer_dir =
      ((pd_key test_peer_dir)\<lparr>key_file := Some (replicate 32 7)\<rparr>, Ok rt0)"
    and k: "rt_mode rt0 = VotingMode" "path_to_blocks (keeper_of rt0) = test_disk" "uncommited_blocks (keeper_of rt0) = []"
      "block_storage_state (keeper_of rt0) = \<lparr>block_height = 0, last_commited_hash = EMPTY_HASH\<rparr>"
    by (simp add: start_peer_def test_peer_dir_def test_config_def BlockKeeper_new_def dir_list_all_blocks_def test_disk_def
        get_or_create_key_def Peer_new_def PeerEffects_new_def Let_def)
  let ?p = "rt_peer rt0" and ?st = "\<lparr>block_height = 1, last_commited_hash = bf_hash test_block1\<rparr>"
  have syn: "synced test_peer_ext [] (peer_keeper ?p)"
    using k by (simp add: synced_def store_ok_def keeper_blocks_def chain_tip_def block_names_def test_disk_def)
  have add: "block_can_be_added (peer_keeper ?p) test_block1" and ver: "verify_block test_peer_ext test_block1 = Ok ()"
    using k by (simp_all add: block_can_be_added_def test_block_file_def calculate_hash_def)
  have codec: "block_from_slice test_peer_ext (block_to_vec test_peer_ext test_block1) = Some test_block1"
    and room: "unat (height (peer_keeper ?p)) + 1 < 2 ^ 32"
    using k by simp_all
  obtain pe' c where pe': "apply_synchronized_block test_peer_ext test_block1 (effects ?p) = (pe', Ok ())"
    "height (block_keeper pe') = height (peer_keeper ?p) + 1"
    "stored (block_keeper pe') = (stored (peer_keeper ?p))(block_filename_for_index (height (peer_keeper ?p) + 1) \<mapsto> c)"
    by (rule apply_synchronized_block_writes [OF syn codec room add ver])
  then have pe'_1: "height (block_keeper pe') = 1" "stored (block_keeper pe') = [block_filename_for_index 1 \<mapsto> c]"
    using k by (simp_all add: test_disk_def)
  define rt' where "rt' = rt0\<lparr>rt_peer := ?p\<lparr>effects := pe'\<rparr>\<rparr>"
  have "peer_apply_synchronized_block test_peer_ext test_block1 ?p = (?p\<lparr>effects := pe'\<rparr>, Ok ())"
    by (simp add: peer_apply_effects pe'(1) map_err_def)
  then have "runtime_step test_peer_ext (SyncTick (\<lambda>_. one_peer_net (PeerId 2) ?st test_block1)) rt0 = Continues rt'"
    using k one_peer_sync [of ?st 0 "peer_apply_synchronized_block test_peer_ext" test_block1 ?p "?p\<lparr>effects := pe'\<rparr>"]
    by (simp add: rt'_def)
  then have run: "runs test_peer_ext rt0 rt'"
    by (rule runs.go [OF runs.stay])
  have "height (keeper_of rt0) \<noteq> - 1" "stored (keeper_of rt') (block_filename_for_index (- 1)) = None"
    using k pe'_1(2) by (simp_all add: rt'_def filename_inj)
  from runs_never_rewrite_blocks [OF rt0 runs.stay run this]
  have "keeper_wf test_peer_ext (keeper_of rt')" "stored (keeper_of rt') (block_filename_for_index 1) \<noteq> None"
    using k pe'_1(1) by (auto simp: rt'_def)
  then show ?thesis
    using rt0 run pe'_1(1) by (intro exI [of _ rt0] exI [of _ rt']) (simp add: rt'_def)
qed

text \<open>
  The port of a configured peer: the id fits in 16 bits, and the port is 3000 plus the id, but
  the sum wraps for the ids from 62536 on, which get the ports from 0 on.
\<close>

theorem configured_port:
  assumes "PeerConfig_from_env E = Ok cfg"
  shows "unat (peer_number (cfg_peer_id cfg)) < 2 ^ 16 \<and>
    unat (port (listening_addr cfg)) =
      (if unat (peer_number (cfg_peer_id cfg)) < 62536 then 3000 + unat (peer_number (cfg_peer_id cfg))
       else unat (peer_number (cfg_peer_id cfg)) - 62536)"
proof -
  let ?n = "peer_number (cfg_peer_id cfg)"
  have small: "unat ?n < 2 ^ 16" and port: "port (listening_addr cfg) = 3000 + ucast ?n"
    using assms
    by (auto simp: PeerConfig_from_env_def PeerId_try_into_def DEFAULT_BASE_PORT_def Let_def
        split: option.splits sum.splits if_splits list.splits)
  have "unat (ucast ?n :: u16) = unat ?n"
    using small by (simp add: unsigned_ucast_eq take_bit_nat_eq_self)
  then have "unat (3000 + ucast ?n :: u16) = (3000 + unat ?n) mod 2 ^ 16"
    by (simp add: unat_word_ariths)
  then show ?thesis
    using small port by (auto simp: mod_if)
qed

definition test_environment :: environment where
  "test_environment = \<lparr>env_var = (\<lambda>v. if v = ''PEER_ID'' then Some (show_nat 62537) else None),
    ip_from_str = (\<lambda>s. if s = ''127.0.0.1'' then Some [127, 0, 0, 1] else None), to_socket_addrs = (\<lambda>_ _. None)\<rparr>"

theorem configured_port_witness:
  "\<exists>cfg. PeerConfig_from_env test_environment = Ok cfg \<and> unat (port (listening_addr cfg)) = 1"
proof -
  have "PeerId_from_str (show_nat 62537) = Ok (PeerId 62537)"
    using from_str_u32_show [of 62537] by (simp add: PeerId_from_str_def del: show_nat.simps)
  then obtain cfg where "PeerConfig_from_env test_environment = Ok cfg" "cfg_peer_id cfg = PeerId 62537"
    by (simp add: PeerConfig_from_env_def test_environment_def ConsensusMode_from_str_def ascii_lowercase_def
        PeerId_try_into_def DEFAULT_LOCAL_HOST_def env_vars Let_def del: show_nat.simps)
  then show ?thesis
    using configured_port [of test_environment cfg] by auto
qed

end
