(* ===== verification/Decided_Blocks.thy ===== *)
theory Decided_Blocks
  imports Runtime_Safety Raft_Safety "HOL-Library.Sublist"
begin

text \<open>
  The consensus engine inside the running peer. Whatever the event loop does, the engine of a peer
  moves as the engine alone moves on some sequence of its own events, so that the theorems on the
  engines hold for the peer; and with Raft the peer writes only blocks the engine has committed, in the
  order in which it committed them.
\<close>

section \<open>Moves of the keeper\<close>

text \<open>The keeper's operations, with the hashes of the blocks committed on the way.\<close>

inductive keeper_moves :: "('a) raft_ext_scheme \<Rightarrow> BlockKeeper \<Rightarrow> BlockHash list \<Rightarrow> BlockKeeper \<Rightarrow> bool" for X k where
  none: "keeper_moves X k [] k"
| add: "keeper_moves X k ws k1 \<Longrightarrow> keeper_moves X k ws (fst (add_transaction X tx k1))"
| stage: "keeper_moves X k ws k1 \<Longrightarrow> keeper_moves X k ws (fst (add_external_block X b k1))"
| rollback: "keeper_moves X k ws k1 \<Longrightarrow> keeper_moves X k ws (fst (rollback_block X h k1))"
| commit: "keeper_moves X k ws k1 \<Longrightarrow> commit_block X h k1 = (k2, Ok ()) \<Longrightarrow> keeper_moves X k (ws @ [h]) k2"

lemma keeper_moves_wf: "\<lbrakk>keeper_moves X k ws k'; keeper_wf X k\<rbrakk> \<Longrightarrow> keeper_wf X k'"
proof (induction rule: keeper_moves.induct)
  case (commit ws k1 h k2)
  then show ?case
    using commit_block_wf [of X k1 h] by simp
qed (simp_all add: add_transaction_wf add_external_block_wf rollback_block_wf)

lemma keeper_moves_grows: "keeper_moves X k ws k' \<Longrightarrow> grows (length ws) k k'"
proof (induction rule: keeper_moves.induct)
  case none
  show ?case
    by (simp add: grows_0)
next
  case (add ws k1 tx)
  then show ?case
    using grows_trans [OF _ grows_0 [OF add_transaction_store]] by fastforce
next
  case (stage ws k1 b)
  then show ?case
    using grows_trans [OF _ grows_0 [OF add_external_block_store]] by fastforce
next
  case (rollback ws k1 h)
  then show ?case
    using grows_trans [OF _ grows_0 [OF rollback_block_store]] by fastforce
next
  case (commit ws k1 h k2)
  then show ?case
    using grows_trans [OF _ commit_block_grows_1] by fastforce
qed

text \<open>The block file a keeper that started at height \<open>h\<close> writes for its \<open>i\<close>-th commit, counted from zero.\<close>

definition holds_block :: "('a) raft_ext_scheme \<Rightarrow> BlockKeeper \<Rightarrow> u32 \<Rightarrow> nat \<Rightarrow> BlockHash \<Rightarrow> bool" where
  "holds_block X k h i hash \<longleftrightarrow> (\<exists>b. bf_hash b = hash \<and>
    map_of (files (path_to_blocks k)) (block_filename_for_index (h + word_of_nat (Suc i))) = Some (block_to_vec X b))"

lemma commit_holds_block:
  assumes "commit_block X h k = (k', Ok ())" "keeper_wf X k" "height k = n + word_of_nat i"
  shows "holds_block X k' n i h"
proof -
  obtain b where b: "map_of (uncommited_blocks k) h = Some b" "path_to_blocks k' =
      (path_to_blocks k)\<lparr>files := AList.update (block_filename_for_index (height k + 1)) (block_to_vec X b) (files (path_to_blocks k))\<rparr>"
    using assms(1) by (rule commit_block_Ok)
  have "bf_hash b = h"
    using assms(2) b(1) by (auto simp: keeper_wf_def blocks_wf_def keyed_by_def)
  then show ?thesis
    unfolding holds_block_def using b(2) assms(3) by (intro exI [of _ b]) (simp add: update_conv' ac_simps)
qed

lemma keeper_moves_blocks:
  assumes "keeper_moves X k ws k'" "keeper_wf X k" "unat (height k) + length ws < 2 ^ 32" "i < length ws"
  shows "holds_block X k' (height k) i (ws ! i)"
  using assms
proof (induction arbitrary: i rule: keeper_moves.induct)
  case (commit ws k1 h k2)
  have at: "height k1 = height k + word_of_nat (length ws)"
    using keeper_moves_grows [OF commit.hyps(1)] by (simp add: grows_def)
  have wf: "keeper_wf X k1"
    using keeper_moves_wf [OF commit.hyps(1) commit.prems(1)] .
  show ?case
  proof (cases "i = length ws")
    case True
    then show ?thesis
      using commit_holds_block [OF commit.hyps(2) wf at] by simp
  next
    case False
    then have i: "i < length ws"
      using commit.prems(3) by simp
    have "height k + word_of_nat (Suc i) \<noteq> height k1 + 1"
      using commit.prems(2) i word_of_nat_eq_u32 [of "Suc i" "Suc (length ws)"] unfolding at by (simp add: add.commute)
    then have "block_filename_for_index (height k + word_of_nat (Suc i)) \<notin> new_names (height k1) 1"
      by (auto simp: new_names_def filename_inj)
    then have "map_of (files (path_to_blocks k2)) (block_filename_for_index (height k + word_of_nat (Suc i))) =
        map_of (files (path_to_blocks k1)) (block_filename_for_index (height k + word_of_nat (Suc i)))"
      using commit_block_grows_1 [OF commit.hyps(2)] by (simp add: grows_def)
    then show ?thesis
      using commit.IH [OF commit.prems(1) _ i] commit.prems(2) i by (simp add: holds_block_def nth_append)
  qed
qed (simp_all add: holds_block_def add_transaction_store add_external_block_store rollback_block_store)

section \<open>The Raft engine proposes nothing\<close>

definition unproposed :: "ConsensusEffect list \<Rightarrow> bool" where
  "unproposed effs \<longleftrightarrow> (\<forall>h. ProposeBlock h \<notin> set effs)"

lemma unproposed_simps [simp]:
  "unproposed []" "unproposed (e # effs) \<longleftrightarrow> (\<forall>h. e \<noteq> ProposeBlock h) \<and> unproposed effs"
  "unproposed (effs @ effs') \<longleftrightarrow> unproposed effs \<and> unproposed effs'"
  by (auto simp: unproposed_def)

lemma unproposed_parts [simp]:
  "unproposed (append_entries_effects_for_followers r)" "unproposed (commit_effects n r)" "unproposed (map RollbackBlock hs)"
  "append_entries_effect_for r p = Some e \<Longrightarrow> e \<noteq> ProposeBlock h"
  by (auto simp: unproposed_def append_entries_effects_for_followers_def append_entries_effect_for_def commit_effects_def
      List.map_filter_def Let_def split: option.splits)

lemma append_entries_unproposed: "append_entries pi pt es lc r = (r', Some effs) \<Longrightarrow> unproposed effs"
  by (auto simp: append_entries_def Let_def split: if_splits prod.splits option.splits)

lemma own_entry_unproposed: "append_own_entry X e r = (r', Ok effs) \<Longrightarrow> unproposed effs"
  by (auto simp: append_own_entry_def advance_commit_index_def Let_def split: prod.splits sum.splits)

lemma append_entries_handler_unproposed:
  assumes "raft_on_append_entries X draw t leader pi pt es lc src now r = (r', Ok effs)"
  shows "unproposed effs"
proof -
  obtain r1 b where rc: "receive_append_entries_at draw t leader src now r = (r1, b)"
    by fastforce
  have response: "unproposed [append_entries_response r to s m]" for r to s m
    by (simp add: append_entries_response_def)
  show ?thesis
  proof (cases "validate_replicated_entries X es Map.empty []")
    case (Inl e)
    then show ?thesis
      using assms rc response by (cases b) (auto simp: raft_on_append_entries_def handle_append_entries_def)
  next
    case (Inr p)
    then obtain les bl where v: "validate_replicated_entries X es Map.empty [] = Ok (les, bl)"
      by (cases p) auto
    obtain r2 oe where ae: "append_entries pi pt les lc r1 = (r2, oe)"
      by fastforce
    show ?thesis
    proof (cases oe)
      case None
      then show ?thesis
        using assms rc v ae response by (cases b) (auto simp: raft_on_append_entries_def handle_append_entries_def Let_def)
    next
      case (Some effs0)
      obtain r4 pr where pers: "persist_log X (move_staged_blocks effs0 bl r2) = (r4, pr)"
        by fastforce
      have "effs = effs0 @ [e] \<Longrightarrow> (\<forall>h. e \<noteq> ProposeBlock h) \<Longrightarrow> unproposed effs" for e
        using append_entries_unproposed [OF ae [unfolded Some]] by simp
      then show ?thesis
        using assms rc v ae Some pers response
        by (cases b; cases pr)
          (auto simp: raft_on_append_entries_def handle_append_entries_def append_entries_response_def Let_def split: if_splits)
    qed
  qed
qed

lemma raft_step_unproposed:
  assumes "raft_step X ev r = (r', Ok effs)"
  shows "unproposed effs"
proof (cases ev)
  case (AppendEntries draw t leader pi pt es lc src now)
  then show ?thesis
    using assms append_entries_handler_unproposed by simp
next
  case (Tick now known)
  then show ?thesis
    using assms own_entry_unproposed
    by (fastforce simp: raft_on_tick_def append_leader_noop_def Let_def split: if_splits prod.splits sum.splits)
next
  case (VoteReply t voter granted)
  then show ?thesis
    using assms own_entry_unproposed
    by (fastforce simp: raft_on_request_vote_response_def append_leader_noop_def split: if_splits prod.splits bool.splits)
next
  case (BlockCreated h)
  then show ?thesis
    using assms own_entry_unproposed
    by (fastforce simp: raft_on_block_created_def append_local_block_def split: RaftRole.splits sum.splits)
next
  case (AppendReply t src success mi)
  then show ?thesis
    using assms
    by (auto simp: raft_on_append_entries_response_def handle_leader_append_entries_response_def advance_commit_index_def Let_def
        split: if_splits prod.splits sum.splits option.splits)
qed (use assms in \<open>auto simp: raft_on_request_vote_def raft_on_client_transaction_def forward_client_transaction_def
    split: prod.splits RaftRole.splits sum.splits option.splits\<close>)

section \<open>The engine's own runs\<close>

text \<open>Each call of a Raft engine is an event of it, or leaves it alone and asks for nothing.\<close>

lemma engine_call_raft:
  assumes "engine_call X f"
  shows "(\<exists>ev. fst (f (RaftEngine r)) = RaftEngine (fst (raft_step X ev r)) \<and>
      answered (snd (f (RaftEngine r))) = (case snd (raft_step X ev r) of Ok effs \<Rightarrow> effs | Err _ \<Rightarrow> [])) \<or>
    fst (f (RaftEngine r)) = RaftEngine r \<and> answered (snd (f (RaftEngine r))) = []"
  using assms
proof cases
  case (client tx)
  then show ?thesis
    by (intro disjI1 exI [of _ "ClientTx tx"]) (simp add: raft_call_def map_err_def split: sum.split)
next
  case (created h)
  then show ?thesis
    by (intro disjI1 exI [of _ "BlockCreated h"]) (simp add: raft_call_def map_err_def split: sum.split)
next
  case (ticked now known)
  then show ?thesis
    by (intro disjI1 exI [of _ "Tick now known"]) (simp add: raft_call_def map_err_def split: sum.split)
next
  case (taken h)
  then show ?thesis
    by (intro disjI1 exI [of _ "TakePending h"]) (simp split: prod.split)
next
  case (received draw src body now)
  have call: ?thesis if "f (RaftEngine r) = raft_call (raft_step X ev r)" for ev
    by (intro disjI1 exI [of _ ev]) (simp add: that raft_call_def map_err_def split: sum.split)
  show ?thesis
  proof (cases body)
    case (RaftRequestVote t cand li lt)
    then show ?thesis by (intro call [of "RequestVote t cand li lt src"]) (simp add: received)
  next
    case (RaftRequestVoteResponse t granted)
    then show ?thesis by (intro call [of "VoteReply t src granted"]) (simp add: received)
  next
    case (RaftAppendEntries t leader pi pt es lc)
    then show ?thesis by (intro call [of "AppendEntries draw t leader pi pt es lc src now"]) (simp add: received)
  next
    case (RaftAppendEntriesResponse t success mi)
    then show ?thesis by (intro call [of "AppendReply t src success mi"]) (simp add: received)
  qed (simp_all add: received)
qed simp_all

section \<open>Raft guides the keeper\<close>

text \<open>
  The engine has run on some events of its own, what the keeper has committed and what the pending
  effects will commit is, in this order, part of what that run committed, and no effect proposes a block.
\<close>

definition raft_guides ::
    "('a) raft_ext_scheme \<Rightarrow> RaftConsensus \<Rightarrow> BlockKeeper \<Rightarrow> ConsensusEngine \<Rightarrow> BlockKeeper \<Rightarrow> ConsensusEffect list \<Rightarrow> bool" where
  "raft_guides X r k c k' q \<longleftrightarrow> (\<exists>evs ws. c = RaftEngine (fst (raft_run X evs r)) \<and> keeper_moves X k ws k' \<and>
    subseq (ws @ commits_of q) (fst (snd (raft_run X evs r))) \<and> unproposed q)"

lemma commits_of_Cons: "commits_of (e # q) = committed_by e @ commits_of q"
  by (simp add: commits_of_def)

lemma commits_of_append: "commits_of (q @ q') = commits_of q @ commits_of q'"
  by (simp add: commits_of_def)

lemma raft_guides_call:
  assumes "engine_call X f" "raft_guides X r k c k' q"
  shows "raft_guides X r k (fst (f c)) k' (q @ answered (snd (f c)))"
proof -
  obtain evs ws where c: "c = RaftEngine (fst (raft_run X evs r))" and k: "keeper_moves X k ws k'"
    and q: "subseq (ws @ commits_of q) (fst (snd (raft_run X evs r)))" "unproposed q"
    using assms(2) by (auto simp: raft_guides_def)
  from engine_call_raft [OF assms(1), of "fst (raft_run X evs r)"] show ?thesis
  proof (elim disjE exE conjE, goal_cases)
    case (1 ev)
    let ?effs = "case snd (raft_step X ev (fst (raft_run X evs r))) of Ok effs \<Rightarrow> effs | Err _ \<Rightarrow> []"
    have run: "fst (raft_run X (evs @ [ev]) r) = fst (raft_step X ev (fst (raft_run X evs r)))"
      "fst (snd (raft_run X (evs @ [ev]) r)) = fst (snd (raft_run X evs r)) @ commits_of ?effs"
      by (simp_all add: raft_run_snoc split: prod.split sum.split)
    have "unproposed ?effs"
      using raft_step_unproposed [of X ev "fst (raft_run X evs r)" "fst (raft_step X ev (fst (raft_run X evs r)))"]
      by (metis (no_types, lifting) old.sum.simps(5,6) old.sum.exhaust prod.collapse unproposed_simps(1))
    moreover have "subseq (ws @ commits_of (q @ ?effs)) (fst (snd (raft_run X (evs @ [ev]) r)))"
      using list_emb_append_mono [OF q(1) subseq_order.refl [of "commits_of ?effs"]] by (simp add: run commits_of_append)
    ultimately show ?case
      unfolding raft_guides_def c 1
      by (intro exI [of _ "evs @ [ev]"] exI [of _ ws]) (use k q(2) in \<open>simp add: run\<close>)
  next
    case 2
    then show ?case
      using assms(2) c by simp
  qed
qed

lemma raft_guides_drop: "raft_guides X r k c k' (e # q) \<Longrightarrow> raft_guides X r k c k' q"
proof -
  have "subseq (ws @ commits_of q) hs" if "subseq (ws @ commits_of (e # q)) hs" for ws hs
    using subseq_order.trans [OF _ that] by (simp add: commits_of_Cons list_emb_append2 list_emb_append_mono)
  then show "raft_guides X r k c k' (e # q) \<Longrightarrow> raft_guides X r k c k' q"
    by (auto simp: raft_guides_def)
qed

lemma raft_guides_commit:
  assumes "raft_guides X r k c k' (CommitBlock h # q)"
  shows "raft_guides X r k c (fst (commit_block X h k')) q"
proof (cases "snd (commit_block X h k')")
  case (Inl e)
  then show ?thesis
    using raft_guides_drop [OF assms] commit_block_fails by metis
next
  case (Inr u)
  then have "commit_block X h k' = (fst (commit_block X h k'), Ok ())"
    by (metis old.unit.exhaust prod.collapse)
  then have "keeper_moves X k ws k' \<Longrightarrow> keeper_moves X k (ws @ [h]) (fst (commit_block X h k'))" for ws
    by (rule keeper_moves.commit [rotated])
  then show ?thesis
    using assms by (fastforce simp: raft_guides_def commits_of_Cons)
qed

interpretation raft_guide: guided_peer X "raft_guides X r k" for X r k
proof
  fix c k' q
  show "raft_guides X r k (fst (f c)) k' (q @ answered (snd (f c)))" if "engine_call X f" "raft_guides X r k c k' q" for f
    using that by (rule raft_guides_call)
  show "raft_guides X r k c k' q" if "raft_guides X r k c k' (e # q)" for e
    using that by (rule raft_guides_drop)
  show "raft_guides X r k c (fst (add_transaction X tx k')) q" if "raft_guides X r k c k' q" for tx
    using that by (auto simp: raft_guides_def intro: keeper_moves.add)
  show "raft_guides X r k c (fst (add_external_block X b k')) q" if "raft_guides X r k c k' q" for b
    using that by (auto simp: raft_guides_def intro: keeper_moves.stage)
  show "raft_guides X r k c (fst (rollback_block X h k')) q" if "raft_guides X r k c k' q" for h
    using that by (auto simp: raft_guides_def intro: keeper_moves.rollback)
  show "raft_guides X r k c (fst (commit_block X h k')) q" if "raft_guides X r k c k' (CommitBlock h # q)" for h
    using that by (rule raft_guides_commit)
  show "raft_guides X r k c (fst (commit_block X h k')) q" if "raft_guides X r k c k' (ProposeBlock h # q)" for h
    using that by (simp add: raft_guides_def)
qed

section \<open>Voting peers\<close>

lemma engine_call_voting:
  assumes "engine_call X f"
  shows "(\<exists>ev. fst (f (VotingEngine p vs)) = VotingEngine p (fst (vote_step p ev vs))) \<or> fst (f (VotingEngine p vs)) = VotingEngine p vs"
  using assms
proof cases
  case (proposed h known)
  then show ?thesis
    by (intro disjI1 exI [of _ "LocalProposal h known"]) (simp add: voting_call_def)
next
  case (validated h proposer valid known)
  then show ?thesis
    by (intro disjI1 exI [of _ "ProposalValidated h proposer valid known"]) (simp add: voting_call_def)
next
  case (voted h src approve known)
  then show ?thesis
    by (intro disjI1 exI [of _ "VoteReceived h src approve known"]) (simp add: voting_call_def)
next
  case (received draw src body now)
  then show ?thesis
    by (cases body) simp_all
qed simp_all

definition votes_along :: "PeerId \<Rightarrow> votings \<Rightarrow> ConsensusEngine \<Rightarrow> bool" where
  "votes_along p vs c \<longleftrightarrow> (\<exists>es. c = VotingEngine p (fst (vote_run p es vs)))"

lemma votes_along_call:
  assumes "engine_call X f" "votes_along p vs c"
  shows "votes_along p vs (fst (f c))"
proof -
  obtain es where c: "c = VotingEngine p (fst (vote_run p es vs))"
    using assms(2) by (auto simp: votes_along_def)
  have "fst (vote_step p ev (fst (vote_run p es vs))) = fst (vote_run p (es @ [ev]) vs)" for ev
    by (simp add: fst_vote_run_append split: prod.split)
  then show ?thesis
    using engine_call_voting [OF assms(1), of p "fst (vote_run p es vs)"] assms(2) c by (auto simp: votes_along_def)
qed

interpretation voting_guide: synced_peer X "\<lambda>c k q. votes_along p vs c" for X p vs
  by unfold_locales (auto intro: votes_along_call)

section \<open>Properties\<close>

text \<open>
  C7. A running Raft peer is the Raft engine with a disk. Along every run of the event loop the engine
  moves as it does alone on some sequence of its events, so what is proved of the engine's runs holds
  for the peer; and the run has written one block file per height after the old one, for a
  subsequence of the blocks the engine committed, in the order of the commits (a commit that fails,
  because the block is not staged or cannot be written, is skipped). No message, tick, failure or
  order of effects brings to disk a block that Raft did not commit, or two blocks in the wrong order.
\<close>

theorem raft_decides_blocks:
  assumes "runs X rt rt'" "rt_mode rt = RaftMode" "consensus (rt_peer rt) = RaftEngine r" "keeper_wf X (keeper_of rt)"
  shows "\<exists>evs ws. consensus (rt_peer rt') = RaftEngine (fst (raft_run X evs r)) \<and>
    subseq ws (fst (snd (raft_run X evs r))) \<and> grows (length ws) (keeper_of rt) (keeper_of rt') \<and>
    (unat (height (keeper_of rt)) + length ws < 2 ^ 32 \<longrightarrow>
      (\<forall>i < length ws. holds_block X (keeper_of rt') (height (keeper_of rt)) i (ws ! i)))"
proof -
  have "raft_guides X r (keeper_of rt) (consensus (rt_peer rt)) (keeper_of rt) []"
    unfolding raft_guides_def assms(3) by (intro exI [of _ "[]"]) (simp add: commits_of_def keeper_moves.none)
  then have "raft_guides X r (keeper_of rt) (consensus (rt_peer rt')) (keeper_of rt') []"
    using raft_guide.GP_raft_runs [OF assms(1,2)] by blast
  then obtain evs ws where "consensus (rt_peer rt') = RaftEngine (fst (raft_run X evs r))"
    "keeper_moves X (keeper_of rt) ws (keeper_of rt')" "subseq ws (fst (snd (raft_run X evs r)))"
    by (auto simp: raft_guides_def commits_of_def)
  then show ?thesis
    using keeper_moves_grows keeper_moves_blocks [OF _ assms(4)] by blast
qed

definition test_leader :: RaftConsensus where
  "test_leader = (new_with_log 0 0 (PeerId 1) [] 0 (InMemory InMemory_new))\<lparr>current_term := 1, role := Leader\<rparr>"

definition test_raft_runtime :: runtime where
  "test_raft_runtime =
    \<lparr>rt_peer = Peer_new test_peer_ext (PeerId 1) ((test_network [])\<lparr>peer_channel :=
       [\<lparr>msg_from = PeerId 0, msg_to = PeerId 1, msg_body = ClientTransaction (test_coin 1)\<rparr>]\<rparr>) (RaftEngine test_leader) (test_keeper 1) [7],
     rt_mode = RaftMode\<rparr>"

lemma test_leader_commits:
  "h \<noteq> EMPTY_HASH \<Longrightarrow> \<exists>r. raft_on_block_created test_peer_ext h test_leader = (r, Ok [CommitBlock h])"
  by (simp add: test_leader_def new_with_log_def raft_on_block_created_def append_local_block_def ensure_no_uncommitted_block_def
      append_own_entry_def last_log_index_def append_entries_effects_for_followers_def advance_commit_index_def majority_def
      replicated_count_def commit_effects_def is_noop_def List.map_filter_def persist_log_def InMemory_save_def InMemory_new_def Let_def)

theorem raft_decides_blocks_witness:
  "\<exists>rt' evs ws. runs test_peer_ext test_raft_runtime rt' \<and> height (keeper_of rt') = 1 \<and>
    consensus (rt_peer rt') = RaftEngine (fst (raft_run test_peer_ext evs test_leader)) \<and>
    ws \<noteq> [] \<and> subseq ws (fst (snd (raft_run test_peer_ext evs test_leader)))"
proof -
  obtain tp where tp: "process_transaction test_peer_ext (test_coin 1) TransactionProcessor_default = (tp, Ok ())"
    by (simp add: process_transaction_def test_tx_def TransactionProcessor_default_def add_coin_def Let_def)
  have "last (as_bytes (BlockHash (test_sha256 (as_bytes EMPTY_HASH @ [65, 1])))) \<noteq> last (as_bytes EMPTY_HASH)"
    by code_simp
  then have "BlockHash (test_sha256 (as_bytes EMPTY_HASH @ [65, 1])) \<noteq> EMPTY_HASH"
    by metis
  then obtain k h where k: "add_transaction test_peer_ext (test_coin 1) (test_keeper 1) = (k, NewBlockCreated h)" and h: "h \<noteq> EMPTY_HASH"
    by (simp add: add_transaction_def create_new_block_def calculate_hash_def Let_def)
  obtain k' where k': "commit_block test_peer_ext h k = (k', Ok ())" "height k' = 1"
    using k by (auto simp: add_transaction_def create_new_block_def Let_def commit_block_def fs_write_def test_disk_def)
  obtain r where r: "raft_on_block_created test_peer_ext h test_leader = (r, Ok [CommitBlock h])"
    using test_leader_commits [OF h] by blast
  have ver: "SignedTransaction_verify test_peer_ext (test_coin 1) = Ok ()"
    by (simp add: SignedTransaction_verify_def test_tx_def to_sign_bytes_def)
  have cl: "raft_on_client_transaction (test_coin 1) test_leader = (test_leader, Ok [StageClientTransaction (test_coin 1)])"
    by (simp add: raft_on_client_transaction_def test_leader_def new_with_log_def ensure_no_uncommitted_block_def)
  obtain rt' where rt': "runtime_step test_peer_ext (Receive 0 0) test_raft_runtime = Continues rt'" "keeper_of rt' = k'"
    by (simp add: test_raft_runtime_def Peer_new_def PeerEffects_new_def on_network_def handle_message_def process_client_transaction_def
        ver cl raft_call_def consensus_then_effects_def execute_consensus_effects_def execute_all_def stage_client_transaction_def
        tp k [unfolded One_nat_def] r plain_def execute_commit_def k' test_network_def RestNetwork_new_def Let_def)
  have run: "runs test_peer_ext test_raft_runtime rt'"
    by (rule runs.go [OF runs.stay rt'(1)])
  have start: "rt_mode test_raft_runtime = RaftMode" "consensus (rt_peer test_raft_runtime) = RaftEngine test_leader"
    "keeper_of test_raft_runtime = test_keeper 1"
    by (simp_all add: test_raft_runtime_def Peer_new_def PeerEffects_new_def)
  obtain evs ws where evs: "consensus (rt_peer rt') = RaftEngine (fst (raft_run test_peer_ext evs test_leader))"
      "subseq ws (fst (snd (raft_run test_peer_ext evs test_leader)))" "grows (length ws) (test_keeper 1) k'"
    using raft_decides_blocks [OF run start(1,2)] start(3) rt'(2) by auto
  then have "ws \<noteq> []"
    using k'(2) by (auto simp: grows_def)
  then show ?thesis
    using evs(1,2) run rt'(2) k'(2) by blast
qed


text \<open>
  C22. The vote counts of a running peer are well-formed: in every state that a peer started with voting
  can reach, the engine is a voting engine in whose counts votes come from participants only, nobody
  is counted on both sides or twice, an approved block has at least \<open>2 f + 1\<close> approvals, a rejected
  one fewer than that and at least \<open>f\<close> rejections, and an undecided one has reached neither threshold.
\<close>

theorem voting_peer_counts_wf:
  assumes "start_peer X draw now fresh cfg d = (kd, Ok rt)" "consensus_mode cfg = VotingMode" "runs X rt rt'"
  shows "\<exists>vs. consensus (rt_peer rt') = VotingEngine (cfg_peer_id cfg) vs \<and> votings_wf vs"
proof -
  have "consensus (rt_peer rt) = VotingEngine (cfg_peer_id cfg) Map.empty"
    using assms(1,2) by (auto simp: start_peer_def Let_def Peer_new_def new_voting_def split: option.splits prod.splits sum.splits)
  then have "votes_along (cfg_peer_id cfg) Map.empty (consensus (rt_peer rt))"
    unfolding votes_along_def by (intro exI [of _ "[]"]) simp
  then have "votes_along (cfg_peer_id cfg) Map.empty (consensus (rt_peer rt'))"
    by (rule voting_guide.GP_runs [OF assms(3)])
  then show ?thesis
    using vote_run_wf [of Map.empty] by (auto simp: votes_along_def votings_wf_def)
qed

theorem voting_peer_counts_wf_witness:
  "\<exists>kd rt vs. start_peer test_peer_ext 0 0 (replicate 32 7) test_config test_peer_dir = (kd, Ok rt) \<and>
    consensus (rt_peer rt) = VotingEngine (PeerId 1) vs \<and> votings_wf vs"
proof -
  obtain kd rt where rt: "start_peer test_peer_ext 0 0 (replicate 32 7) test_config test_peer_dir = (kd, Ok rt)"
    by (simp add: start_peer_def test_peer_dir_def test_config_def BlockKeeper_new_def dir_list_all_blocks_def test_disk_def
        get_or_create_key_def Let_def)
  have "consensus_mode test_config = VotingMode" "cfg_peer_id test_config = PeerId 1"
    by (simp_all add: test_config_def)
  then show ?thesis
    using voting_peer_counts_wf [OF rt _ runs.stay] rt by simp
qed

end
