(* ===== verification/Network_Run.thy ===== *)
theory Network_Run
  imports Rest_Network
begin

text \<open>
  The background task of \<^verbatim>\<open>src/src/network/rest_network.rs\<close> (\<^verbatim>\<open>RestNetwork::run\<close>) and the
  readiness signal the peer waits for before it starts. The task never returns while checks succeed,
  so it is a fold over the ticks of its interval; each tick carries what the discovery service answers
  to the registration and to the request for the peers. \<^verbatim>\<open>Notify::notify_waiters\<close> wakes the tasks
  that wait at that moment and leaves no permit behind.
\<close>

section \<open>Definitions\<close>

definition NETWORK_CHECK_TRIES :: nat where
  "NETWORK_CHECK_TRIES = 5"

record network_task =
  failed_checks :: nat
  notify_waiters :: bool
  waiting :: bool
  readiness_seen :: bool

datatype run_event =
    CheckTick "unit option" "(PeerId \<times> SocketAddr) list option"
  | WaitForReadiness

definition network_task_new :: network_task where
  "network_task_new = \<lparr>failed_checks = 0, notify_waiters = True, waiting = False, readiness_seen = False\<rparr>"

text \<open>Registration, then the update of the peers; \<open>None\<close> is an error of the discovery client.\<close>

definition register_and_update ::
    "unit option \<Rightarrow> (PeerId \<times> SocketAddr) list option \<Rightarrow> (RestNetwork, unit, unit) step" where
  "register_and_update reg peers net =
    (case reg of
       None \<Rightarrow> (net, Err ())
     | Some _ \<Rightarrow> update_peers (case peers of Some ps \<Rightarrow> Ok ps | None \<Rightarrow> Err ()) net)"

definition notify :: "network_task \<Rightarrow> network_task" where
  "notify t = (if waiting t then t\<lparr>waiting := False, readiness_seen := True\<rparr> else t)"

definition wait_for_readiness :: "network_task \<Rightarrow> network_task" where
  "wait_for_readiness t = t\<lparr>waiting := True\<rparr>"

definition check_pass ::
    "unit option \<Rightarrow> (PeerId \<times> SocketAddr) list option \<Rightarrow> network_task \<Rightarrow> RestNetwork \<Rightarrow> RestNetwork \<times> network_task" where
  "check_pass reg peers t net =
    (case register_and_update reg peers net of
       (net1, Ok _) \<Rightarrow>
         (net1, (if notify_waiters t then (notify t)\<lparr>notify_waiters := False\<rparr> else t)\<lparr>failed_checks := 0\<rparr>)
     | (net1, Err _) \<Rightarrow> (net1, t\<lparr>failed_checks := Suc (failed_checks t)\<rparr>))"

text \<open>The last component is whether the task has returned its error.\<close>

fun run_network :: "run_event list \<Rightarrow> network_task \<Rightarrow> RestNetwork \<Rightarrow> RestNetwork \<times> network_task \<times> bool" where
  "run_network [] t net = (net, t, False)"
| "run_network (CheckTick reg peers # es) t net =
    (if NETWORK_CHECK_TRIES \<le> failed_checks t then (net, t, True)
     else (case check_pass reg peers t net of (net1, t1) \<Rightarrow> run_network es t1 net1))"
| "run_network (WaitForReadiness # es) t net = run_network es (wait_for_readiness t) net"

section \<open>Vocabulary\<close>

fun check_fails :: "run_event \<Rightarrow> bool" where
  "check_fails (CheckTick reg peers) = (reg = None \<or> peers = None)"
| "check_fails WaitForReadiness = False"

fun is_check :: "run_event \<Rightarrow> bool" where
  "is_check (CheckTick _ _) = True"
| "is_check WaitForReadiness = False"

abbreviation checks :: "run_event list \<Rightarrow> run_event list" where
  "checks es \<equiv> filter is_check es"

abbreviation stopped :: "run_event list \<Rightarrow> network_task \<Rightarrow> RestNetwork \<Rightarrow> bool" where
  "stopped es t net \<equiv> snd (snd (run_network es t net))"

abbreviation readied :: "run_event list \<Rightarrow> network_task \<Rightarrow> RestNetwork \<Rightarrow> bool" where
  "readied es t net \<equiv> readiness_seen (fst (snd (run_network es t net)))"

section \<open>Passes\<close>

lemma check_pass_fails:
  "check_fails (CheckTick reg peers) \<Longrightarrow> check_pass reg peers t net = (net, t\<lparr>failed_checks := Suc (failed_checks t)\<rparr>)"
  by (auto simp: check_pass_def register_and_update_def update_peers_def split: option.split)

lemma check_pass_succeeds:
  "\<not> check_fails (CheckTick reg peers) \<Longrightarrow>
    failed_checks (snd (check_pass reg peers t net)) = 0 \<and>
    notify_waiters (snd (check_pass reg peers t net)) = False \<and>
    readiness_seen (snd (check_pass reg peers t net)) = (readiness_seen t \<or> notify_waiters t \<and> waiting t)"
  by (auto simp: check_pass_def register_and_update_def update_peers_def notify_def)

text \<open>The passes still allowed: \<open>n\<close> more failures stop the task at the tick after them.\<close>

fun exhausts :: "nat \<Rightarrow> run_event list \<Rightarrow> bool" where
  "exhausts n [] = False"
| "exhausts 0 (e # es) = True"
| "exhausts (Suc n) (e # es) = exhausts (if check_fails e then n else 5) es"

lemma stopped_iff_exhausts:
  "failed_checks t \<le> 5 \<Longrightarrow> stopped es t net = exhausts (5 - failed_checks t) (checks es)"
proof (induction es t net rule: run_network.induct)
  case (2 reg peers es t net)
  obtain net1 t1 where c: "check_pass reg peers t net = (net1, t1)"
    by fastforce
  show ?case
  proof (cases "failed_checks t = 5")
    case True
    then show ?thesis
      by (simp add: NETWORK_CHECK_TRIES_def)
  next
    case False
    then have n: "5 - failed_checks t = Suc (4 - failed_checks t)" "failed_checks t < 5"
      using 2(2) by simp_all
    have "failed_checks t1 = (if check_fails (CheckTick reg peers) then Suc (failed_checks t) else 0)"
      using check_pass_fails [of reg peers t net, unfolded c] check_pass_succeeds [of reg peers t net, unfolded c]
      by (cases "check_fails (CheckTick reg peers)") simp_all
    then show ?thesis
      using n 2(1) [OF _ c [symmetric]] by (auto simp: NETWORK_CHECK_TRIES_def c)
  qed
qed (auto simp: wait_for_readiness_def)

definition fails_then_tick :: "nat \<Rightarrow> run_event list \<Rightarrow> bool" where
  "fails_then_tick n es \<longleftrightarrow> n < length es \<and> (\<forall>e \<in> set (take n es). check_fails e)"

lemma fails_then_tick_simps [simp]:
  "\<not> fails_then_tick n []"
  "fails_then_tick 0 (e # es)"
  "fails_then_tick (Suc n) (e # es) \<longleftrightarrow> check_fails e \<and> fails_then_tick n es"
  by (auto simp: fails_then_tick_def)

lemma exhausts_iff:
  "n \<le> 5 \<Longrightarrow> exhausts n es \<longleftrightarrow> fails_then_tick n es \<or> (\<exists>k. fails_then_tick 5 (drop k es))"
proof (induction n es rule: exhausts.induct)
  case (3 n e es)
  have shift: "(\<exists>k. fails_then_tick 5 (drop k (e # es))) \<longleftrightarrow>
      fails_then_tick 5 (e # es) \<or> (\<exists>k. fails_then_tick 5 (drop k es))"
    by (metis drop0 drop_Suc_Cons not0_implies_Suc)
  have weaken: "fails_then_tick 5 (e # es) \<Longrightarrow> fails_then_tick (Suc n) (e # es)"
    using 3(2) by (auto simp: fails_then_tick_def dest: set_take_subset_set_take [THEN subsetD, rotated])
  have zero: "fails_then_tick 5 es \<Longrightarrow> \<exists>k. fails_then_tick 5 (drop k es)"
    by (metis drop0)
  show ?case
    using 3 shift weaken zero by (cases "check_fails e") auto
qed auto

lemma run_not_notifying: "\<not> notify_waiters t \<Longrightarrow> readied es t net = readiness_seen t"
proof (induction es t net rule: run_network.induct)
  case (2 reg peers es t net)
  obtain net1 t1 where c: "check_pass reg peers t net = (net1, t1)"
    by fastforce
  have "\<not> notify_waiters t1 \<and> readiness_seen t1 = readiness_seen t"
    using 2(2) check_pass_fails [of reg peers t net, unfolded c] check_pass_succeeds [of reg peers t net, unfolded c]
    by (cases "check_fails (CheckTick reg peers)") simp_all
  then show ?case
    using 2(1) [OF _ c [symmetric]] 2(2) by (simp add: c)
qed (auto simp: wait_for_readiness_def)

lemma run_missed:
  assumes "list_all is_check es" "\<exists>e \<in> set es. \<not> check_fails e" "\<not> waiting t" "\<not> readiness_seen t"
  shows "\<not> readied (es @ fs) t net"
  using assms
proof (induction es arbitrary: t net)
  case (Cons e es)
  then obtain reg peers where e: "e = CheckTick reg peers"
    by (cases e) auto
  obtain net1 t1 where c: "check_pass reg peers t net = (net1, t1)"
    by fastforce
  show ?case
  proof (cases "check_fails e")
    case True
    then have "t1 = t\<lparr>failed_checks := Suc (failed_checks t)\<rparr>"
      using check_pass_fails [of reg peers t net, unfolded c] e by simp
    then have "\<not> readied (es @ fs) t1 net1"
      by (intro Cons.IH) (use Cons.prems True in auto)
    then show ?thesis
      using Cons.prems(4) by (simp add: e c)
  next
    case False
    then have "\<not> notify_waiters t1 \<and> \<not> readiness_seen t1"
      using check_pass_succeeds [of reg peers t net, unfolded c] e Cons.prems by simp
    then show ?thesis
      using Cons.prems(4) run_not_notifying [of t1 "es @ fs" net1] by (simp add: e c)
  qed
qed simp

lemma run_failing_prefix:
  assumes "list_all check_fails es" "failed_checks t + length es \<le> 5"
  shows "run_network (es @ fs) t net = run_network fs (t\<lparr>failed_checks := failed_checks t + length es\<rparr>) net"
  using assms
proof (induction es arbitrary: t)
  case (Cons e es)
  then obtain reg peers where e: "e = CheckTick reg peers"
    by (cases e) auto
  then show ?case
    using Cons check_pass_fails [of reg peers t net] by (simp add: NETWORK_CHECK_TRIES_def)
qed simp

section \<open>Properties\<close>

text \<open>
  C31. The background task gives up exactly when five checks in a row have failed, at the tick
  after them: a successful check in between starts the count again, and waiting for readiness does
  not matter.
\<close>

theorem network_stops_after_five_failures:
  "stopped es network_task_new net \<longleftrightarrow>
    (\<exists>k. k + 5 < length (checks es) \<and> (\<forall>e \<in> set (take 5 (drop k (checks es))). check_fails e))"
proof -
  have "stopped es network_task_new net = exhausts 5 (checks es)"
    by (subst stopped_iff_exhausts) (simp_all add: network_task_new_def)
  also have "\<dots> \<longleftrightarrow> (\<exists>k. fails_then_tick 5 (drop k (checks es)))"
    unfolding exhausts_iff [OF order.refl] by (metis drop0)
  finally show ?thesis
    unfolding fails_then_tick_def length_drop by (metis add.commute less_diff_conv)
qed

theorem network_stops_after_five_failures_witness:
  "stopped (replicate 6 (CheckTick None None)) network_task_new (RestNetwork_new (PeerId 1) 3)"
proof -
  have "checks (replicate 6 (CheckTick None None)) = replicate 6 (CheckTick None None)"
    by (simp add: numeral_nat)
  then show ?thesis
    unfolding network_stops_after_five_failures by (intro exI [of _ 0]) (simp add: numeral_nat)
qed

text \<open>
  The readiness signal is sent once, by the first successful check, and wakes only a task that
  waits already. If some check succeeds before the peer starts to wait, the peer is never woken,
  whatever happens later; if all checks before have failed, fewer than five, the first successful
  one after wakes it.
\<close>

theorem readiness_signal_can_be_missed:
  assumes "list_all is_check before"
  shows "((\<exists>e \<in> set before. \<not> check_fails e) \<longrightarrow>
      \<not> readied (before @ WaitForReadiness # after) network_task_new net) \<and>
    (list_all check_fails before \<and> length before < 5 \<and> reg \<noteq> None \<and> peers \<noteq> None \<longrightarrow>
      readied (before @ WaitForReadiness # CheckTick reg peers # after) network_task_new net)"
proof (intro conjI impI)
  assume "\<exists>e \<in> set before. \<not> check_fails e"
  with assms show "\<not> readied (before @ WaitForReadiness # after) network_task_new net"
    by (rule run_missed) (simp_all add: network_task_new_def)
next
  assume h: "list_all check_fails before \<and> length before < 5 \<and> reg \<noteq> None \<and> peers \<noteq> None"
  define t where "t = network_task_new\<lparr>failed_checks := length before, waiting := True\<rparr>"
  obtain net1 t1 where c: "check_pass reg peers t net = (net1, t1)"
    by fastforce
  have "readiness_seen t1" "\<not> notify_waiters t1"
    using check_pass_succeeds [of reg peers t net] h c by (simp_all add: network_task_new_def t_def)
  moreover have "run_network (before @ WaitForReadiness # CheckTick reg peers # after) network_task_new net =
      run_network (CheckTick reg peers # after) t net"
    using h run_failing_prefix [of before network_task_new "WaitForReadiness # CheckTick reg peers # after" net]
    by (simp add: network_task_new_def wait_for_readiness_def t_def)
  ultimately show "readied (before @ WaitForReadiness # CheckTick reg peers # after) network_task_new net"
    using h c run_not_notifying [of t1 after net1]
    by (simp add: t_def network_task_new_def NETWORK_CHECK_TRIES_def)
qed

theorem readiness_signal_can_be_missed_witness:
  "\<not> readied ([CheckTick (Some ()) (Some [])] @ WaitForReadiness # [CheckTick (Some ()) (Some [])])
      network_task_new (RestNetwork_new (PeerId 1) 3) \<and>
   readied ([CheckTick None None] @ WaitForReadiness # CheckTick (Some ()) (Some []) # [])
      network_task_new (RestNetwork_new (PeerId 1) 3)"
  using readiness_signal_can_be_missed [of "[CheckTick (Some ()) (Some [])]"]
    readiness_signal_can_be_missed [of "[CheckTick None None]"]
  by simp

end
