(* ===== verification/Peer_Process.thy ===== *)
theory Peer_Process
  imports Runtime_Safety Network_Run
begin

text \<open>
  \<^verbatim>\<open>run_peer\<close> of \<^verbatim>\<open>src/src/peer_runtime.rs\<close> as a whole: the process starts the server and the discovery
  task, waits until the task signals that peers are known, and then runs the event loop. The three
  share the network of the peer, so a run of the process is an interleaving of their steps.
\<close>

section \<open>Definitions\<close>

record process =
  pr_runtime :: runtime
  pr_task :: network_task
  pr_task_running :: bool

definition start_process ::
    "('a) raft_ext_scheme \<Rightarrow> nat \<Rightarrow> instant \<Rightarrow> SigningKey \<Rightarrow> PeerConfig \<Rightarrow> peer_dir \<Rightarrow> key_dir \<times> (start_error + process)" where
  "start_process X draw now fresh cfg d =
    (case start_peer X draw now fresh cfg d of
       (kd, Err e) \<Rightarrow> (kd, Err e)
     | (kd, Ok rt) \<Rightarrow> (kd, Ok \<lparr>pr_runtime = rt, pr_task = network_task_new, pr_task_running = True\<rparr>))"

datatype process_event =
    DiscoveryCheck "unit option" "(PeerId \<times> SocketAddr) list option"
  | AwaitReadiness
  | LoopPass runtime_event
  | ServerPass runtime_event

fun loop_event :: "runtime_event \<Rightarrow> bool" where
  "loop_event (Receive _ _) = True"
| "loop_event (SyncTick _) = True"
| "loop_event (ConsensusTick _) = True"
| "loop_event _ = False"

fun server_event :: "runtime_event \<Rightarrow> bool" where
  "server_event (PeerPosted _) = True"
| "server_event (ClientPosted _) = True"
| "server_event _ = False"

definition runtime_pass :: "('a) raft_ext_scheme \<Rightarrow> runtime_event \<Rightarrow> process \<Rightarrow> process option" where
  "runtime_pass X e pr =
    (case runtime_step X e (pr_runtime pr) of Continues rt \<Rightarrow> Some (pr\<lparr>pr_runtime := rt\<rparr>) | _ \<Rightarrow> None)"

text \<open>A step of one of the tasks; \<open>None\<close> when the task cannot take it. The loop runs only after the signal.\<close>

fun process_step :: "('a) raft_ext_scheme \<Rightarrow> process_event \<Rightarrow> process \<Rightarrow> process option" where
  "process_step X (DiscoveryCheck reg peers) pr =
    (if \<not> pr_task_running pr then None
     else if NETWORK_CHECK_TRIES \<le> failed_checks (pr_task pr) then Some (pr\<lparr>pr_task_running := False\<rparr>)
     else Some (pr\<lparr>pr_runtime := on_network (\<lambda>net. fst (check_pass reg peers (pr_task pr) net)) (pr_runtime pr),
            pr_task := snd (check_pass reg peers (pr_task pr) (network (effects (rt_peer (pr_runtime pr)))))\<rparr>))"
| "process_step X AwaitReadiness pr =
    (if waiting (pr_task pr) \<or> readiness_seen (pr_task pr) then None
     else Some (pr\<lparr>pr_task := wait_for_readiness (pr_task pr)\<rparr>))"
| "process_step X (LoopPass e) pr =
    (if loop_event e \<and> readiness_seen (pr_task pr) then runtime_pass X e pr else None)"
| "process_step X (ServerPass e) pr = (if server_event e then runtime_pass X e pr else None)"

inductive process_runs :: "('a) raft_ext_scheme \<Rightarrow> process \<Rightarrow> process \<Rightarrow> bool" for X pr where
  stay: "process_runs X pr pr"
| go: "process_runs X pr pr1 \<Longrightarrow> process_step X e pr1 = Some pr2 \<Longrightarrow> process_runs X pr pr2"

section \<open>Steps of the process\<close>

lemma check_pass_network:
  "fst (check_pass reg peers t net) =
    (case (reg, peers) of (Some _, Some ps) \<Rightarrow> fst (update_peers (Ok ps :: unit + _) net) | _ \<Rightarrow> net)"
  by (auto simp: check_pass_def register_and_update_def update_peers_def split: option.split)

lemma on_network_same: "on_network (\<lambda>net. net) rt = rt"
  by (simp add: on_network_def Let_def)

text \<open>The process refines the event loop: each of its steps is one of the loop's or changes none of its state.\<close>

lemma process_step_runs:
  assumes "process_step X e pr = Some pr'"
  shows "runs X (pr_runtime pr) (pr_runtime pr')"
proof (cases e)
  case (DiscoveryCheck reg peers)
  show ?thesis
  proof (cases "NETWORK_CHECK_TRIES \<le> failed_checks (pr_task pr) \<or> reg = None \<or> peers = None")
    case True
    then show ?thesis
      using assms DiscoveryCheck
      by (cases reg) (auto simp: check_pass_network on_network_same runs.stay split: if_splits option.splits)
  next
    case False
    then obtain ps where "peers = Some ps" "reg = Some ()"
      by auto
    then have "pr_runtime pr' = on_network (\<lambda>net. fst (update_peers (Ok ps :: unit + _) net)) (pr_runtime pr)"
      using assms DiscoveryCheck False by (auto simp: check_pass_network split: if_splits)
    then show ?thesis
      using runs.go [OF runs.stay, of X "PeersRefreshed ps" "pr_runtime pr"] by simp
  qed
next
  case AwaitReadiness
  then show ?thesis
    using assms by (auto simp: runs.stay split: if_splits)
qed (use assms in \<open>auto simp: runtime_pass_def intro: runs.go [OF runs.stay] split: if_splits runtime_result.splits\<close>)

lemma runs_trans: "\<lbrakk>runs X b c; runs X a b\<rbrakk> \<Longrightarrow> runs X a c"
  by (induction rule: runs.induct) (auto intro: runs.go)

lemma process_runs_refine: "process_runs X pr pr' \<Longrightarrow> runs X (pr_runtime pr) (pr_runtime pr')"
  by (induction rule: process_runs.induct) (auto intro: runs.stay runs_trans process_step_runs)

section \<open>The signal\<close>

text \<open>The task has signalled already, and nobody was waiting.\<close>

definition missed :: "network_task \<Rightarrow> bool" where
  "missed t \<longleftrightarrow> \<not> notify_waiters t \<and> \<not> readiness_seen t"

text \<open>All of a peer but its network.\<close>

definition idle_since :: "process \<Rightarrow> process \<Rightarrow> bool" where
  "idle_since pr pr' \<longleftrightarrow> missed (pr_task pr') \<and>
    (\<exists>net. rt_peer (pr_runtime pr') = (rt_peer (pr_runtime pr))
       \<lparr>effects := (effects (rt_peer (pr_runtime pr)))\<lparr>network := net\<rparr>\<rparr>) \<and>
    (\<exists>ms. peer_channel (network (effects (rt_peer (pr_runtime pr')))) =
       peer_channel (network (effects (rt_peer (pr_runtime pr)))) @ ms)"

lemma check_pass_missed: "missed t \<Longrightarrow> missed (snd (check_pass reg peers t net))"
  by (auto simp: missed_def check_pass_def split: sum.split prod.split)

lemma update_peers_channel [simp]: "peer_channel (fst (update_peers r net)) = peer_channel net"
  by (simp add: update_peers_def split: sum.split)

lemma check_pass_channel [simp]: "peer_channel (fst (check_pass reg peers t net)) = peer_channel net"
  by (simp add: check_pass_network split: option.split)

lemma on_network_idle:
  assumes "idle_since pr pr1" "\<exists>ms. peer_channel (f (network (effects (rt_peer (pr_runtime pr1))))) =
      peer_channel (network (effects (rt_peer (pr_runtime pr1)))) @ ms" "missed t"
  shows "idle_since pr (pr1\<lparr>pr_runtime := on_network f (pr_runtime pr1), pr_task := t\<rparr>)"
  using assms by (auto simp: idle_since_def on_network_def Let_def)

lemma received_channel:
  "\<exists>ms. peer_channel (fst (on_message_received m net)) = peer_channel net @ ms"
  by (simp add: on_message_received_def)

lemma idle_step:
  assumes "idle_since pr pr1" "process_step X e pr1 = Some pr2"
  shows "idle_since pr pr2"
proof (cases e)
  case (DiscoveryCheck reg peers)
  have "missed (pr_task pr1)"
    using assms(1) by (simp add: idle_since_def)
  then show ?thesis
    using assms DiscoveryCheck
      on_network_idle [OF assms(1), of "\<lambda>net. fst (check_pass reg peers (pr_task pr1) net)", OF _ check_pass_missed]
    by (auto simp: idle_since_def split: if_splits)
next
  case AwaitReadiness
  then show ?thesis
    using assms by (auto simp: idle_since_def missed_def wait_for_readiness_def split: if_splits)
next
  case (LoopPass ev)
  then show ?thesis
    using assms by (auto simp: idle_since_def missed_def split: if_splits)
next
  case (ServerPass ev)
  have "missed (pr_task pr1)"
    using assms(1) by (simp add: idle_since_def)
  then show ?thesis
    using assms ServerPass on_network_idle [OF assms(1), where t = "pr_task pr1"] received_channel
    by (cases ev) (auto simp: runtime_pass_def receive_client_message_def split: if_splits)
qed

lemma idle_runs: "\<lbrakk>process_runs X pr1 pr2; idle_since pr pr1\<rbrakk> \<Longrightarrow> idle_since pr pr2"
  by (induction rule: process_runs.induct) (auto intro: idle_step)

section \<open>Properties\<close>

text \<open>
  C32. A peer can starve. If the first check of the discovery task succeeds before the process waits for the
  signal, the event loop never starts: whatever happens later, the engine, the keeper and the accounts
  stay as they were at the start and messages only pile up in the channel. If the process waits first,
  the same check starts the loop.
\<close>

theorem peer_can_starve:
  assumes "start_process X draw now fresh cfg d = (kd, Ok pr)"
  shows "(\<exists>pr1. process_step X (DiscoveryCheck (Some ()) (Some ps)) pr = Some pr1 \<and>
      (\<forall>pr' e. process_runs X pr1 pr' \<longrightarrow> idle_since pr pr' \<and> process_step X (LoopPass e) pr' = None)) \<and>
    (\<exists>pr1 pr2. process_step X AwaitReadiness pr = Some pr1 \<and>
      process_step X (DiscoveryCheck (Some ()) (Some ps)) pr1 = Some pr2 \<and> readiness_seen (pr_task pr2))"
proof
  have new: "pr_task pr = network_task_new" "pr_task_running pr"
    using assms by (auto simp: start_process_def split: prod.splits sum.splits)
  define pr1 where "pr1 = pr\<lparr>pr_runtime := on_network (\<lambda>net. fst (check_pass (Some ()) (Some ps) (pr_task pr) net)) (pr_runtime pr),
    pr_task := snd (check_pass (Some ()) (Some ps) (pr_task pr) (network (effects (rt_peer (pr_runtime pr)))))\<rparr>"
  have step: "process_step X (DiscoveryCheck (Some ()) (Some ps)) pr = Some pr1"
    by (simp add: new pr1_def network_task_new_def NETWORK_CHECK_TRIES_def)
  have "missed (pr_task pr1)"
    by (simp add: pr1_def new missed_def network_task_new_def check_pass_succeeds)
  then have idle: "idle_since pr pr1"
    by (auto simp: idle_since_def pr1_def on_network_def Let_def)
  have "idle_since pr pr' \<and> process_step X (LoopPass e) pr' = None" if "process_runs X pr1 pr'" for pr' e
    using idle_runs [OF that idle] by (simp add: idle_since_def missed_def)
  then show "\<exists>pr1. process_step X (DiscoveryCheck (Some ()) (Some ps)) pr = Some pr1 \<and>
      (\<forall>pr' e. process_runs X pr1 pr' \<longrightarrow> idle_since pr pr' \<and> process_step X (LoopPass e) pr' = None)"
    using step by blast
  show "\<exists>pr1 pr2. process_step X AwaitReadiness pr = Some pr1 \<and>
      process_step X (DiscoveryCheck (Some ()) (Some ps)) pr1 = Some pr2 \<and> readiness_seen (pr_task pr2)"
    by (simp add: new network_task_new_def NETWORK_CHECK_TRIES_def wait_for_readiness_def check_pass_succeeds)
qed

theorem peer_can_starve_witness:
  "\<exists>kd pr pr1. start_process test_peer_ext 0 0 (replicate 32 7) test_config test_peer_dir = (kd, Ok pr) \<and>
    process_step test_peer_ext (DiscoveryCheck (Some ()) (Some [])) pr = Some pr1 \<and>
    process_step test_peer_ext (LoopPass (Receive 0 0)) pr1 = None"
proof -
  obtain kd pr where "start_process test_peer_ext 0 0 (replicate 32 7) test_config test_peer_dir = (kd, Ok pr)"
    by (simp add: start_process_def start_peer_def test_peer_dir_def test_config_def BlockKeeper_new_def dir_list_all_blocks_def
        test_disk_def get_or_create_key_def Let_def)
  then show ?thesis
    using peer_can_starve [of test_peer_ext 0 0 "replicate 32 7" test_config test_peer_dir kd pr "[]"] process_runs.stay by blast
qed

end
