(* ===== verification/Server.thy ===== *)
theory Server
  imports Peer_Voting
begin

text \<open>
  \<^verbatim>\<open>src/src/server.rs\<close>: the request handlers of a peer's HTTP server, without the routing. A handler
  reads the views of the storage and of the peer, or puts a message into the peer's channel. The text of
  an I/O or JSON error and the path of the block directory are parameters.
\<close>

section \<open>Definitions\<close>

record ServerState =
  ss_network :: RestNetwork
  ss_latest_storage_view :: BlockStorageView
  ss_peer_state_view :: PeerStateView

datatype StatusCode = NOT_FOUND | INTERNAL_SERVER_ERROR

datatype post_answer =
    TransactionProcessed
  | NotAccepted network_error
  | InvalidClientId
  | ClientIdMissing
  | KeyManagerPanic key_panic

definition handle_client_transaction :: "SignedTransaction \<Rightarrow> ServerState \<Rightarrow> ServerState \<times> post_answer" where
  "handle_client_transaction tx st =
    (case receive_client_message (ClientTransaction tx) (ss_network st) of
       (net, Ok _) \<Rightarrow> (st\<lparr>ss_network := net\<rparr>, TransactionProcessed)
     | (net, Err e) \<Rightarrow> (st\<lparr>ss_network := net\<rparr>, NotAccepted e))"

text \<open>
  The \<open>client_id\<close> header is absent (\<open>None\<close>), not text (\<open>Some None\<close>), or the name of a directory
  below \<^verbatim>\<open>data/test_clients\<close>; the key directories are a function of that name.
\<close>

definition handle_test_transaction ::
    "('a) tx_ext_scheme \<Rightarrow> SigningKey \<Rightarrow> string option option \<Rightarrow> Transaction \<Rightarrow> (string \<Rightarrow> key_dir) \<Rightarrow> ServerState \<Rightarrow>
     (string \<Rightarrow> key_dir) \<times> ServerState \<times> post_answer" where
  "handle_test_transaction X fresh header tx dirs st =
    (case header of
       None \<Rightarrow> (dirs, st, ClientIdMissing)
     | Some None \<Rightarrow> (dirs, st, InvalidClientId)
     | Some (Some client) \<Rightarrow>
         (case get_or_create_key X fresh (dirs client) of
            (kd, Err e) \<Rightarrow> (dirs(client := kd), st, KeyManagerPanic e)
          | (kd, Ok key) \<Rightarrow>
              (case handle_client_transaction (SignedTransaction_new X tx key) st of
                 (st1, answer) \<Rightarrow> (dirs(client := kd), st1, answer))))"

text \<open>\<^verbatim>\<open>expect\<close> panics when the channel does not take the message.\<close>

definition hande_peer_message :: "Message \<Rightarrow> (ServerState, network_error, unit) step" where
  "hande_peer_message m st =
    (case on_message_received m (ss_network st) of (net, r) \<Rightarrow> (st\<lparr>ss_network := net\<rparr>, r))"

text \<open>The text of the errors a block file can be read with.\<close>

fun read_error_text :: "string \<Rightarrow> string \<Rightarrow> storage_error \<Rightarrow> string" where
  "read_error_text dir cause (BlockFileNotFound name) = ''Block file not found: '' @ dir @ name"
| "read_error_text dir cause (FailedToReadBlockFile name) = ''Failed to read block file '' @ dir @ name @ '': '' @ cause"
| "read_error_text dir cause (FailedToDeserializeBlockFile name) =
    ''Failed to deserialize block file '' @ dir @ name @ '': '' @ cause"
| "read_error_text dir cause _ = cause"

definition starts_with :: "string \<Rightarrow> string \<Rightarrow> bool" where
  "starts_with s pre \<longleftrightarrow> take (length pre) s = pre"

definition block_read_response :: "string \<Rightarrow> StatusCode \<times> string" where
  "block_read_response err =
    (if starts_with err ''Block file not found'' then (NOT_FOUND, err) else (INTERNAL_SERVER_ERROR, err))"

definition server_get_block ::
    "('a) block_ext_scheme \<Rightarrow> string \<Rightarrow> string \<Rightarrow> u32 \<Rightarrow> ServerState \<Rightarrow> (StatusCode \<times> string) + BlockFile" where
  "server_get_block X dir cause ix st =
    map_err (\<lambda>e. block_read_response (read_error_text dir cause e)) (get_block X (ss_latest_storage_view st) ix)"

definition get_block_state ::
    "('a) block_ext_scheme \<Rightarrow> string \<Rightarrow> string \<Rightarrow> u32 \<Rightarrow> ServerState \<Rightarrow> (StatusCode \<times> string) + BlockStorageState" where
  "get_block_state X dir cause ix st =
    (case server_get_block X dir cause ix st of Err e \<Rightarrow> Err e | Ok b \<Rightarrow> Ok (BlockStorageState_from b))"

definition get_latest_storage_state :: "ServerState \<Rightarrow> BlockStorageState" where
  "get_latest_storage_state st = get_latest_state (ss_latest_storage_view st)"

definition get_peer_state :: "ServerState \<Rightarrow> PeerState" where
  "get_peer_state st = get_state (known_peers (ss_network st)) (ss_peer_state_view st)"

text \<open>The server of a peer shares the peer's storage state and consensus state.\<close>

definition server_of :: "Peer \<Rightarrow> ServerState" where
  "server_of p = \<lparr>ss_network = network (effects p),
    ss_latest_storage_view = create_block_storage_view (block_keeper (effects p)),
    ss_peer_state_view = create_state_view p\<rparr>"

section \<open>Lemmas\<close>

lemma committed_blocks_nth:
  "\<lbrakk>committed_blocks X d n = Some bs; i < n\<rbrakk> \<Longrightarrow> read_from_disk_by_index X d (word_of_nat (Suc i)) = Ok (bs ! i)"
proof (induction n arbitrary: bs)
  case (Suc n)
  then obtain cs b where cs: "committed_blocks X d n = Some cs" "bs = cs @ [b]"
    "read_from_disk_by_index X d (word_of_nat (Suc n)) = Ok b"
    by (auto split: option.splits sum.splits)
  have "length cs = n"
    using cs(1) by (rule committed_blocks_length)
  then show ?case
    using Suc.IH [OF cs(1)] Suc.prems(2) cs by (cases "i = n") (auto simp: nth_append)
qed simp

lemma server_chain:
  assumes "store_ok X (block_keeper (effects p))" "keeper_blocks X (block_keeper (effects p)) = Some bs"
    and "1 \<le> unat ix" "unat ix \<le> length bs"
  shows "server_get_block X dir cause ix (server_of p) = Ok (bs ! (unat ix - 1)) \<and>
    get_block_state X dir cause ix (server_of p) = Ok (BlockStorageState_from (bs ! (unat ix - 1))) \<and>
    get_latest_storage_state (server_of p) = BlockStorageState_from (last bs)"
proof -
  let ?k = "block_keeper (effects p)" and ?h = "block_height (block_storage_state (block_keeper (effects p)))"
  have len: "length bs = unat ?h" and linked: "chain_linked X EMPTY_HASH 1 bs"
    and tip: "last_commited_hash (block_storage_state ?k) = chain_tip EMPTY_HASH bs"
    using assms(1,2) committed_blocks_length by (auto simp: store_ok_def keeper_blocks_def)
  have ix: "word_of_nat (Suc (unat ix - 1)) = ix"
    using assms(3) by simp
  have "read_from_disk_by_index X (path_to_blocks ?k) ix = Ok (bs ! (unat ix - 1))"
    using committed_blocks_nth [of X "path_to_blocks ?k" "unat ?h" bs "unat ix - 1"] assms(2-4) len
    by (simp add: keeper_blocks_def ix)
  moreover obtain cs b where b: "bs = cs @ [b]"
    using assms(3,4) by (cases bs rule: rev_cases) auto
  moreover have "unat (bf_index b) = unat ?h"
    using linked len unfolding b by (simp add: chain_linked_snoc)
  ultimately show ?thesis
    using tip
    by (simp add: server_get_block_def get_block_state_def get_latest_storage_state_def server_of_def get_block_def
        get_latest_state_def create_block_storage_view_def BlockStorageState_from_def chain_tip_def word_unat_eq_iff)
qed

section \<open>Properties\<close>

text \<open>
  A peer serves the chain it has committed: its latest state is that of the last block, and a
  question for the state or the file of any height from one to the last is answered with that block.
\<close>

theorem server_serves_chain:
  assumes "store_ok X (block_keeper (effects p))" "keeper_blocks X (block_keeper (effects p)) = Some bs"
    and "1 \<le> unat ix" "unat ix \<le> length bs"
  shows "server_get_block X dir cause ix (server_of p) = Ok (bs ! (unat ix - 1)) \<and>
    get_block_state X dir cause ix (server_of p) = Ok (BlockStorageState_from (bs ! (unat ix - 1))) \<and>
    get_latest_storage_state (server_of p) = BlockStorageState_from (last bs)"
  using assms by (rule server_chain)

theorem server_serves_chain_witness:
  "\<exists>k. commit_block test_store_ext (bf_hash test_block1) test_staged = (k, Ok ()) \<and>
    server_get_block test_store_ext [] [] 1
      (server_of ((test_voting_peer [])\<lparr>effects := (effects (test_voting_peer []))\<lparr>block_keeper := k\<rparr>\<rparr>)) = Ok test_block1"
proof -
  obtain k where k: "commit_block test_store_ext (bf_hash test_block1) test_staged = (k, Ok ())"
    using test_staged_commit by blast
  have "store_ok test_store_ext k" "keeper_blocks test_store_ext k = Some ([] @ [test_block1])"
    using commit_store_ok [OF _ test_staged_ok(1) k _ _ _ test_staged_ok(2,3)]
      commit_appends [OF k _ test_staged_ok(3), of "[]"] test_block_verifies
    by (simp_all add: keeper_blocks_def del: verify_block_iff)
  then show ?thesis
    using k server_serves_chain [of test_store_ext
        "(test_voting_peer [])\<lparr>effects := (effects (test_voting_peer []))\<lparr>block_keeper := k\<rparr>\<rparr>" "[test_block1]" 1 "[]" "[]"]
    by simp
qed

text \<open>
  Which status a request for a block gets: 404 exactly when there is no file for the index, 500
  when the file cannot be read or decoded, and the block otherwise.
\<close>

theorem block_request_status:
  "server_get_block X dir cause ix st =
    (case map_of (files (view_path (ss_latest_storage_view st))) (block_filename_for_index ix) of
       None \<Rightarrow> Err (NOT_FOUND, ''Block file not found: '' @ dir @ block_filename_for_index ix)
     | Some contents \<Rightarrow>
         if block_filename_for_index ix \<in> read_failures (view_path (ss_latest_storage_view st))
         then Err (INTERNAL_SERVER_ERROR, ''Failed to read block file '' @ dir @ block_filename_for_index ix @ '': '' @ cause)
         else case block_from_slice X contents of
             None \<Rightarrow> Err (INTERNAL_SERVER_ERROR,
               ''Failed to deserialize block file '' @ dir @ block_filename_for_index ix @ '': '' @ cause)
           | Some b \<Rightarrow> Ok b)"
  by (auto simp: server_get_block_def get_block_def read_from_disk_by_index_def read_from_disk_def block_read_response_def
      starts_with_def split: option.split)

end
