(* ===== verification/Local_Network.thy ===== *)
theory Local_Network
  imports Sync_Chain Server
begin

text \<open>
  \<^verbatim>\<open>src/src/network/local_network.rs\<close>: the in-process network of the tests. Channels are bounded
  queues; \<^verbatim>\<open>unwrap\<close> of a full channel is a panic (\<open>None\<close>). Its answers to synchronization requests come
  from the storage views registered with it.
\<close>

section \<open>Definitions\<close>

record channel =
  ch_queue :: "Message list"
  ch_capacity :: nat

record LocalNetwork =
  ln_senders :: "(PeerId \<times> channel) list"
  ln_known_peers :: "PeerId list"
  ln_block_storage_views :: "(PeerId \<times> BlockStorageView) list"
  ln_broadcasted_messages :: "MessageBody list"

definition LocalNetwork_default :: LocalNetwork where
  "LocalNetwork_default = \<lparr>ln_senders = [], ln_known_peers = [], ln_block_storage_views = [], ln_broadcasted_messages = []\<rparr>"

definition add_peer :: "PeerId \<Rightarrow> channel \<Rightarrow> LocalNetwork \<Rightarrow> LocalNetwork" where
  "add_peer p ch ln = ln\<lparr>ln_known_peers := ln_known_peers ln @ [p], ln_senders := AList.update p ch (ln_senders ln)\<rparr>"

definition add_known_peer :: "PeerId \<Rightarrow> LocalNetwork \<Rightarrow> LocalNetwork" where
  "add_known_peer p ln = ln\<lparr>ln_known_peers := ln_known_peers ln @ [p]\<rparr>"

definition add_block_storage_view :: "PeerId \<Rightarrow> BlockStorageView \<Rightarrow> LocalNetwork \<Rightarrow> LocalNetwork" where
  "add_block_storage_view p v ln =
    ln\<lparr>ln_known_peers := ln_known_peers ln @ [p], ln_block_storage_views := AList.update p v (ln_block_storage_views ln)\<rparr>"

definition try_send :: "Message \<Rightarrow> channel \<Rightarrow> channel option" where
  "try_send m ch = (if length (ch_queue ch) < ch_capacity ch then Some (ch\<lparr>ch_queue := ch_queue ch @ [m]\<rparr>) else None)"

definition local_send_peer_message :: "Message \<Rightarrow> LocalNetwork \<Rightarrow> LocalNetwork option" where
  "local_send_peer_message m ln =
    (case map_of (ln_senders ln) (msg_to m) of
       None \<Rightarrow> Some ln
     | Some ch \<Rightarrow>
         (case try_send m ch of
            None \<Rightarrow> None
          | Some ch' \<Rightarrow> Some (ln\<lparr>ln_senders := AList.update (msg_to m) ch' (ln_senders ln)\<rparr>)))"

fun local_send_to :: "MessageBody \<Rightarrow> PeerId \<Rightarrow> PeerId list \<Rightarrow> LocalNetwork \<Rightarrow> LocalNetwork option" where
  "local_send_to body src [] ln = Some ln"
| "local_send_to body src (p # ps) ln =
    (if p \<noteq> src
     then Option.bind (local_send_peer_message \<lparr>msg_from = src, msg_to = p, msg_body = body\<rparr> ln) (local_send_to body src ps)
     else local_send_to body src ps ln)"

definition local_broadcast_peer_message :: "MessageBody \<Rightarrow> PeerId \<Rightarrow> LocalNetwork \<Rightarrow> LocalNetwork option" where
  "local_broadcast_peer_message body src ln =
    local_send_to body src (map fst (ln_senders ln))
      (ln\<lparr>ln_broadcasted_messages := ln_broadcasted_messages ln @ [body]\<rparr>)"

text \<open>A client message goes to a random peer: the draw is an argument.\<close>

definition local_receive_client_message :: "nat \<Rightarrow> MessageBody \<Rightarrow> LocalNetwork \<Rightarrow> (unit + LocalNetwork) option" where
  "local_receive_client_message draw body ln =
    (if ln_senders ln = [] then Some (Err ())
     else map_option Ok (local_send_peer_message
       \<lparr>msg_from = PeerId 0, msg_to = fst (ln_senders ln ! (draw mod length (ln_senders ln))), msg_body = body\<rparr> ln))"

text \<open>A received message is put into the channel of its sender.\<close>

definition local_on_message_received :: "Message \<Rightarrow> LocalNetwork \<Rightarrow> (unit + LocalNetwork) option" where
  "local_on_message_received m ln =
    (case map_of (ln_senders ln) (msg_from m) of
       None \<Rightarrow> None
     | Some ch \<Rightarrow>
         (case try_send m ch of
            None \<Rightarrow> Some (Err ())
          | Some ch' \<Rightarrow> Some (Ok (ln\<lparr>ln_senders := AList.update (msg_from m) ch' (ln_senders ln)\<rparr>))))"

text \<open>
  The answer of a view is a state or a block, and is decoded as the type the caller asks for;
  decoding as the other type fails.
\<close>

datatype local_response = StateResponse BlockStorageState | BlockResponse BlockFile

fun as_state :: "local_response \<Rightarrow> request_error + BlockStorageState" where
  "as_state (StateResponse s) = Ok s"
| "as_state (BlockResponse b) = Err ResponseMalformed"

fun as_block :: "local_response \<Rightarrow> request_error + BlockFile" where
  "as_block (BlockResponse b) = Ok b"
| "as_block (StateResponse s) = Err ResponseMalformed"

definition local_send_and_wait ::
    "('a) block_ext_scheme \<Rightarrow> (local_response \<Rightarrow> request_error + 't) \<Rightarrow> LocalNetwork \<Rightarrow> PeerId \<Rightarrow> NetworkMessage \<Rightarrow>
     request_error + 't" where
  "local_send_and_wait X decode ln p m =
    (case map_of (ln_block_storage_views ln) p of
       None \<Rightarrow> Err PeerNotFound
     | Some v \<Rightarrow>
         (case m of
            GetLatestBlockState \<Rightarrow> decode (StateResponse (get_latest_state v))
          | GetBlockState ix \<Rightarrow>
              (case get_block X v ix of Err _ \<Rightarrow> Err RequestFailed | Ok b \<Rightarrow> decode (StateResponse (BlockStorageState_from b)))
          | GetBlock ix \<Rightarrow>
              (case get_block X v ix of Err _ \<Rightarrow> Err RequestFailed | Ok b \<Rightarrow> decode (BlockResponse b))
          | _ \<Rightarrow> Err RequestFailed))"

fun local_send_and_wait_for_all ::
    "('a) block_ext_scheme \<Rightarrow> (local_response \<Rightarrow> request_error + 't) \<Rightarrow> LocalNetwork \<Rightarrow> NetworkMessage \<Rightarrow> PeerId list \<Rightarrow>
     (PeerId \<times> (request_error + 't)) list" where
  "local_send_and_wait_for_all X decode ln m [] = []"
| "local_send_and_wait_for_all X decode ln m (p # ps) =
    AList.update p (local_send_and_wait X decode ln p m) (local_send_and_wait_for_all X decode ln m ps)"

text \<open>The networks as synchronization sees them.\<close>

definition local_sync_net ::
    "('a) block_ext_scheme \<Rightarrow> (nat \<Rightarrow> PeerId list \<Rightarrow> PeerId list) \<Rightarrow> nat \<Rightarrow> LocalNetwork \<Rightarrow> sync_net" where
  "local_sync_net X pick draw ln =
    \<lparr>sn_known_peers = ln_known_peers ln,
     sn_send_and_wait_for_all = local_send_and_wait_for_all X as_state ln,
     sn_send_and_wait = local_send_and_wait X as_block ln,
     sn_choose_multiple = pick, sn_draw = draw\<rparr>"

section \<open>Honest networks\<close>

text \<open>The random choice as documented: distinct elements, as many as asked for if there are that many.\<close>

definition pick_correct :: "(nat \<Rightarrow> PeerId list \<Rightarrow> PeerId list) \<Rightarrow> bool" where
  "pick_correct pick \<longleftrightarrow> (\<forall>m qs. distinct qs \<longrightarrow> distinct (pick m qs) \<and> set (pick m qs) \<subseteq> set qs \<and>
    length (pick m qs) = min m (length qs))"

text \<open>A view of a storage that holds the chain.\<close>

definition serves :: "('a) block_ext_scheme \<Rightarrow> BlockFile list \<Rightarrow> BlockStorageView \<Rightarrow> bool" where
  "serves X bs v \<longleftrightarrow> get_latest_state v = tip_state bs \<and>
    (\<forall>ix. 1 \<le> unat ix \<and> unat ix \<le> length bs \<longrightarrow> get_block X v ix = Ok (bs ! (unat ix - 1)))"

lemma update_fresh: "p \<notin> fst ` set xs \<Longrightarrow> AList.update p v xs = xs @ [(p, v)]"
  by (induction xs) auto

lemma local_all_mset:
  "distinct qs \<Longrightarrow> mset (local_send_and_wait_for_all X decode ln m qs) = mset (map (\<lambda>q. (q, local_send_and_wait X decode ln q m)) qs)
    \<and> fst ` set (local_send_and_wait_for_all X decode ln m qs) = set qs"
  by (induction qs) (auto simp: update_fresh)

text \<open>A network that asks each peer by itself is honest if each peer answers from the chain.\<close>

lemma honest_netI:
  assumes "sn_known_peers n = ps" "pick_correct (sn_choose_multiple n)"
    and all: "\<And>m qs. distinct qs \<Longrightarrow> set qs \<subseteq> set ps \<Longrightarrow>
      mset (sn_send_and_wait_for_all n m qs) = mset (map (\<lambda>q. (q, ask q m)) qs)"
    and latest: "\<And>q. q \<in> set ps \<Longrightarrow> ask q GetLatestBlockState = Ok (tip_state bs)"
    and state: "\<And>q ix. \<lbrakk>q \<in> set ps; 1 \<le> unat ix; unat ix \<le> length bs\<rbrakk> \<Longrightarrow>
      ask q (GetBlockState ix) = Ok (BlockStorageState_from (bs ! (unat ix - 1)))"
    and block: "\<And>q ix. \<lbrakk>q \<in> set ps; 1 \<le> unat ix; unat ix \<le> length bs\<rbrakk> \<Longrightarrow>
      sn_send_and_wait n q (GetBlock ix) = Ok (bs ! (unat ix - 1))"
  shows "honest_net bs ps n"
proof -
  have "mset (sn_send_and_wait_for_all n m qs) = mset (map (\<lambda>q. (q, Ok s)) qs)"
    if "distinct qs" "set qs \<subseteq> set ps" "\<And>q. q \<in> set qs \<Longrightarrow> ask q m = Ok s" for qs m s
  proof -
    have "map (\<lambda>q. (q, ask q m)) qs = map (\<lambda>q. (q, Ok s)) qs"
      using that(3) by simp
    then show ?thesis
      unfolding all [OF that(1,2)] by (rule arg_cong)
  qed
  note answer = this
  have "mset (sn_send_and_wait_for_all n GetLatestBlockState qs) = mset (map (\<lambda>q. (q, Ok (tip_state bs))) qs)"
    if "set qs \<subseteq> set ps \<and> distinct qs" for qs
    using that latest by (intro answer) auto
  moreover have "mset (sn_send_and_wait_for_all n (GetBlockState ix) qs) =
      mset (map (\<lambda>q. (q, Ok (BlockStorageState_from (bs ! (unat ix - 1))))) qs)"
    if "set qs \<subseteq> set ps \<and> distinct qs \<and> 1 \<le> unat ix \<and> unat ix \<le> length bs" for qs ix
    using that by (intro answer) (auto intro: state [simplified])
  ultimately show ?thesis
    using assms(1,2) block unfolding honest_net_def pick_correct_def by blast
qed

lemma local_net_honest:
  assumes "pick_correct pick" "\<forall>p \<in> set (ln_known_peers ln). \<exists>v. map_of (ln_block_storage_views ln) p = Some v \<and> serves X bs v"
  shows "honest_net bs (ln_known_peers ln) (local_sync_net X pick draw ln)"
  using assms local_all_mset [of _ X as_state ln]
  by (intro honest_netI [where ask = "local_send_and_wait X as_state ln"])
    (auto simp: local_sync_net_def local_send_and_wait_def serves_def)

end
