(* ===== verification/Http_Server.thy ===== *)
theory Http_Server
  imports Server Http
begin

text \<open>
  \<^verbatim>\<open>run_server\<close> of \<^verbatim>\<open>src/src/server.rs\<close>: the route table of a peer, and a request from the path to
  the handler and back. A handler that panics sends no response.
\<close>

section \<open>Definitions\<close>

record server_ext = http_ext +
  signed_from_str :: "string \<Rightarrow> SignedTransaction option"
  transaction_from_str :: "string \<Rightarrow> Transaction option"
  state_to_string :: "BlockStorageState \<Rightarrow> string"
  block_to_string :: "BlockFile \<Rightarrow> string"
  peer_state_to_string :: "PeerState \<Rightarrow> string"

datatype server_handler =
    HandleClientTransaction
  | HandleTestTransaction
  | HandePeerMessage
  | GetLatestStorageState
  | GetPeerState
  | GetBlockStateByIndex
  | GetBlockByIndex

definition server_routes :: "server_handler routes" where
  "server_routes =
    [(TRANSACTIONS_PATH, POST, HandleClientTransaction),
     (TEST_TRANSACTIONS_PATH, POST, HandleTestTransaction),
     (HANDLE_PEER_MESSAGE_PATH, POST, HandePeerMessage),
     (LATEST_BLOCK_STATE_PATH, GET, GetLatestStorageState),
     (PEER_STATE_PATH, GET, GetPeerState),
     (''/block/state/{block_index}'', GET, GetBlockStateByIndex),
     (''/block/{block_index}'', GET, GetBlockByIndex)]"

fun status_of :: "StatusCode \<Rightarrow> nat" where
  "status_of NOT_FOUND = 404"
| "status_of INTERNAL_SERVER_ERROR = 500"

fun post_response :: "('a) http_ext_scheme \<Rightarrow> post_answer \<Rightarrow> http_response option" where
  "post_response H TransactionProcessed = Some (ok_response ''Transaction processed'')"
| "post_response H (NotAccepted e) = Some (ok_response (network_error_text H e))"
| "post_response H InvalidClientId = Some (ok_response ''Invalid client_id header value'')"
| "post_response H ClientIdMissing = Some (ok_response ''client_id is not specified but required'')"
| "post_response H (KeyManagerPanic _) = None"

fun json_response :: "('t \<Rightarrow> string) \<Rightarrow> (StatusCode \<times> string) + 't \<Rightarrow> http_response" where
  "json_response enc (Ok v) = ok_response (enc v)"
| "json_response enc (Err (code, text)) = \<lparr>rs_status = status_of code, rs_body = text\<rparr>"

text \<open>The \<^verbatim>\<open>Path<u32>\<close> extractor.\<close>

definition extract_index :: "('a) http_ext_scheme \<Rightarrow> http_request \<Rightarrow> string list \<Rightarrow> http_response + u32" where
  "extract_index H rq caps =
    (case caps of
       [s] \<Rightarrow> (case from_str_u32 s of Some n \<Rightarrow> Ok n | None \<Rightarrow> Err (extract_rejection H rq))
     | _ \<Rightarrow> Err (extract_rejection H rq))"

type_synonym served_state = "(string \<Rightarrow> key_dir) \<times> ServerState"

definition handle_request ::
    "('a) server_ext_scheme \<Rightarrow> ('b) block_ext_scheme \<Rightarrow> SigningKey \<Rightarrow> string \<Rightarrow> string \<Rightarrow> server_handler \<Rightarrow> string list \<Rightarrow>
     http_request \<Rightarrow> served_state \<Rightarrow> served_state \<times> http_response option" where
  "handle_request H X fresh dir cause h caps rq s =
    (case s of (dirs, st) \<Rightarrow>
      (case h of
         HandleClientTransaction \<Rightarrow>
           (case extract_json H (signed_from_str H) rq of
              Err r \<Rightarrow> (s, Some r)
            | Ok tx \<Rightarrow> (case handle_client_transaction tx st of (st1, a) \<Rightarrow> ((dirs, st1), post_response H a)))
       | HandleTestTransaction \<Rightarrow>
           (case extract_json H (transaction_from_str H) rq of
              Err r \<Rightarrow> (s, Some r)
            | Ok tx \<Rightarrow>
                (case handle_test_transaction X fresh (header rq ''client_id'') tx dirs st of
                   (dirs1, st1, a) \<Rightarrow> ((dirs1, st1), post_response H a)))
       | HandePeerMessage \<Rightarrow>
           (case extract_json H (message_from_str H) rq of
              Err r \<Rightarrow> (s, Some r)
            | Ok m \<Rightarrow>
                (case hande_peer_message m st of
                   (st1, Ok _) \<Rightarrow> ((dirs, st1), Some (ok_response []))
                 | (st1, Err _) \<Rightarrow> ((dirs, st1), None)))
       | GetLatestStorageState \<Rightarrow> (s, Some (ok_response (state_to_string H (get_latest_storage_state st))))
       | GetPeerState \<Rightarrow> (s, Some (ok_response (peer_state_to_string H (get_peer_state st))))
       | GetBlockStateByIndex \<Rightarrow>
           (case extract_index H rq caps of
              Err r \<Rightarrow> (s, Some r)
            | Ok ix \<Rightarrow> (s, Some (json_response (state_to_string H) (get_block_state X dir cause ix st))))
       | GetBlockByIndex \<Rightarrow>
           (case extract_index H rq caps of
              Err r \<Rightarrow> (s, Some r)
            | Ok ix \<Rightarrow> (s, Some (json_response (block_to_string H) (server_get_block X dir cause ix st))))))"

definition run_server ::
    "router \<Rightarrow> ('a) server_ext_scheme \<Rightarrow> ('b) block_ext_scheme \<Rightarrow> SigningKey \<Rightarrow> string \<Rightarrow> string \<Rightarrow>
     http_request \<Rightarrow> served_state \<Rightarrow> served_state \<times> http_response option" where
  "run_server lookup H X fresh dir cause rq s =
    (case dispatch lookup server_routes rq of
       Err r \<Rightarrow> (s, Some r)
     | Ok (h, caps) \<Rightarrow> handle_request H X fresh dir cause h caps rq s)"

section \<open>Routing of the peers' requests\<close>

lemma routes_distinct: "distinct (map fst server_routes)"
  by (simp add: server_routes_def path_consts)

lemma digits_free: "c \<notin> set (show_nat n)" if "\<not> is_digit c"
  using show_nat_plain [of c n] that by blast

lemma not_digits: "\<not> is_digit (CHR ''/'')" "\<not> is_digit (CHR ''%'')" "\<not> is_digit (CHR ''l'')"
  by (simp_all add: is_digit_def)

lemma path_plain: "CHR ''%'' \<notin> set (path m)"
  by (cases m) (simp_all add: path_consts digits_free not_digits)

lemma index_segments: "segments (show_nat n) = [show_nat n]"
  by (simp add: segments_plain digits_free not_digits)

lemma digits_not_latest: "show_nat n \<noteq> ''latest''"
  using digits_free [OF not_digits(3), of n] by auto

lemmas route_eval = route_matches_def segment_matches_def is_capture_def captured_def is_static_def path_consts
  server_routes_def index_segments

lemma dispatch_latest:
  assumes "axum_router lookup"
  shows "dispatch lookup server_routes (rest_request H GetLatestBlockState a) = Ok (GetLatestStorageState, [])"
  using dispatch_route [OF assms routes_distinct, of "rest_request H GetLatestBlockState a" LATEST_BLOCK_STATE_PATH GetLatestStorageState]
  by (simp add: route_eval rest_request_def)

lemma dispatch_message:
  assumes "axum_router lookup"
  shows "dispatch lookup server_routes (rest_request H (PeerMessage m) a) = Ok (HandePeerMessage, [])"
  using dispatch_route [OF assms routes_distinct, of "rest_request H (PeerMessage m) a" HANDLE_PEER_MESSAGE_PATH HandePeerMessage]
  by (simp add: route_eval rest_request_def)

lemma dispatch_state:
  assumes "axum_router lookup"
  shows "dispatch lookup server_routes (rest_request H (GetBlockState ix) a) = Ok (GetBlockStateByIndex, [show_nat (unat ix)])"
  using dispatch_route [OF assms routes_distinct, of "rest_request H (GetBlockState ix) a" "''/block/state/{block_index}''"
      GetBlockStateByIndex] path_plain [of "GetBlockState ix"] digits_not_latest [of "unat ix", symmetric]
  by (simp add: route_eval rest_request_def)

lemma dispatch_block:
  assumes "axum_router lookup"
  shows "dispatch lookup server_routes (rest_request H (GetBlock ix) a) = Ok (GetBlockByIndex, [show_nat (unat ix)])"
  using dispatch_route [OF assms routes_distinct, of "rest_request H (GetBlock ix) a" "''/block/{block_index}''"
      GetBlockByIndex] path_plain [of "GetBlock ix"]
  by (simp add: route_eval rest_request_def)

lemma dispatch_foreign:
  assumes "axum_router lookup"
  shows "dispatch lookup server_routes (rest_request H GetPeers a) = Err \<lparr>rs_status = 404, rs_body = []\<rparr>"
    and "dispatch lookup server_routes (rest_request H (Register p b) a) = Err \<lparr>rs_status = 404, rs_body = []\<rparr>"
  using dispatch_no_route [OF assms routes_distinct, of "rest_request H GetPeers a"]
    dispatch_no_route [OF assms routes_distinct, of "rest_request H (Register p b) a"]
  by (simp_all add: route_eval rest_request_def)

lemma extract_shown: "extract_index H rq [show_nat (unat ix)] = Ok ix"
  using unat_less_pow32 [of ix] by (simp add: extract_index_def from_str_u32_show)

lemma run_server_reads:
  assumes "axum_router lookup"
  shows "run_server lookup H X fresh dir cause (rest_request H GetLatestBlockState a) (dirs, st) =
      ((dirs, st), Some (ok_response (state_to_string H (get_latest_storage_state st))))"
    and "run_server lookup H X fresh dir cause (rest_request H (GetBlockState ix) a) (dirs, st) =
      ((dirs, st), Some (json_response (state_to_string H) (get_block_state X dir cause ix st)))"
    and "run_server lookup H X fresh dir cause (rest_request H (GetBlock ix) a) (dirs, st) =
      ((dirs, st), Some (json_response (block_to_string H) (server_get_block X dir cause ix st)))"
  by (simp_all add: run_server_def handle_request_def dispatch_latest dispatch_state dispatch_block extract_shown assms)

section \<open>Properties\<close>

text \<open>
  C20. Every request a peer sends to another peer reaches the handler it is meant for, with its
  argument intact: the three kinds of questions leave the server as it is and are answered with what
  the handler returns, and a message is put into the channel of the peer; if the channel does not
  take it, the handler panics and no response is sent. The two messages for the discovery service
  are answered with 404.
\<close>

theorem requests_reach_handlers:
  assumes "axum_router lookup" "json_content_type H ''application/json''" "message_from_str H (message_to_string H m) = Some m"
  shows "run_server lookup H X fresh dir cause (rest_request H GetLatestBlockState a) (dirs, st) =
      ((dirs, st), Some (ok_response (state_to_string H (get_latest_storage_state st)))) \<and>
    run_server lookup H X fresh dir cause (rest_request H (GetBlockState ix) a) (dirs, st) =
      ((dirs, st), Some (json_response (state_to_string H) (get_block_state X dir cause ix st))) \<and>
    run_server lookup H X fresh dir cause (rest_request H (GetBlock ix) a) (dirs, st) =
      ((dirs, st), Some (json_response (block_to_string H) (server_get_block X dir cause ix st))) \<and>
    run_server lookup H X fresh dir cause (rest_request H (PeerMessage m) a) (dirs, st) =
      (case on_message_received m (ss_network st) of
         (net, Ok _) \<Rightarrow> ((dirs, st\<lparr>ss_network := net\<rparr>), Some (ok_response []))
       | (net, Err _) \<Rightarrow> ((dirs, st\<lparr>ss_network := net\<rparr>), None)) \<and>
    run_server lookup H X fresh dir cause (rest_request H GetPeers a) (dirs, st) =
      ((dirs, st), Some \<lparr>rs_status = 404, rs_body = []\<rparr>) \<and>
    run_server lookup H X fresh dir cause (rest_request H (Register p b) a) (dirs, st) =
      ((dirs, st), Some \<lparr>rs_status = 404, rs_body = []\<rparr>)"
proof -
  have "extract_json H (message_from_str H) (rest_request H (PeerMessage m) a) = Ok m"
    unfolding rest_request_def by (rule extract_built) (simp_all add: assms body_of_def)
  then have "run_server lookup H X fresh dir cause (rest_request H (PeerMessage m) a) (dirs, st) =
      (case on_message_received m (ss_network st) of
         (net, Ok _) \<Rightarrow> ((dirs, st\<lparr>ss_network := net\<rparr>), Some (ok_response []))
       | (net, Err _) \<Rightarrow> ((dirs, st\<lparr>ss_network := net\<rparr>), None))"
    by (simp add: run_server_def handle_request_def dispatch_message assms(1) hande_peer_message_def split: prod.split sum.split)
  then show ?thesis
    by (simp add: run_server_reads assms(1)) (simp add: run_server_def dispatch_foreign assms(1))
qed

definition test_server_ext :: server_ext where
  "test_server_ext = \<lparr>message_to_string = (\<lambda>m. MessageBody_fmt (msg_body m)),
    message_from_str = (\<lambda>_. Some \<lparr>msg_from = PeerId 2, msg_to = PeerId 1, msg_body = BlockReject EMPTY_HASH\<rparr>),
    register_to_string = (\<lambda>_. []), register_from_str = (\<lambda>_. None), network_message_to_string = (\<lambda>_. []),
    peers_to_string = (\<lambda>_. []), peers_from_str = (\<lambda>_. None), network_error_text = (\<lambda>_. []),
    json_content_type = (\<lambda>t. t = ''application/json''), extract_rejection = (\<lambda>_. \<lparr>rs_status = 400, rs_body = []\<rparr>),
    signed_from_str = (\<lambda>_. None), transaction_from_str = (\<lambda>_. None),
    state_to_string = (\<lambda>s. if block_height s = 0 then ''empty'' else ''chain''), block_to_string = (\<lambda>_. ''block''),
    peer_state_to_string = (\<lambda>_. [])\<rparr>"

definition test_key_dirs :: "string \<Rightarrow> key_dir" where
  "test_key_dirs _ = \<lparr>dir_creatable = True, key_writable = True, key_file = None\<rparr>"

abbreviation test_served :: "NetworkMessage \<Rightarrow> http_response option" where
  "test_served m \<equiv> snd (run_server first_match test_server_ext test_peer_ext [] ''data/'' []
    (rest_request test_server_ext m (SocketAddr [127, 0, 0, 1] 3001))
    (test_key_dirs, server_of (test_voting_peer [])))"

theorem requests_reach_handlers_witness:
  "test_served (GetBlock 7) = Some \<lparr>rs_status = 404, rs_body = ''Block file not found: data/'' @ block_filename_for_index 7\<rparr> \<and>
   test_served GetLatestBlockState = Some \<lparr>rs_status = 200, rs_body = ''empty''\<rparr>"
proof -
  have "message_from_str test_server_ext (message_to_string test_server_ext m) = Some m" "json_content_type test_server_ext ''application/json''"
    if "m = \<lparr>msg_from = PeerId 2, msg_to = PeerId 1, msg_body = BlockReject EMPTY_HASH\<rparr>" for m
    by (simp_all add: that test_server_ext_def)
  note reach = requests_reach_handlers [OF first_match_axum this(2,1) [OF refl]]
  have "test_served (GetBlock 7) = Some (json_response (block_to_string test_server_ext)
      (server_get_block test_peer_ext ''data/'' [] 7 (server_of (test_voting_peer []))))"
    "test_served GetLatestBlockState =
      Some (ok_response (state_to_string test_server_ext (get_latest_storage_state (server_of (test_voting_peer [])))))"
    by (simp_all add: reach)
  then show ?thesis
    by (simp add: server_get_block_def get_block_def server_of_def create_block_storage_view_def read_from_disk_by_index_def
      read_from_disk_def test_disk_def block_read_response_def starts_with_def get_latest_storage_state_def get_latest_state_def
      test_server_ext_def ok_response_def)
qed

end
