(* ===== verification/Catch_Up.thy ===== *)
theory Catch_Up
  imports Local_Network Http_Server
begin

text \<open>
  Synchronization over the REST network, from the servers of the other peers to the keeper of the peer
  that is behind: the composition of the server, the network, synchronization and storage.
\<close>

section \<open>The REST network as synchronization sees it\<close>

definition rest_sync_net ::
    "transport \<Rightarrow> (string \<Rightarrow> BlockStorageState option) \<Rightarrow> (string \<Rightarrow> BlockFile option) \<Rightarrow>
     (nat \<Rightarrow> PeerId list \<Rightarrow> PeerId list) \<Rightarrow> nat \<Rightarrow> RestNetwork \<Rightarrow> sync_net" where
  "rest_sync_net http dec_state dec_block pick draw net =
    \<lparr>sn_known_peers = known_peers net,
     sn_send_and_wait_for_all = (\<lambda>m ps. send_and_wait_for_all http dec_state m ps net),
     sn_send_and_wait = (\<lambda>p m. send_and_wait http dec_block p m net),
     sn_choose_multiple = pick, sn_draw = draw\<rparr>"

lemma alist_mset:
  assumes "distinct (map fst xs)" "distinct (map fst ys)" "map_of xs = map_of ys"
  shows "mset xs = mset ys"
proof -
  have "set xs = set ys"
    using assms by (metis map_of_eq_Some_iff subrelI subset_antisym)
  then show ?thesis
    using assms by (simp add: distinct_map set_eq_iff_mset_eq_distinct)
qed

lemma fold_update_keys: "distinct (map fst rs) \<Longrightarrow> distinct (map fst (fold (\<lambda>(p, a). AList.update p (f a)) hs rs))"
  by (induction hs arbitrary: rs) (auto simp: distinct_update)

lemma rest_all_mset:
  fixes dec :: "string \<Rightarrow> 'v option"
  assumes "distinct qs" "set qs \<subseteq> set (known_peers net)"
  shows "mset (send_and_wait_for_all http dec m qs net) = mset (map (\<lambda>q. (q, send_and_wait http dec q m net)) qs)"
proof (rule alist_mset)
  have prefix: "known_prefix net qs = qs" "dropWhile (\<lambda>p. p \<in> set (known_peers net)) qs = []"
    using assms(2) by (auto simp: takeWhile_eq_all_conv)
  show "map_of (send_and_wait_for_all http dec m qs net) = map_of (map (\<lambda>q. (q, send_and_wait http dec q m net)) qs)"
    unfolding send_and_wait_for_all_def
    by (rule ext, simp only: send_to_all_result prefix list.case) (simp add: map_of_map_restrict restrict_map_def)
  show "distinct (map fst (send_and_wait_for_all http dec m qs net))"
    unfolding send_and_wait_for_all_def send_to_all_def
    by (auto simp: case_prod_unfold spawn_requests_results prefix(2) intro!: fold_update_keys [unfolded case_prod_unfold])
  show "distinct (map fst (map (\<lambda>q. (q, send_and_wait http dec q m net)) qs))"
    using assms(1) by (simp add: comp_def)
qed

section \<open>Servers behind the network\<close>

text \<open>
  The HTTP exchange with servers: the request that \<^verbatim>\<open>send_message\<close> builds for an address goes to the
  server of the peer at that address, and the caller reads the body of the response.
\<close>

definition served ::
    "router \<Rightarrow> ('a) server_ext_scheme \<Rightarrow> ('b) block_ext_scheme \<Rightarrow> SigningKey \<Rightarrow> string \<Rightarrow> string \<Rightarrow> (string \<Rightarrow> key_dir) \<Rightarrow>
     (SocketAddr \<Rightarrow> Peer) \<Rightarrow> transport" where
  "served lookup H X fresh dir cause dirs peer_at addr m =
    map_option (Some \<circ> rs_body) (snd (run_server lookup H X fresh dir cause (rest_request H m addr) (dirs, server_of (peer_at addr))))"

text \<open>The chain the peers hold and what they send of it, with a JSON codec that round-trips on it.\<close>

definition holds_chain :: "('a) block_ext_scheme \<Rightarrow> BlockFile list \<Rightarrow> Peer \<Rightarrow> bool" where
  "holds_chain X bs p \<longleftrightarrow> store_ok X (block_keeper (effects p)) \<and> keeper_blocks X (block_keeper (effects p)) = Some bs"

definition json_correct ::
    "BlockFile list \<Rightarrow> (BlockStorageState \<Rightarrow> string) \<Rightarrow> (string \<Rightarrow> BlockStorageState option) \<Rightarrow>
     (BlockFile \<Rightarrow> string) \<Rightarrow> (string \<Rightarrow> BlockFile option) \<Rightarrow> bool" where
  "json_correct bs enc_state dec_state enc_block dec_block \<longleftrightarrow>
    (\<forall>b \<in> set bs. dec_block (enc_block b) = Some b \<and> dec_state (enc_state (BlockStorageState_from b)) = Some (BlockStorageState_from b))"

lemma rest_net_honest:
  assumes "axum_router lookup" "pick_correct pick" "json_correct bs (state_to_string H) dec_state (block_to_string H) dec_block" "bs \<noteq> []"
    and "\<forall>(q, addr) \<in> set (rn_known_peers net). holds_chain X bs (peer_at addr)"
  shows "honest_net bs (known_peers net)
    (rest_sync_net (served lookup H X fresh dir cause dirs peer_at) dec_state dec_block pick draw net)"
proof -
  let ?http = "served lookup H X fresh dir cause dirs peer_at"
  have addr: "\<exists>addr. map_of (rn_known_peers net) q = Some addr \<and> holds_chain X bs (peer_at addr)"
    if "q \<in> set (known_peers net)" for q
    using that assms(5) map_of_known [of net q] by (fastforce dest: map_of_SomeD)
  have state: "send_and_wait ?http dec_state q (GetBlockState ix) net = Ok (BlockStorageState_from (bs ! (unat ix - 1)))"
    and block: "send_and_wait ?http dec_block q (GetBlock ix) net = Ok (bs ! (unat ix - 1))"
    and latest: "send_and_wait ?http dec_state q GetLatestBlockState net = Ok (tip_state bs)"
    if q: "q \<in> set (known_peers net)" "1 \<le> unat ix" "unat ix \<le> length bs" for q ix
  proof -
    obtain a where a: "map_of (rn_known_peers net) q = Some a" "holds_chain X bs (peer_at a)"
      using addr [OF q(1)] by blast
    note chain = server_chain [of X "peer_at a" bs ix dir cause]
    have "bs ! (unat ix - 1) \<in> set bs" "last bs \<in> set bs"
      using q(2,3) assms(4) by simp_all
    then show "send_and_wait ?http dec_state q (GetBlockState ix) net = Ok (BlockStorageState_from (bs ! (unat ix - 1)))"
      "send_and_wait ?http dec_block q (GetBlock ix) net = Ok (bs ! (unat ix - 1))"
      "send_and_wait ?http dec_state q GetLatestBlockState net = Ok (tip_state bs)"
      using a chain q(2,3) assms(3)
      by (simp_all add: send_and_wait_def request_result_def served_def run_server_reads [OF assms(1)] ok_response_def
          deserialize_resp_def json_correct_def holds_chain_def)
  qed
  have "1 \<le> unat (1 :: u32)" "unat (1 :: u32) \<le> length bs"
    using assms(4) by (cases bs; simp)+
  then have "send_and_wait ?http dec_state q GetLatestBlockState net = Ok (tip_state bs)" if "q \<in> set (known_peers net)" for q
    using latest [OF that] by blast
  then show ?thesis
    using assms(2) state block rest_all_mset [where net = net]
    by (intro honest_netI [where ask = "\<lambda>q m. send_and_wait ?http dec_state q m net"]) (auto simp: rest_sync_net_def)
qed

section \<open>Properties\<close>

text \<open>
  C12. How far a peer that is behind catches up over the network: all peers it knows hold the same chain,
  of which it has a proper prefix, on a disk that works, and synchronization sends them requests, which
  their servers route and answer. If it has staged none of the missing blocks, synchronization returns success and leaves
  it with the whole chain, whatever sources the random choices of each pass pick. If it has staged one of
  them, the first such block is refused on every pass: the peer gets the blocks before it and synchronization fails.
  In both cases the staged blocks stay as they were.
\<close>

theorem peer_catches_up:
  assumes "block_pattern_correct X" "codec_on X (set bs)" "axum_router lookup"
    and "json_correct bs (state_to_string H) dec_state (block_to_string H) dec_block"
    and "\<forall>k. pick_correct (pick k)" "distinct (known_peers net)" "known_peers net \<noteq> []"
    and "\<forall>(q, addr) \<in> set (rn_known_peers net). holds_chain X bs (peer_at addr)"
    and "i < length bs" "length bs < 2 ^ 32 - 1" "synced X (take i bs) (peer_keeper p)"
  shows "\<exists>p'. check_and_retrieve_missing_blocks
      (\<lambda>k. rest_sync_net (served lookup H X fresh dir cause dirs peer_at) dec_state dec_block (pick k) (draw k) net)
      (height (peer_keeper p)) (peer_apply_synchronized_block X) p =
        Some (p', SyncReturned (if \<forall>b \<in> set (drop i bs). bf_hash b \<notin> fst ` set (uncommited_blocks (peer_keeper p))
          then SUCCESS else FAIL)) \<and>
    keeper_blocks X (peer_keeper p') =
      Some (take i bs @ takeWhile (\<lambda>b. bf_hash b \<notin> fst ` set (uncommited_blocks (peer_keeper p))) (drop i bs)) \<and>
    uncommited_blocks (peer_keeper p') = uncommited_blocks (peer_keeper p)"
  unfolding list_all_iff [symmetric]
proof (rule sync_from_honest_peers [OF assms(1,2) _ assms(10) _ assms(6,7,9,11) refl])
  obtain q addr where "(q, addr) \<in> set (rn_known_peers net)"
    using assms(7) by (cases "rn_known_peers net") (auto simp: known_peers_def)
  then have "holds_chain X bs (peer_at addr)"
    using assms(8) by blast
  then show "chain_linked X EMPTY_HASH 1 bs"
    by (auto simp: holds_chain_def store_ok_def)
  show "\<forall>k. honest_net bs (known_peers net)
      (rest_sync_net (served lookup H X fresh dir cause dirs peer_at) dec_state dec_block (pick k) (draw k) net)"
    using assms(3-5,8,9) by (auto intro!: rest_net_honest)
qed

definition test_ahead :: Peer where
  "test_ahead = (test_voting_peer [])\<lparr>effects := (effects (test_voting_peer []))
    \<lparr>block_keeper := fst (commit_block test_peer_ext (bf_hash test_block1) test_staged)\<rparr>\<rparr>"

lemma test_ahead_chain: "holds_chain test_peer_ext [test_block1] test_ahead"
proof -
  have k: "commit_block test_peer_ext (bf_hash test_block1) test_staged =
      (fst (commit_block test_peer_ext (bf_hash test_block1) test_staged), Ok ())"
    by (simp add: commit_block_def fs_write_def test_disk_def Let_def)
  have st: "store_ok test_peer_ext test_staged" "stores_block test_peer_ext test_staged test_block1"
    "keeper_blocks test_peer_ext test_staged = Some []"
    by (simp_all add: store_ok_def keeper_blocks_def chain_tip_def block_names_def test_disk_def stores_block_def)
  have "verify_block test_peer_ext test_block1 = Ok ()"
    by (simp add: test_block_file_def calculate_hash_def)
  then show ?thesis
    using commit_store_ok [OF test_peer_pattern st(1) k _ _ _ test_staged_ok(2) st(2)] commit_appends [OF k _ st(2) _ st(3)]
    by (simp add: holds_chain_def test_ahead_def del: verify_block_iff)
qed

theorem peer_catches_up_witness:
  "\<exists>p'. check_and_retrieve_missing_blocks
      (\<lambda>k. rest_sync_net (served first_match test_server_ext test_peer_ext [] [] [] test_key_dirs (\<lambda>_. test_ahead))
        (\<lambda>_. Some (BlockStorageState_from test_block1)) (\<lambda>_. Some test_block1) take k (test_network [PeerId 2])) 0
      (peer_apply_synchronized_block test_peer_ext) (test_voting_peer [PeerId 2]) = Some (p', SyncReturned SUCCESS) \<and>
    keeper_blocks test_peer_ext (peer_keeper p') = Some [test_block1]"
proof -
  have "synced test_peer_ext (take 0 [test_block1]) (peer_keeper (test_voting_peer [PeerId 2]))"
    using test_peer_synced by simp
  moreover have "pick_correct take"
    by (auto simp: pick_correct_def dest: in_set_takeD)
  moreover have "rn_known_peers (test_network [PeerId 2]) = [(PeerId 2, SocketAddr [127, 0, 0, 1] 3000)]"
    by (simp add: test_network_def)
  ultimately show ?thesis
    using peer_catches_up [where X = test_peer_ext and bs = "[test_block1]" and i = 0 and pick = "\<lambda>_. take" and draw = "\<lambda>k. k" and
        net = "test_network [PeerId 2]" and p = "test_voting_peer [PeerId 2]" and peer_at = "\<lambda>_. test_ahead" and dir = "[]" and
        cause = "[]" and lookup = first_match and H = test_server_ext and fresh = "[]" and dirs = test_key_dirs and dec_block = "\<lambda>_. Some test_block1" and
        dec_state = "\<lambda>_. Some (BlockStorageState_from test_block1)", OF test_peer_pattern] test_ahead_chain first_match_axum
    by (simp add: codec_on_def json_correct_def known_peers_def) blast
qed

end
