(* ===== verification/Discovery.thy ===== *)
theory Discovery
  imports Rest_Network
begin

text \<open>
  \<^verbatim>\<open>src/src/bin/discovery.rs\<close>: the discovery service. It keeps the address and the time of the last
  registration of every peer and answers with those seen in the last twenty seconds. Reading the
  live peers and writing the pruned table are two critical sections, so they are two steps.
\<close>

section \<open>Definitions\<close>

definition KEEP_ALIVE :: duration where
  "KEEP_ALIVE = 20000"

type_synonym AppState = "(PeerId \<times> SocketAddr \<times> instant) list"

type_synonym PeersResponse = "(PeerId \<times> SocketAddr) list"

definition register_peer :: "instant \<Rightarrow> PeerId \<Rightarrow> SocketAddr \<Rightarrow> AppState \<Rightarrow> AppState" where
  "register_peer now p addr st = AList.update p (addr, now) st"

definition live_peers :: "instant \<Rightarrow> AppState \<Rightarrow> AppState" where
  "live_peers now st = filter (\<lambda>(_, _, seen). now - seen < KEEP_ALIVE) st"

definition PeersResponse_from :: "AppState \<Rightarrow> PeersResponse" where
  "PeersResponse_from st = map (\<lambda>(p, addr, _). (p, addr)) st"

text \<open>The write that follows the read: the table becomes the snapshot that was read.\<close>

definition write_back :: "AppState \<Rightarrow> nat \<Rightarrow> AppState \<Rightarrow> AppState" where
  "write_back filtered read_len st = (if length filtered \<noteq> read_len then filtered else st)"

definition get_peers :: "instant \<Rightarrow> AppState \<Rightarrow> AppState \<times> PeersResponse" where
  "get_peers now st =
    (let filtered = live_peers now st
     in (write_back filtered (length st) st, PeersResponse_from filtered))"

text \<open>The same request with registrations between its two critical sections.\<close>

definition get_peers_interleaved ::
    "instant \<Rightarrow> (AppState \<Rightarrow> AppState) \<Rightarrow> AppState \<Rightarrow> AppState \<times> PeersResponse" where
  "get_peers_interleaved now others st =
    (let filtered = live_peers now st
     in (write_back filtered (length st) (others st), PeersResponse_from filtered))"

section \<open>Histories\<close>

text \<open>Requests with the times at which they are served; the latest request first.\<close>

datatype disc_request = RegisterAt instant PeerId SocketAddr | PeersAt instant

fun served_at :: "disc_request \<Rightarrow> instant" where
  "served_at (RegisterAt t _ _) = t"
| "served_at (PeersAt t) = t"

fun serve :: "disc_request list \<Rightarrow> AppState" where
  "serve [] = []"
| "serve (RegisterAt t p a # h) = register_peer t p a (serve h)"
| "serve (PeersAt t # h) = fst (get_peers t (serve h))"

text \<open>The abstract view: the last registration of a peer.\<close>

fun last_registration :: "disc_request list \<Rightarrow> PeerId \<Rightarrow> (SocketAddr \<times> instant) option" where
  "last_registration [] p = None"
| "last_registration (RegisterAt t q a # h) p = (if q = p then Some (a, t) else last_registration h p)"
| "last_registration (PeersAt t # h) p = last_registration h p"

definition times_ordered :: "disc_request list \<Rightarrow> instant \<Rightarrow> bool" where
  "times_ordered h now \<longleftrightarrow> sorted_wrt (\<lambda>a b. served_at b \<le> served_at a) h \<and> (\<forall>r \<in> set h. served_at r \<le> now)"

section \<open>Lemmas\<close>

lemma live_peers_map_of:
  "distinct (map fst st) \<Longrightarrow>
    map_of (live_peers now st) p =
      (case map_of st p of
         Some (a, seen) \<Rightarrow> if now - seen < KEEP_ALIVE then Some (a, seen) else None
       | None \<Rightarrow> None)"
proof (induction st)
  case (Cons e st)
  obtain q a seen where e: "e = (q, a, seen)"
    by (cases e) auto
  have "q = p \<Longrightarrow> map_of st p = None"
    using Cons.prems by (simp add: e map_of_eq_None_iff)
  then show ?case
    using Cons by (auto simp: live_peers_def e)
qed (simp add: live_peers_def)

lemma live_peers_keys: "distinct (map fst st) \<Longrightarrow> distinct (map fst (live_peers now st))"
  by (simp add: live_peers_def distinct_map_filter)

lemma write_back_live: "write_back (live_peers now st) (length st) st = live_peers now st"
proof -
  have "length (live_peers now st) = length st \<Longrightarrow> live_peers now st = st"
    unfolding live_peers_def by (metis filter_id_conv length_filter_less less_irrefl)
  then show ?thesis
    by (auto simp: write_back_def)
qed

lemma serve_keys: "distinct (map fst (serve h))"
  by (induction h rule: serve.induct)
    (auto simp: register_peer_def distinct_update get_peers_def Let_def write_back_live live_peers_keys)

lemma serve_live:
  assumes "times_ordered h now"
  shows "map_of (serve h) p = last_registration h p \<or>
    map_of (serve h) p = None \<and> (\<forall>a seen. last_registration h p = Some (a, seen) \<longrightarrow> KEEP_ALIVE \<le> now - seen)"
  using assms
proof (induction h arbitrary: now)
  case (Cons r h)
  have prev: "times_ordered h (served_at r)" and le: "served_at r \<le> now"
    using Cons.prems by (auto simp: times_ordered_def)
  have older: "KEEP_ALIVE \<le> now - seen" if "KEEP_ALIVE \<le> served_at r - seen" for seen
    using that le by linarith
  show ?case
  proof (cases r)
    case (RegisterAt t q a)
    then show ?thesis
      using Cons.IH [OF prev] older by (cases "q = p") (auto simp: register_peer_def update_conv')
  next
    case (PeersAt t)
    then have "map_of (serve (r # h)) p = (case map_of (serve h) p of
        Some (a, seen) \<Rightarrow> if t - seen < KEEP_ALIVE then Some (a, seen) else None | None \<Rightarrow> None)"
      by (simp add: get_peers_def Let_def write_back_live live_peers_map_of serve_keys)
    then show ?thesis
      using Cons.IH [OF prev] older PeersAt by (cases "map_of (serve h) p") (auto split: if_splits)
  qed
qed simp

lemma map_of_PeersResponse_from: "map_of (PeersResponse_from st) p = map_option fst (map_of st p)"
  by (induction st) (auto simp: PeersResponse_from_def)

lemma live_answer:
  assumes "times_ordered h now"
  shows "map_of (snd (get_peers now (serve h))) p =
      (case last_registration h p of
         Some (a, seen) \<Rightarrow> if now - seen < KEEP_ALIVE then Some a else None
       | None \<Rightarrow> None)
    \<and> distinct (map fst (snd (get_peers now (serve h))))"
proof -
  have "map fst (PeersResponse_from st) = map fst st" for st
    by (auto simp: PeersResponse_from_def)
  then show ?thesis
    using serve_live [OF assms, of p] serve_keys [of h] live_peers_keys [OF serve_keys, of now h]
    by (cases "last_registration h p"; cases "map_of (serve h) p")
      (auto simp: get_peers_def Let_def map_of_PeersResponse_from live_peers_map_of)
qed

section \<open>Properties\<close>

text \<open>
  The discovery service refines a map from peers to their last registration: after any history
  of requests served in the order of their times, the answer to a request for the peers lists exactly
  the peers whose last registration is less than twenty seconds old, each once and with the address
  it registered last. Pruning the table on earlier requests never loses a live peer.
\<close>

theorem discovery_lists_live_peers:
  assumes "times_ordered h now"
  shows "map_of (snd (get_peers now (serve h))) p =
      (case last_registration h p of
         Some (a, seen) \<Rightarrow> if now - seen < KEEP_ALIVE then Some a else None
       | None \<Rightarrow> None)
    \<and> distinct (map fst (snd (get_peers now (serve h))))"
  using assms by (rule live_answer)

abbreviation test_addr :: "u16 \<Rightarrow> SocketAddr" where
  "test_addr n \<equiv> SocketAddr [127, 0, 0, 1] n"

theorem discovery_lists_live_peers_witness:
  "map_of (snd (get_peers 30000 (serve [RegisterAt 15000 (PeerId 2) (test_addr 2), PeersAt 14000,
      RegisterAt 1000 (PeerId 1) (test_addr 1)]))) (PeerId 2) = Some (test_addr 2) \<and>
   map_of (snd (get_peers 30000 (serve [RegisterAt 15000 (PeerId 2) (test_addr 2), PeersAt 14000,
      RegisterAt 1000 (PeerId 1) (test_addr 1)]))) (PeerId 1) = None"
proof -
  have "times_ordered [RegisterAt 15000 (PeerId 2) (test_addr 2), PeersAt 14000,
      RegisterAt 1000 (PeerId 1) (test_addr 1)] 30000"
    by (simp add: times_ordered_def)
  from discovery_lists_live_peers [OF this] show ?thesis
    by (simp add: KEEP_ALIVE_def)
qed

text \<open>
  The prune loses registrations that arrive between the read and the write of a request: if some
  entry is stale when the request reads the table, every registration made between its two critical
  sections by a peer that was not live before is gone afterwards.
\<close>

theorem interleaved_prune_loses_registration:
  assumes "distinct (map fst st)" "length (live_peers now st) \<noteq> length st" "map_of (live_peers now st) p = None"
  shows "map_of (fst (get_peers_interleaved now (register_peer t p a) st)) p = None \<and>
    map_of (register_peer t p a (fst (get_peers now st))) p = Some (a, t)"
  using assms by (simp add: get_peers_interleaved_def Let_def write_back_def register_peer_def update_conv')

theorem interleaved_prune_loses_registration_witness:
  "map_of (fst (get_peers_interleaved 30000 (register_peer 30001 (PeerId 2) (test_addr 2))
     [(PeerId 1, test_addr 1, 1000)])) (PeerId 2) = None"
  using interleaved_prune_loses_registration [of "[(PeerId 1, test_addr 1, 1000)]" 30000 "PeerId 2" 30001 "test_addr 2"]
  by (simp add: live_peers_def KEEP_ALIVE_def)

end
