(* ===== verification/Discovery_Client.thy ===== *)
theory Discovery_Client
  imports Discovery Network_Run Runtime
begin

text \<open>
  \<^verbatim>\<open>src/src/network/discovery_client.rs\<close>, the client of the discovery service, and the configuration and
  the routes of the service (\<^verbatim>\<open>main\<close> of \<^verbatim>\<open>src/src/bin/discovery.rs\<close>), composed into one check of the
  background task against the service. The HTTP exchange is a parameter: what a request yields, \<open>None\<close>
  when it fails.
\<close>

section \<open>Configuration\<close>

text \<open>\<^verbatim>\<open>str::parse::<u16>\<close>\<close>

definition from_str_u16 :: "string \<Rightarrow> u16 option" where
  "from_str_u16 s =
    (case from_str_u32 s of
       Some n \<Rightarrow> if unat n < 2 ^ 16 then Some (ucast n) else None
     | None \<Rightarrow> None)"

definition discovery_port :: "environment \<Rightarrow> u16" where
  "discovery_port E =
    (case env_var E DISCOVERY_PORT_ENV_VAR of
       Some s \<Rightarrow> (case from_str_u16 s of Some n \<Rightarrow> n | None \<Rightarrow> DEFAULT_BASE_PORT)
     | None \<Rightarrow> DEFAULT_BASE_PORT)"

record DiscoveryConfig =
  dc_listening_addr :: SocketAddr

definition DiscoveryConfig_from_env :: "environment \<Rightarrow> config_error + DiscoveryConfig" where
  "DiscoveryConfig_from_env E =
    (let bind_host = (case env_var E DISCOVERY_BIND_HOST_ENV_VAR of Some s \<Rightarrow> s | None \<Rightarrow> IpAddr_fmt DEFAULT_LOCAL_HOST)
     in (case ip_from_str E bind_host of
           None \<Rightarrow> Err BindHostNotAnIp
         | Some bind_ip \<Rightarrow> Ok \<lparr>dc_listening_addr = SocketAddr bind_ip (discovery_port E)\<rparr>))"

section \<open>The client\<close>

record HttpDiscoveryClient =
  discovery_base_url :: string

definition HttpDiscoveryClient_from_env :: "environment \<Rightarrow> HttpDiscoveryClient" where
  "HttpDiscoveryClient_from_env E =
    (let discovery_host = (case env_var E DISCOVERY_HOST_ENV_VAR of Some s \<Rightarrow> s | None \<Rightarrow> IpAddr_fmt DEFAULT_LOCAL_HOST)
     in \<lparr>discovery_base_url = ''http://'' @ discovery_host @ '':'' @ show_nat (unat (discovery_port E))\<rparr>)"

definition HttpDiscoveryClient_new :: "SocketAddr \<Rightarrow> HttpDiscoveryClient" where
  "HttpDiscoveryClient_new addr = \<lparr>discovery_base_url = ''http://'' @ SocketAddr_fmt addr\<rparr>"






section \<open>The service\<close>




section \<open>One check against the service\<close>



section \<open>Lemmas\<close>







lemma default_addresses_agree:
  assumes "env_var E DISCOVERY_HOST_ENV_VAR = None" "env_var E DISCOVERY_BIND_HOST_ENV_VAR = None"
    and "ip_from_str E ''127.0.0.1'' = Some [127, 0, 0, 1]"
  shows "\<exists>cfg. DiscoveryConfig_from_env E = Ok cfg \<and>
    HttpDiscoveryClient_from_env E = HttpDiscoveryClient_new (dc_listening_addr cfg)"
  using assms by (simp add: DiscoveryConfig_from_env_def HttpDiscoveryClient_from_env_def HttpDiscoveryClient_new_def
      SocketAddr_fmt_def DEFAULT_LOCAL_HOST_def)

section \<open>Properties\<close>




end
