(* ===== verification/Spec2Isabelle.thy ===== *)
theory Spec2Isabelle
  imports Cluster_Safety Raft_Restart Raft_Progress Replication_Payload Rejected_Blocks Decided_Blocks Peer_Process Catch_Up Discovery_Client
begin

text \<open>
  Verification of rustchain: a peer-to-peer chain of blocks of coin transactions, with two consensus
  protocols (Raft and a majority vote per block), a REST network between the peers and a discovery
  service. The development translates the program under \<^verbatim>\<open>src/src\<close> into functions of HOL, handler by
  handler, and proves what each part promises, alone and composed.

  \<^bold>\<open>The program.\<close> A client posts a signed transaction to the HTTP server of a peer
  (\<^verbatim>\<open>server.rs\<close>), which puts it into the inbound channel of the peer's event loop
  (\<^verbatim>\<open>peer_runtime.rs\<close>). The loop hands messages and ticks to the peer (\<^verbatim>\<open>peer.rs\<close>), the peer asks its consensus engine (\<^verbatim>\<open>consensus.rs\<close>: \<^verbatim>\<open>raft.rs\<close> or \<^verbatim>\<open>voting.rs\<close>), and the engine answers with a list of
  effects. These are executed from a queue (\<^verbatim>\<open>effects.rs\<close>) over three services: the accounts
  (\<^verbatim>\<open>transactions.rs\<close>), the block keeper with its mempool, staged blocks and block directory
  (\<^verbatim>\<open>storage.rs\<close>), and the network (\<^verbatim>\<open>network/\<close>). A peer that finds itself behind asks the servers of
  the others for their blocks (\<^verbatim>\<open>synchronization.rs\<close>). It knows the others from the discovery service
  (\<^verbatim>\<open>bin/discovery.rs\<close>), with which a background task registers every five seconds.

  \<^bold>\<open>How the model is written.\<close> A struct is a \<^theory_text>\<open>record\<close> with the fields of the source, an enum a
  \<^theory_text>\<open>datatype\<close>; a method that changes its object takes the state last and returns it updated, and a
  \<^verbatim>\<open>Result\<close> is a sum whose left side is an error datatype of the component (\<open>Err\<close>, \<open>Ok\<close>). An error
  return keeps the state changed so far, as in the source. \<^verbatim>\<open>u16\<close>, \<^verbatim>\<open>u32\<close> and \<^verbatim>\<open>u64\<close> are words, whose
  addition wraps as in a release build; saturating operations are written out. A
  \<^verbatim>\<open>HashMap\<close> that is only looked up is a map; one whose elements are enumerated is an association list with
  distinct keys (locale \<open>hash_map\<close> in Prelude). A \<^verbatim>\<open>Vec\<close> is a list. Random draws, the time, the
  answers of the network and the I/O failures of the directory are arguments or fields of the state, so that a theorem
  for all of them covers every outcome. Code of other crates (k256, sha2, hex, serde, regex, reqwest, axum) enters through
  records of functions (\<open>block_ext\<close>, \<open>raft_ext\<close> and the like), and what a theorem needs of it, such
  as that decoding undoes encoding or that a route look-up finds the one matching route, is a hypothesis
  that a concrete instance satisfies in the theorem's witness.

  \<^bold>\<open>Theories and sources.\<close>

  \<^item> Prelude: words, results, saturating operations, the hash map interface and shared list lemmas.
  \<^item> Crypto (\<^verbatim>\<open>crypto.rs\<close>) and Transactions (\<^verbatim>\<open>transactions.rs\<close>): the key manager, the two signatures of a
    transaction, accounts and balances, the journal with which a block is rolled back. Shown:
    processing is atomic and idempotent, the coins of an asset change by deposits only, rolling a
    block back restores the accounts (through the locale \<open>journal\<close>), and a deposit can wrap a balance.
  \<^item> Storage and Block_Store (\<^verbatim>\<open>storage.rs\<close>): blocks and hashes, \<^verbatim>\<open>BlockKeeper\<close>. Shown: the keeper invariant,
    the refinement of the directory to a hash-linked list of blocks, recovery of the state from the
    directory, the order of file names and where it ends, and that two staged blocks of one height break the chain.
  \<^item> Messages (\<^verbatim>\<open>peer/messages.rs\<close>) with the effect and entry types of the consensus modules, and
    Raft_Log_Store (\<^verbatim>\<open>raft_log_store.rs\<close>) with the locale \<open>log_store\<close>, interpreted for the two stores.
  \<^item> Raft (\<^verbatim>\<open>raft.rs\<close>, \<^verbatim>\<open>raft/election.rs\<close>, \<^verbatim>\<open>raft/replication.rs\<close>): every handler, helper and
    constructor of the state \<open>RaftConsensus\<close>. Raft_Log and Raft_Steps give one step function over all inputs of a peer and
    what each step keeps; Raft_Safety proves the committed prefix stable, the commit effects exact, the
    contract of append entries and the commit rule; Raft_Restart proves what a restart
    recovers and what it forgets; Raft_Progress proves that one round of requests and answers commits the leader's log.
  \<^item> Quorums: the locale \<open>quorum_system\<close>, interpreted for the majorities of Raft and the approvals of Voting.
  \<^item> Raft_Cluster, Raft_Moves, Raft_System, Log_Matching, Leader_Completeness, State_Machine_Safety: a
    cluster of peers that run the handlers of Raft, as an inductive step relation over all orders of delivery, loss and
    duplication of messages, and Raft's safety argument for it. Raft_Traces evaluates scripts of events
    as runs of this relation. Cluster_Safety holds the theorems: log matching, leader completeness, state machine safety,
    and two runs that show what breaks it.
  \<^item> Voting (\<^verbatim>\<open>voting.rs\<close>) and Consensus (\<^verbatim>\<open>consensus.rs\<close>): vote counts, outcomes and the dispatch of the engine. Shown:
    a block is decided once, and for which numbers of participants approvals intersect.
  \<^item> Rest_Network, Http and Network_Run (\<^verbatim>\<open>network/mod.rs\<close>, \<^verbatim>\<open>network/rest_network.rs\<close>,
    \<^verbatim>\<open>network/network_constants.rs\<close>): the peer table, requests and answers, the discovery task with its
    retries and its readiness signal. The locale \<open>network_interface\<close> is what peers rely on.
    Local_Network (\<^verbatim>\<open>network/local_network.rs\<close>) is the in-process network.
  \<^item> Effects and Effect_Queue (\<^verbatim>\<open>peer/effects.rs\<close>): the execution of effects; the queue is shown equal to three
    breadth-first rounds.
  \<^item> Peer, Peer_Voting, Replication_Payload and Rejected_Blocks (\<^verbatim>\<open>peer.rs\<close>): all handlers; which
    blocks a peer approves, what travels with Raft entries, what a rejected block leaves behind.
  \<^item> Synchronization and Sync_Chain (\<^verbatim>\<open>synchronization.rs\<close>): the catch-up loop, a \<^theory_text>\<open>partial_function\<close>
    in the option monad; it returns for every network when the reported height is below the largest
    \<^verbatim>\<open>u32\<close>, and only appends verified, linked blocks, unless a block whose parent is staged is
    served out of order; a run shows what happens then.
  \<^item> Peer_Guide: the locales \<open>guided_peer\<close>, \<open>synced_peer\<close> and \<open>keeper_relation\<close>, which reduce a claim about
    every handler of a peer to one law per call of the engine and per operation of the keeper. Keeper_Growth
    interprets them for well-formedness and for a directory that is only appended to, Decided_Blocks for the runs of either engine.
  \<^item> Runtime, Runtime_Safety, Decided_Blocks and Peer_Process (\<^verbatim>\<open>peer_runtime.rs\<close>, \<^verbatim>\<open>config.rs\<close>,
    \<^verbatim>\<open>bin/peer_runner.rs\<close>): configuration, start and event loop. In every run the block directory is
    only appended to, and with Raft the peer writes a subsequence of the blocks the engine committed, in that order.
  \<^item> Server and Http_Server (\<^verbatim>\<open>server.rs\<close>): handlers and routes; Catch_Up composes servers, network,
    synchronization and storage into the catch-up of a peer, which ends before the first missing block it has
    staged.
  \<^item> Discovery (\<^verbatim>\<open>bin/discovery.rs\<close>) and Discovery_Client (\<^verbatim>\<open>network/discovery_client.rs\<close>): the service, its client, and
    the two composed.

  \<^bold>\<open>Bounds and restrictions.\<close>
  No definition has fuel: recursion is structural, has a measure, or is the synchronization loop above. Theorems
  that add to a \<^verbatim>\<open>u64\<close> index or term say so with a bound below \<open>2 ^ 64\<close> on a log length or a term,
  and heights are bounded by the \<^verbatim>\<open>u32\<close> of the source: the directory is only appended to as long as it has no file
  of the greatest height. A failed write leaves the block directory as it was, where the real one could be left with
  a truncated file; the theorems on synchronization ask for a disk that works (\<open>synced\<close>) and allow any staged
  blocks. The staged blocks are searched in the order of insertion, where a \<^verbatim>\<open>HashMap\<close> has no order. Waking the waiters
  of a \<^verbatim>\<open>Notify\<close> follows its documentation: it reaches the tasks that wait and leaves no permit. The cluster has a fixed set of members that start with
  empty logs and do not restart, since the program does not store its term or its vote, and a
  restarted peer can vote twice. State machine safety is proved for runs without two deliveries that
  the code does not guard against: a commit index that reaches a follower with entries beyond
  the batch it came with (\<open>covered\<close> excludes it), and a rejection of an earlier term's request that counts in the
  current term (\<open>prompt\<close> excludes it). For each of them Cluster_Safety has a run with two different entries committed at
  one index; log matching and leader completeness need neither restriction. The system records more than the
  program keeps (past logs, ballots, leaders); no guard of a handler reads it.

  \<^bold>\<open>Not modelled.\<close> Logging and logger set-up (\<^verbatim>\<open>logging.rs\<close>, module declarations of \<^verbatim>\<open>lib.rs\<close>), which keep no
  state the program reads; timers and the spawning of tasks, whose effect is the order of the events a run
  ranges over; sockets and the HTTP transport, of which the model has the request, the route and the
  response; the byte formats of the serialization crates; and the tests of the repository.
\<close>

end
